(* ===== verification/Go_Prelude.thy ===== *)
theory Go_Prelude
  imports Main "HOL-Library.List_Lexorder" "HOL-Library.Char_ord" "HOL-Library.AList"
begin

text \<open>
  The part of the Go language and of its standard library that every component of the
  controller uses: strings as byte lists with the \<^verbatim>\<open>strings\<close> functions, points in time and
  saturating durations of the \<^verbatim>\<open>time\<close> package, maps as association lists or partial functions
  with an explicit iteration order, sentinel errors, and \<^verbatim>\<open>url.URL\<close> values.

  A Go \<^verbatim>\<open>string\<close> is a list of bytes (\<^typ>\<open>char\<close>); \<^verbatim>\<open><\<close> on strings is the bytewise
  lexicographic order that the imported theories install on \<^typ>\<open>string\<close>. The order in which
  \<^verbatim>\<open>range\<close> visits a map is unspecified in Go. A function that ranges over a map therefore takes
  the visiting order: either the map is given as the association list of its entries in that
  order, or a list of its keys is a further argument.
\<close>

named_theorems go_simps \<open>unfolding rules for the string and time functions of the prelude\<close>
named_theorems pool_defs \<open>definitions of the operations on one pool\<close>
named_theorems mgr_defs \<open>definitions of the manager's operations\<close>

section \<open>Time\<close>

text \<open>
  \<^verbatim>\<open>time.Time\<close> is a number of nanoseconds, \<^verbatim>\<open>time.Duration\<close> a signed 64-bit number of
  nanoseconds. \<^verbatim>\<open>Time.Sub\<close> saturates at the ends of the range of \<^verbatim>\<open>Duration\<close>.
\<close>

type_synonym time = int
type_synonym duration = int

definition max_duration :: duration where
  "max_duration = 9223372036854775807"

definition min_duration :: duration where
  "min_duration = -9223372036854775808"

definition time_sub :: "time \<Rightarrow> time \<Rightarrow> duration" where
  "time_sub t u = max min_duration (min max_duration (t - u))"

definition second :: duration where
  "second = 1000000000"

definition minute :: duration where
  "minute = 60 * second"

lemmas duration_defs [go_simps] = max_duration_def min_duration_def time_sub_def

lemma time_sub_less_iff:
  "min_duration < d \<Longrightarrow> d \<le> max_duration \<Longrightarrow> time_sub t u < d \<longleftrightarrow> t - u < d"
  by (auto simp: duration_defs)

lemma time_sub_gt_iff:
  "min_duration \<le> d \<Longrightarrow> d < max_duration \<Longrightarrow> d < time_sub t u \<longleftrightarrow> d < t - u"
  by (auto simp: duration_defs)

lemma time_sub_mono: "t \<le> t' \<Longrightarrow> time_sub t u \<le> time_sub t' u"
  by (auto simp: duration_defs)

lemma time_sub_self [simp]: "time_sub t t = 0"
  by (simp add: duration_defs)

section \<open>Strings\<close>

definition has_prefix :: "string \<Rightarrow> string \<Rightarrow> bool" where
  "has_prefix s p \<longleftrightarrow> take (length p) s = p"

definition has_suffix :: "string \<Rightarrow> string \<Rightarrow> bool" where
  "has_suffix s p \<longleftrightarrow> has_prefix (rev s) (rev p)"

definition trim_suffix :: "string \<Rightarrow> string \<Rightarrow> string" where
  "trim_suffix s p = (if has_suffix s p then take (length s - length p) s else s)"

definition cut_prefix :: "string \<Rightarrow> string \<Rightarrow> string option" where
  "cut_prefix s p = (if has_prefix s p then Some (drop (length p) s) else None)"

text \<open>\<^verbatim>\<open>strings.Cut\<close> with a separator of one byte.\<close>

definition cut_byte :: "char \<Rightarrow> string \<Rightarrow> (string \<times> string) option" where
  "cut_byte c s =
     (if c \<in> set s
      then Some (takeWhile (\<lambda>x. x \<noteq> c) s, tl (dropWhile (\<lambda>x. x \<noteq> c) s))
      else None)"

fun contains :: "string \<Rightarrow> string \<Rightarrow> bool" where
  "contains [] p = has_prefix [] p"
| "contains (c # s) p = (has_prefix (c # s) p \<or> contains s p)"

fun split_byte :: "char \<Rightarrow> string \<Rightarrow> string list" where
  "split_byte c [] = [[]]"
| "split_byte c (x # s) =
     (if x = c then [] # split_byte c s
      else (case split_byte c s of [] \<Rightarrow> [[x]] | l # ls \<Rightarrow> (x # l) # ls))"

fun join_byte :: "char \<Rightarrow> string list \<Rightarrow> string" where
  "join_byte c [] = []"
| "join_byte c [l] = l"
| "join_byte c (l # ls) = l @ c # join_byte c ls"

lemma has_prefix_append: "has_prefix s p \<longleftrightarrow> (\<exists>r. s = p @ r)"
  by (metis append_eq_conv_conj has_prefix_def)

lemma cut_prefix_Some: "cut_prefix s p = Some r \<longleftrightarrow> s = p @ r"
  by (auto simp: cut_prefix_def has_prefix_def) (metis append_take_drop_id)

lemma cut_byte_Some:
  "cut_byte c s = Some (a, b) \<Longrightarrow> s = a @ c # b \<and> c \<notin> set a"
proof -
  assume h: "cut_byte c s = Some (a, b)"
  then have c: "c \<in> set s" and a: "a = takeWhile (\<lambda>x. x \<noteq> c) s"
    and b: "b = tl (dropWhile (\<lambda>x. x \<noteq> c) s)"
    by (auto simp: cut_byte_def split: if_splits)
  have ne: "dropWhile (\<lambda>x. x \<noteq> c) s \<noteq> []"
    using c by (simp add: dropWhile_eq_Nil_conv)
  then have "hd (dropWhile (\<lambda>x. x \<noteq> c) s) = c"
    using hd_dropWhile [OF ne] by simp
  with ne b have "dropWhile (\<lambda>x. x \<noteq> c) s = c # b"
    by (cases "dropWhile (\<lambda>x. x \<noteq> c) s") auto
  then have "s = a @ c # b"
    using a by (metis takeWhile_dropWhile_id)
  moreover have "c \<notin> set a"
    using a by (auto dest: set_takeWhileD)
  ultimately show ?thesis by simp
qed

lemma cut_byte_None: "cut_byte c s = None \<longleftrightarrow> c \<notin> set s"
  by (auto simp: cut_byte_def)

lemma split_byte_nonempty [simp]: "split_byte c s \<noteq> []"
  by (induction s) (auto split: list.splits)

lemma join_split [simp]: "join_byte c (split_byte c s) = s"
proof (induction s)
  case (Cons x s)
  show ?case
  proof (cases "split_byte c s")
    case (Cons l ls)
    then show ?thesis using Cons.IH by (cases ls) auto
  qed simp
qed simp

subsection \<open>White space\<close>

text \<open>
  \<^verbatim>\<open>strings.TrimSpace\<close> removes the white space runes of Unicode at both ends. The list holds
  their UTF-8 encodings. No encoding is a proper suffix or prefix of another, and a suffix of
  the string that is one of them is the last rune \<^verbatim>\<open>utf8.DecodeLastRune\<close> reads there.
\<close>

definition utf8_spaces :: "string list" where
  "utf8_spaces =
     [[CHR 0x09], [CHR 0x0A], [CHR 0x0B], [CHR 0x0C], [CHR 0x0D], [CHR 0x20],
      [CHR 0xC2, CHR 0x85], [CHR 0xC2, CHR 0xA0], [CHR 0xE1, CHR 0x9A, CHR 0x80],
      [CHR 0xE2, CHR 0x80, CHR 0x80], [CHR 0xE2, CHR 0x80, CHR 0x81],
      [CHR 0xE2, CHR 0x80, CHR 0x82], [CHR 0xE2, CHR 0x80, CHR 0x83],
      [CHR 0xE2, CHR 0x80, CHR 0x84], [CHR 0xE2, CHR 0x80, CHR 0x85],
      [CHR 0xE2, CHR 0x80, CHR 0x86], [CHR 0xE2, CHR 0x80, CHR 0x87],
      [CHR 0xE2, CHR 0x80, CHR 0x88], [CHR 0xE2, CHR 0x80, CHR 0x89],
      [CHR 0xE2, CHR 0x80, CHR 0x8A], [CHR 0xE2, CHR 0x80, CHR 0xA8],
      [CHR 0xE2, CHR 0x80, CHR 0xA9], [CHR 0xE2, CHR 0x80, CHR 0xAF],
      [CHR 0xE2, CHR 0x81, CHR 0x9F], [CHR 0xE3, CHR 0x80, CHR 0x80]]"

text \<open>Remove leading words of a list, as often as one of them is a prefix.\<close>

function strip_front :: "string list \<Rightarrow> string \<Rightarrow> string" where
  "strip_front ws s =
     (case find (\<lambda>w. w \<noteq> [] \<and> has_prefix s w) ws of
        None \<Rightarrow> s
      | Some w \<Rightarrow> strip_front ws (drop (length w) s))"
  by pat_completeness auto
termination
  by (relation "measure (\<lambda>(ws, s). length s)")
     (auto simp: find_Some_iff has_prefix_append)

declare strip_front.simps [simp del]

definition trim_left :: "string \<Rightarrow> string" where
  "trim_left s = strip_front utf8_spaces s"

definition trim_right :: "string \<Rightarrow> string" where
  "trim_right s = rev (strip_front (map rev utf8_spaces) (rev s))"

definition trim_space :: "string \<Rightarrow> string" where
  "trim_space s = trim_right (trim_left s)"

lemma strip_front_fixed:
  "find (\<lambda>w. w \<noteq> [] \<and> has_prefix (strip_front ws s) w) ws = None"
proof (induction ws s rule: strip_front.induct)
  case (1 ws s)
  show ?case
  proof (cases "find (\<lambda>w. w \<noteq> [] \<and> has_prefix s w) ws")
    case None
    then show ?thesis by (simp add: strip_front.simps [of ws s])
  next
    case (Some w)
    with "1.IH" [OF this] show ?thesis by (simp add: strip_front.simps [of ws s])
  qed
qed

lemma strip_front_id:
  "find (\<lambda>w. w \<noteq> [] \<and> has_prefix s w) ws = None \<Longrightarrow> strip_front ws s = s"
  by (simp add: strip_front.simps [of ws s])

lemma strip_front_suffix: "\<exists>p. s = p @ strip_front ws s"
proof (induction ws s rule: strip_front.induct)
  case (1 ws s)
  show ?case
  proof (cases "find (\<lambda>w. w \<noteq> [] \<and> has_prefix s w) ws")
    case None
    then show ?thesis by (simp add: strip_front.simps [of ws s])
  next
    case (Some w)
    then obtain p where "drop (length w) s = p @ strip_front ws (drop (length w) s)"
      using "1.IH" by blast
    then have "s = (take (length w) s @ p) @ strip_front ws (drop (length w) s)"
      by (metis append.assoc append_take_drop_id)
    moreover have "strip_front ws s = strip_front ws (drop (length w) s)"
      using Some by (simp add: strip_front.simps [of ws s])
    ultimately show ?thesis by metis
  qed
qed

lemma trim_right_prefix: "\<exists>r. s = trim_right s @ r"
proof -
  obtain p where "rev s = p @ strip_front (map rev utf8_spaces) (rev s)"
    using strip_front_suffix by blast
  then have "s = trim_right s @ rev p"
    by (metis rev_append rev_rev_ident trim_right_def)
  then show ?thesis by blast
qed

lemma strip_front_prefix_fixed:
  assumes "strip_front ws (a @ b) = a @ b"
  shows "strip_front ws a = a"
proof (rule strip_front_id)
  have "find (\<lambda>w. w \<noteq> [] \<and> has_prefix (a @ b) w) ws = None"
    using strip_front_fixed [of ws "a @ b"] assms by simp
  then show "find (\<lambda>w. w \<noteq> [] \<and> has_prefix a w) ws = None"
    by (auto simp: find_None_iff has_prefix_append)
qed

text \<open>Trimming twice is trimming once.\<close>

lemma trim_space_idem [simp]: "trim_space (trim_space s) = trim_space s"
proof -
  let ?l = "trim_left s"
  obtain r where r: "?l = trim_right ?l @ r"
    using trim_right_prefix by blast
  have "trim_left ?l = ?l"
    by (simp add: trim_left_def strip_front_id strip_front_fixed)
  then have "trim_left (trim_right ?l) = trim_right ?l"
    using r unfolding trim_left_def by (metis strip_front_prefix_fixed)
  moreover have "trim_right (trim_right ?l) = trim_right ?l"
    by (simp add: trim_right_def strip_front_id strip_front_fixed)
  ultimately show ?thesis by (simp add: trim_space_def)
qed

subsection \<open>Letter case\<close>

text \<open>
  \<^verbatim>\<open>strings.ToLower\<close> and \<^verbatim>\<open>strings.ToUpper\<close> map ASCII strings bytewise. On other strings
  they follow the Unicode tables, which are the parameters \<open>ul\<close> and \<open>uu\<close> of the functions
  below.
\<close>

definition is_ascii :: "string \<Rightarrow> bool" where
  "is_ascii s \<longleftrightarrow> list_all (\<lambda>c. of_char c < (128 :: nat)) s"

definition is_lower_alpha :: "char \<Rightarrow> bool" where
  "is_lower_alpha c \<longleftrightarrow> CHR ''a'' \<le> c \<and> c \<le> CHR ''z''"

definition is_upper_alpha :: "char \<Rightarrow> bool" where
  "is_upper_alpha c \<longleftrightarrow> CHR ''A'' \<le> c \<and> c \<le> CHR ''Z''"

definition lower_char :: "char \<Rightarrow> char" where
  "lower_char c = (if is_upper_alpha c then char_of (of_char c + 32 :: nat) else c)"

definition upper_char :: "char \<Rightarrow> char" where
  "upper_char c = (if is_lower_alpha c then char_of (of_char c - 32 :: nat) else c)"

definition to_lower :: "(string \<Rightarrow> string) \<Rightarrow> string \<Rightarrow> string" where
  "to_lower ul s = (if is_ascii s then map lower_char s else ul s)"

definition to_upper :: "(string \<Rightarrow> string) \<Rightarrow> string \<Rightarrow> string" where
  "to_upper uu s = (if is_ascii s then map upper_char s else uu s)"

lemmas alpha_defs = is_lower_alpha_def is_upper_alpha_def

lemma char_le_nat: "(c :: char) \<le> d \<longleftrightarrow> (of_char c :: nat) \<le> of_char d"
  by (simp add: less_eq_char_def)

lemma upper_char_upper:
  assumes "is_lower_alpha c"
  shows "is_upper_alpha (upper_char c)"
proof -
  have b: "97 \<le> (of_char c :: nat)" "(of_char c :: nat) \<le> 122"
    using assms by (simp_all add: is_lower_alpha_def char_le_nat)
  then have "(of_char (upper_char c) :: nat) = of_char c - 32"
    using assms by (simp add: upper_char_def)
  with b have "65 \<le> (of_char (upper_char c) :: nat)" "(of_char (upper_char c) :: nat) \<le> 90"
    by linarith+
  then show ?thesis by (simp add: is_upper_alpha_def char_le_nat)
qed

lemma upper_char_upper_id: "is_upper_alpha c \<Longrightarrow> upper_char c = c"
  by (auto simp: upper_char_def alpha_defs char_le_nat)

section \<open>Maps\<close>

text \<open>\<open>ks\<close> lists the keys of \<open>m\<close> in the order a \<^verbatim>\<open>range\<close> visits them.\<close>

definition range_order :: "'k list \<Rightarrow> ('k \<rightharpoonup> 'v) \<Rightarrow> bool" where
  "range_order ks m \<longleftrightarrow> distinct ks \<and> set ks = dom m"

lemma range_order_mem: "range_order ks m \<Longrightarrow> k \<in> set ks \<longleftrightarrow> (\<exists>v. m k = Some v)"
  by (auto simp: range_order_def)

lemma map_of_rev: "distinct (map fst es) \<Longrightarrow> map_of (rev es) = map_of es"
  by (subst map_of_inject_set) (simp_all add: rev_map [symmetric])

lemma sort_eq_Nil [simp]: "sort xs = [] \<longleftrightarrow> xs = []"
  by (metis set_empty set_sort)

section \<open>Errors\<close>

text \<open>
  Error values as \<^verbatim>\<open>errors.Is\<close> sees them: wrapping keeps the sentinel at the root of the chain,
  so a wrapped error is its root. \<open>ErrOther\<close> is an error of a library, with its message.
\<close>

datatype error =
    ErrPoolUnavailable
  | ErrPoolExhausted
  | ErrUnknownPool
  | ErrInvalidCountry
  | ErrSpawnTimeout
  | ErrSpawnFailed
  | ErrTunnelUnhealthy
  | ErrConfigInvalid
  | ErrBundleConfMissing
  | ErrNotFound
  | ErrFetchFailed
  | ErrOther string

section \<open>URLs\<close>

text \<open>
  The fields of \<^verbatim>\<open>url.URL\<close> the program reads. \<open>url_User\<close> is the user name and, when
  present, the password.
\<close>

record url =
  url_Scheme :: string
  url_Host :: string
  url_User :: "(string \<times> string option) option"

section \<open>Sorting\<close>

text \<open>\<^verbatim>\<open>sort.Slice\<close> by a key that is recovered from what the elements were built from.\<close>

lemma insort_key_map: "insort_key k (f x) (map f xs) = map f (insort_key (\<lambda>y. k (f y)) x xs)"
  by (induction xs) auto

lemma sort_key_map: "sort_key k (map f xs) = map f (sort_key (k \<circ> f) xs)"
  by (induction xs) (simp_all add: insort_key_map comp_def)

end
