(* ===== verification/Types.thy ===== *)
theory Types
  imports Go_Prelude
begin

text \<open>
  The data types shared by the components of the controller: tunnels, spawn requests, cell
  handles and acquisitions (\<^verbatim>\<open>types.go\<close>, \<^verbatim>\<open>pool.go\<close>), and the Prometheus collectors the pool and
  the reaper write (\<^verbatim>\<open>metrics.go\<close>).
\<close>

section \<open>Tunnels\<close>

datatype TunnelState =
    TunnelStateSpawning
  | TunnelStateHot
  | TunnelStateUnhealthy
  | TunnelStateReaping

text \<open>
  A \<^verbatim>\<open>*url.URL\<close> that may be nil is an option. The in-flight counter is a Go \<^verbatim>\<open>int\<close>; it is bounded
  by the number of open connections and is kept as an integer.
\<close>

record Tunnel =
  tun_ContainerID :: string
  tun_ConfName :: string
  tun_ProxyURL :: "url option"
  tun_GatewayAddr :: string
  tun_State :: TunnelState
  tun_Pool :: string
  tun_ExitCountry :: string
  tun_ExitIP :: string
  tun_SpawnedAt :: time
  tun_HealthyAt :: time
  tun_LastUsedAt :: time
  tun_LastURL :: string
  tun_LastURLExpiresAt :: time
  tun_InFlight :: int

text \<open>The zero value of \<^verbatim>\<open>time.Time\<close>: the first of January of the year 1, in Unix nanoseconds.\<close>

definition zero_time :: time where
  "zero_time = -62135596800 * second"

record CellHandle =
  ch_ContainerID :: string
  ch_Pool :: string
  ch_ConfName :: string
  ch_State :: string
  ch_ControlURL :: "url option"
  ch_CreatedAt :: time

record SpawnRequest =
  req_Pool :: string
  req_ConfName :: string
  req_ExitCountry :: string
  req_BundleDir :: string

record Acquisition =
  acq_Tunnel :: "Tunnel option"
  acq_Pool :: string

section \<open>Metrics\<close>

text \<open>
  A labelled collector is a function of its label values; the spawn-duration histogram keeps the
  list of its observations.
\<close>

record Metrics =
  TunnelHotGauge :: "string \<Rightarrow> nat"
  TunnelSpawnsTotal :: "string \<Rightarrow> string \<Rightarrow> nat"
  TunnelSpawnDuration :: "string \<Rightarrow> duration list"
  TunnelReapsTotal :: "string \<Rightarrow> string \<Rightarrow> nat"
  TunnelAcquireTotal :: "string \<Rightarrow> string \<Rightarrow> nat"

definition inc_label :: "('a \<Rightarrow> 'b \<Rightarrow> nat) \<Rightarrow> 'a \<Rightarrow> 'b \<Rightarrow> 'a \<Rightarrow> 'b \<Rightarrow> nat" where
  "inc_label c l l' = c(l := (c l)(l' := c l l' + 1))"

section \<open>The environment\<close>

text \<open>
  What the controller reads from its environment, as functions of a state \<open>'w\<close> of the world that
  every call may change: the clock, the pseudo random number behind \<^verbatim>\<open>rand.IntN\<close>, and the random
  bytes of \<^verbatim>\<open>crypto/rand\<close>. Reading the clock has no effect the program can observe but time passing.
\<close>

record 'w Env =
  env_Now :: "'w \<Rightarrow> time \<times> 'w"
  env_IntN :: "'w \<Rightarrow> nat \<times> 'w"
  env_RandRead :: "nat \<Rightarrow> 'w \<Rightarrow> (error + string) \<times> 'w"

end
