(* ===== verification/Pool_Specs.thy ===== *)
theory Pool_Specs
  imports Go_Prelude
begin

text \<open>
  Loading and validating \<^verbatim>\<open>pools.yaml\<close> against the WireGuard bundle: the first part of
  \<^verbatim>\<open>pool.go\<close> (\<^verbatim>\<open>LoadPoolSpecs\<close> and what it calls) and the country code test of
  \<^verbatim>\<open>api.go\<close>. File reading, directory listing and YAML decoding are parameters; decoded maps are
  the lists of their entries in visiting order.
\<close>

section \<open>Country codes\<close>

definition isASCIIAlpha :: "char \<Rightarrow> bool" where
  "isASCIIAlpha c \<longleftrightarrow>
     c \<ge> CHR ''a'' \<and> c \<le> CHR ''z'' \<or> c \<ge> CHR ''A'' \<and> c \<le> CHR ''Z''"

definition isCountryCode :: "string \<Rightarrow> bool" where
  "isCountryCode country =
     (let trimmed = trim_space country in
      if length trimmed \<noteq> 2 then False else list_all isASCIIAlpha trimmed)"

section \<open>The files\<close>

record poolEntry =
  pe_Region :: string
  pe_Purpose :: string
  pe_Configs :: "string list"
  pe_ExitCountries :: "(string \<times> string) list"
  pe_FallbackPool :: string

record poolsFile =
  pf_Pools :: "(string \<times> poolEntry) list"

record PoolSpec =
  spec_Name :: string
  spec_Region :: string
  spec_Purpose :: string
  spec_Configs :: "string list"
  spec_ExitCountries :: "string \<rightharpoonup> string"
  spec_FallbackPool :: string

record dirEntry =
  de_Name :: string
  de_IsDir :: bool

section \<open>Operations\<close>

definition readPoolsFile ::
  "(string \<Rightarrow> string option) \<Rightarrow> (string \<Rightarrow> poolsFile option) \<Rightarrow> string \<Rightarrow> error + poolsFile" where
  "readPoolsFile readFile unmarshal path =
     (case readFile path of
        None \<Rightarrow> Inl ErrConfigInvalid
      | Some raw \<Rightarrow>
        (case unmarshal raw of
           None \<Rightarrow> Inl ErrConfigInvalid
         | Some parsed \<Rightarrow>
             if pf_Pools parsed = [] then Inl ErrConfigInvalid else Inr parsed))"

fun bundle_names :: "dirEntry list \<Rightarrow> string set \<Rightarrow> string set" where
  "bundle_names [] out = out"
| "bundle_names (e # es) out =
     (if de_IsDir e then bundle_names es out
      else if \<not> has_suffix (de_Name e) ''.conf'' then bundle_names es out
      else bundle_names es (insert (trim_suffix (de_Name e) ''.conf'') out))"

definition readBundle :: "(string \<Rightarrow> dirEntry list option) \<Rightarrow> string \<Rightarrow> error + string set" where
  "readBundle readDir bundleDir =
     (case readDir bundleDir of
        None \<Rightarrow> Inl ErrConfigInvalid
      | Some entries \<Rightarrow> Inr (bundle_names entries {}))"

fun normalize_exits ::
  "(string \<Rightarrow> string) \<Rightarrow> string set \<Rightarrow> (string \<times> string) list \<Rightarrow> (string \<rightharpoonup> string)
   \<Rightarrow> error + (string \<rightharpoonup> string)" where
  "normalize_exits uu knownConfigs [] normalized = Inr normalized"
| "normalize_exits uu knownConfigs ((configName, exitCountry) # es) normalized =
     (if configName \<notin> knownConfigs then Inl ErrConfigInvalid
      else
        let country = to_upper uu (trim_space exitCountry) in
        if \<not> isCountryCode country then Inl ErrConfigInvalid
        else normalize_exits uu knownConfigs es (normalized(configName \<mapsto> country)))"

definition normalizeExitCountries ::
  "(string \<Rightarrow> string) \<Rightarrow> string list \<Rightarrow> (string \<times> string) list \<Rightarrow> error + (string \<rightharpoonup> string)" where
  "normalizeExitCountries uu configs exitCountries =
     (if exitCountries = [] then Inr Map.empty
      else normalize_exits uu (set configs) exitCountries Map.empty)"

fun buildSpecs ::
  "(string \<Rightarrow> string) \<Rightarrow> string set \<Rightarrow> (string \<times> poolEntry) list
   \<Rightarrow> (string \<rightharpoonup> PoolSpec) \<Rightarrow> string set \<Rightarrow> error + (string \<rightharpoonup> PoolSpec) \<times> string set" where
  "buildSpecs uu bundle [] specs known = Inr (specs, known)"
| "buildSpecs uu bundle ((name, entry) # es) specs known =
     (if pe_Configs entry = [] then Inl ErrConfigInvalid
      else if list_ex (\<lambda>conf. conf \<notin> bundle) (pe_Configs entry) then Inl ErrBundleConfMissing
      else
        let configs = sort (pe_Configs entry) in
        (case normalizeExitCountries uu configs (pe_ExitCountries entry) of
           Inl e \<Rightarrow> Inl e
         | Inr exitCountries \<Rightarrow>
             buildSpecs uu bundle es
               (specs(name \<mapsto>
                  \<lparr>spec_Name = name,
                   spec_Region = pe_Region entry,
                   spec_Purpose = pe_Purpose entry,
                   spec_Configs = configs,
                   spec_ExitCountries = exitCountries,
                   spec_FallbackPool = pe_FallbackPool entry\<rparr>))
               (insert name known)))"

fun validateFallbacks :: "(string \<rightharpoonup> PoolSpec) \<Rightarrow> string list \<Rightarrow> error option" where
  "validateFallbacks specs [] = None"
| "validateFallbacks specs (name # order) =
     (case specs name of
        None \<Rightarrow> validateFallbacks specs order
      | Some spec \<Rightarrow>
          if spec_FallbackPool spec = '''' then validateFallbacks specs order
          else if specs (spec_FallbackPool spec) = None then Some ErrConfigInvalid
          else validateFallbacks specs order)"

definition LoadPoolSpecs ::
  "(string \<Rightarrow> string) \<Rightarrow> (string \<Rightarrow> string option) \<Rightarrow> (string \<Rightarrow> poolsFile option)
   \<Rightarrow> (string \<Rightarrow> dirEntry list option) \<Rightarrow> string \<Rightarrow> string
   \<Rightarrow> error + (string \<rightharpoonup> PoolSpec) \<times> string set" where
  "LoadPoolSpecs uu readFile unmarshal readDir path bundleDir =
     (case readPoolsFile readFile unmarshal path of
        Inl e \<Rightarrow> Inl e
      | Inr parsed \<Rightarrow>
        (case readBundle readDir bundleDir of
           Inl e \<Rightarrow> Inl e
         | Inr bundle \<Rightarrow>
           (case buildSpecs uu bundle (pf_Pools parsed) Map.empty {} of
              Inl e \<Rightarrow> Inl e
            | Inr (specs, known) \<Rightarrow>
              (case validateFallbacks specs (map fst (pf_Pools parsed)) of
                 Some e \<Rightarrow> Inl e
               | None \<Rightarrow> Inr (specs, known)))))"

section \<open>Country codes: lemmas\<close>

lemma isASCIIAlpha_alt: "isASCIIAlpha c \<longleftrightarrow> is_lower_alpha c \<or> is_upper_alpha c"
  by (auto simp: isASCIIAlpha_def alpha_defs)

lemma upper_char_not_lower: "\<not> is_lower_alpha (upper_char c)"
proof (cases "is_lower_alpha c")
  case True
  from upper_char_upper [OF this] show ?thesis
    by (auto simp: alpha_defs char_le_nat)
next
  case False
  then show ?thesis by (simp add: upper_char_def)
qed

lemma upper_char_eq_nonalpha: "\<not> is_upper_alpha (upper_char c) \<Longrightarrow> c = upper_char c"
  using upper_char_upper [of c] by (auto simp: upper_char_def split: if_splits)

lemma has_prefix_map_upper:
  "list_all (\<lambda>x. \<not> is_upper_alpha x) w \<Longrightarrow> has_prefix (map upper_char s) w \<Longrightarrow> has_prefix s w"
proof (induction w arbitrary: s)
  case Nil
  then show ?case by (simp add: has_prefix_def)
next
  case (Cons x w)
  then show ?case
    by (cases s) (auto simp: has_prefix_def dest: upper_char_eq_nonalpha)
qed

lemma strip_front_map_upper:
  assumes "list_all (list_all (\<lambda>x. \<not> is_upper_alpha x)) ws"
    and "strip_front ws s = s"
  shows "strip_front ws (map upper_char s) = map upper_char s"
proof (rule strip_front_id)
  have "find (\<lambda>w. w \<noteq> [] \<and> has_prefix s w) ws = None"
    using strip_front_fixed [of ws s] assms(2) by simp
  then show "find (\<lambda>w. w \<noteq> [] \<and> has_prefix (map upper_char s) w) ws = None"
    using assms(1) has_prefix_map_upper by (fastforce simp: find_None_iff list_all_iff)
qed

lemma spaces_nonalpha: "list_all (list_all (\<lambda>x. \<not> is_upper_alpha x)) utf8_spaces"
  by code_simp

lemma spaces_rev_nonalpha: "list_all (list_all (\<lambda>x. \<not> is_upper_alpha x)) (map rev utf8_spaces)"
  by code_simp

lemma trim_space_fixed_left: "trim_left (trim_space s) = trim_space s"
proof -
  obtain r where "trim_left s = trim_space s @ r"
    using trim_right_prefix [of "trim_left s"] by (auto simp: trim_space_def)
  moreover have "strip_front utf8_spaces (trim_left s) = trim_left s"
    by (simp add: trim_left_def strip_front_id strip_front_fixed)
  ultimately show ?thesis
    unfolding trim_left_def by (metis strip_front_prefix_fixed)
qed

lemma trim_space_map_upper [simp]:
  "trim_space (map upper_char (trim_space s)) = map upper_char (trim_space s)"
proof -
  let ?t = "trim_space s"
  have "strip_front utf8_spaces (map upper_char ?t) = map upper_char ?t"
    using strip_front_map_upper [OF spaces_nonalpha] trim_space_fixed_left
    by (simp add: trim_left_def)
  moreover have "strip_front (map rev utf8_spaces) (rev ?t) = rev ?t"
    by (simp add: trim_space_def trim_right_def strip_front_id strip_front_fixed)
  then have "strip_front (map rev utf8_spaces) (map upper_char (rev ?t)) = map upper_char (rev ?t)"
    by (rule strip_front_map_upper [OF spaces_rev_nonalpha])
  ultimately show ?thesis
    by (simp add: trim_space_def trim_left_def trim_right_def rev_map)
qed

text \<open>
  What the code relies on of \<^verbatim>\<open>unicode.ToUpper\<close> on non-ASCII strings: it leaves no ASCII lower
  case letter and creates no white space at the ends of a trimmed string.
\<close>

definition upper_table :: "(string \<Rightarrow> string) \<Rightarrow> bool" where
  "upper_table uu \<longleftrightarrow>
     (\<forall>s. \<not> is_ascii s \<longrightarrow>
        list_all (\<lambda>c. \<not> is_lower_alpha c) (uu s)
        \<and> trim_space (uu (trim_space s)) = uu (trim_space s))"

lemma upper_table_bytewise: "upper_table (map upper_char)"
  by (auto simp: upper_table_def list_all_iff upper_char_not_lower)

lemma is_ascii_trim: "is_ascii s \<Longrightarrow> is_ascii (trim_space s)"
proof -
  assume a: "is_ascii s"
  obtain p where "s = p @ trim_left s"
    using strip_front_suffix unfolding trim_left_def by blast
  moreover obtain r where "trim_left s = trim_space s @ r"
    using trim_right_prefix [of "trim_left s"] by (auto simp: trim_space_def)
  ultimately have "s = p @ trim_space s @ r" by simp
  with a have "is_ascii (p @ trim_space s @ r)" by simp
  then show ?thesis by (simp add: is_ascii_def)
qed

definition upper_code :: "string \<Rightarrow> bool" where
  "upper_code cc \<longleftrightarrow> length cc = 2 \<and> list_all is_upper_alpha cc"

lemma normalized_country:
  assumes "upper_table uu" and "isCountryCode (to_upper uu (trim_space x))"
  shows "upper_code (to_upper uu (trim_space x))"
proof -
  let ?c = "to_upper uu (trim_space x)"
  have low: "list_all (\<lambda>c. \<not> is_lower_alpha c) ?c"
    using assms(1) by (auto simp: to_upper_def list_all_iff upper_char_not_lower upper_table_def)
  have "trim_space ?c = ?c"
  proof (cases "is_ascii (trim_space x)")
    case True
    then show ?thesis by (simp add: to_upper_def)
  next
    case False
    then have "\<not> is_ascii x" using is_ascii_trim by blast
    with assms(1) False show ?thesis by (simp add: to_upper_def upper_table_def)
  qed
  with assms(2) low show ?thesis
    by (auto simp: isCountryCode_def upper_code_def Let_def list_all_iff isASCIIAlpha_alt
        split: if_splits)
qed

section \<open>Lemmas on the loader\<close>

lemma normalize_exits_Inr:
  "normalize_exits uu known es acc = Inr m \<longleftrightarrow>
     (\<forall>(c, x) \<in> set es. c \<in> known \<and> isCountryCode (to_upper uu (trim_space x)))
     \<and> m = acc ++ map_of (rev (map (\<lambda>(c, x). (c, to_upper uu (trim_space x))) es))"
proof (induction es arbitrary: acc)
  case (Cons e es)
  then show ?case by (cases e) (auto simp: Let_def simp del: fun_upd_apply)
qed auto

lemma normalizeExitCountries_Inr:
  "normalizeExitCountries uu configs es = Inr m \<longleftrightarrow>
     (\<forall>(c, x) \<in> set es. c \<in> set configs \<and> isCountryCode (to_upper uu (trim_space x)))
     \<and> m = map_of (rev (map (\<lambda>(c, x). (c, to_upper uu (trim_space x))) es))"
  by (auto simp: normalizeExitCountries_def normalize_exits_Inr)

lemma normalizeExitCountries_wf:
  assumes "upper_table uu" and "normalizeExitCountries uu configs es = Inr m"
    and "m c = Some cc"
  shows "c \<in> set configs \<and> upper_code cc"
proof -
  from assms(2,3) obtain x where "(c, x) \<in> set es" "cc = to_upper uu (trim_space x)"
    by (auto simp: normalizeExitCountries_Inr dest!: map_of_SomeD)
  with assms(1,2) show ?thesis
    by (auto simp: normalizeExitCountries_Inr intro: normalized_country)
qed

text \<open>The specification record one entry becomes, and when an entry is acceptable.\<close>

definition entry_exits :: "(string \<Rightarrow> string) \<Rightarrow> poolEntry \<Rightarrow> string \<rightharpoonup> string" where
  "entry_exits uu entry =
     map_of (rev (map (\<lambda>(c, x). (c, to_upper uu (trim_space x))) (pe_ExitCountries entry)))"

definition spec_of :: "(string \<Rightarrow> string) \<Rightarrow> string \<Rightarrow> poolEntry \<Rightarrow> PoolSpec" where
  "spec_of uu name entry =
     \<lparr>spec_Name = name, spec_Region = pe_Region entry, spec_Purpose = pe_Purpose entry,
      spec_Configs = sort (pe_Configs entry), spec_ExitCountries = entry_exits uu entry,
      spec_FallbackPool = pe_FallbackPool entry\<rparr>"

lemma spec_of_fallback [simp]: "spec_FallbackPool (spec_of uu n entry) = pe_FallbackPool entry"
  by (simp add: spec_of_def)

definition entry_ok :: "(string \<Rightarrow> string) \<Rightarrow> string set \<Rightarrow> poolEntry \<Rightarrow> bool" where
  "entry_ok uu bundle entry \<longleftrightarrow>
     pe_Configs entry \<noteq> [] \<and> set (pe_Configs entry) \<subseteq> bundle
     \<and> (\<forall>(c, x) \<in> set (pe_ExitCountries entry).
          c \<in> set (pe_Configs entry) \<and> isCountryCode (to_upper uu (trim_space x)))"

lemma buildSpecs_Inr:
  "buildSpecs uu bundle es specs known = Inr (specs', known') \<longleftrightarrow>
     (\<forall>(n, entry) \<in> set es. entry_ok uu bundle entry)
     \<and> specs' = specs ++ map_of (rev (map (\<lambda>(n, entry). (n, spec_of uu n entry)) es))
     \<and> known' = known \<union> fst ` set es"
proof (induction es arbitrary: specs known)
  case Nil
  then show ?case by auto
next
  case (Cons e es)
  obtain n entry where e: "e = (n, entry)" by (cases e)
  show ?case
  proof (cases "entry_ok uu bundle entry")
    case True
    then have "normalizeExitCountries uu (sort (pe_Configs entry)) (pe_ExitCountries entry)
        = Inr (entry_exits uu entry)"
      by (auto simp: normalizeExitCountries_Inr entry_ok_def entry_exits_def)
    moreover have "pe_Configs entry \<noteq> []" "\<not> list_ex (\<lambda>c. c \<notin> bundle) (pe_Configs entry)"
      using True by (auto simp: entry_ok_def list_ex_iff)
    ultimately show ?thesis
      using True by (auto simp: e Cons.IH spec_of_def [symmetric] Let_def simp del: fun_upd_apply)
  next
    case False
    show ?thesis
    proof (cases "normalizeExitCountries uu (sort (pe_Configs entry)) (pe_ExitCountries entry)")
      case (Inr m)
      with False have "pe_Configs entry = [] \<or> list_ex (\<lambda>c. c \<notin> bundle) (pe_Configs entry)"
        by (auto simp: normalizeExitCountries_Inr entry_ok_def list_ex_iff)
      with False show ?thesis by (auto simp: e)
    qed (use False in \<open>auto simp: e\<close>)
  qed
qed

lemma validateFallbacks_None:
  "validateFallbacks specs order = None \<longleftrightarrow>
     (\<forall>n \<in> set order. \<forall>sp. specs n = Some sp \<longrightarrow>
        spec_FallbackPool sp = '''' \<or> spec_FallbackPool sp \<in> dom specs)"
  by (induction order) (auto split: option.splits)

lemma bundle_names_eq:
  "bundle_names es out =
     out \<union> {trim_suffix (de_Name e) ''.conf'' | e.
             e \<in> set es \<and> \<not> de_IsDir e \<and> has_suffix (de_Name e) ''.conf''}"
  by (induction es arbitrary: out) auto

lemma LoadPoolSpecs_Inr:
  "LoadPoolSpecs uu readFile unmarshal readDir path dir = Inr (specs, known) \<longleftrightarrow>
     (\<exists>parsed bundle.
        readPoolsFile readFile unmarshal path = Inr parsed
        \<and> readBundle readDir dir = Inr bundle
        \<and> (\<forall>(n, entry) \<in> set (pf_Pools parsed). entry_ok uu bundle entry)
        \<and> specs = map_of (rev (map (\<lambda>(n, entry). (n, spec_of uu n entry)) (pf_Pools parsed)))
        \<and> known = fst ` set (pf_Pools parsed)
        \<and> (\<forall>n sp. specs n = Some sp \<longrightarrow>
              spec_FallbackPool sp = '''' \<or> spec_FallbackPool sp \<in> dom specs))"
proof -
  have fallbacks: "specs = map_of (rev (map (\<lambda>(n, entry). (n, spec_of uu n entry)) es)) \<longrightarrow>
      (validateFallbacks specs (map fst es) = None \<longleftrightarrow>
      (\<forall>n sp. specs n = Some sp \<longrightarrow>
         spec_FallbackPool sp = '''' \<or> spec_FallbackPool sp \<in> dom specs))" for es
  proof
    assume m: "specs = map_of (rev (map (\<lambda>(n, entry). (n, spec_of uu n entry)) es))"
    have "n \<in> set (map fst es)" if "specs n = Some sp" for n sp
      using that m by (force dest!: map_of_SomeD)
    then show "validateFallbacks specs (map fst es) = None \<longleftrightarrow>
      (\<forall>n sp. specs n = Some sp \<longrightarrow>
         spec_FallbackPool sp = '''' \<or> spec_FallbackPool sp \<in> dom specs)"
      unfolding validateFallbacks_None by blast
  qed
  have "LoadPoolSpecs uu readFile unmarshal readDir path dir = Inr (specs, known) \<longleftrightarrow>
     (\<exists>parsed bundle.
        readPoolsFile readFile unmarshal path = Inr parsed
        \<and> readBundle readDir dir = Inr bundle
        \<and> buildSpecs uu bundle (pf_Pools parsed) Map.empty {} = Inr (specs, known)
        \<and> validateFallbacks specs (map fst (pf_Pools parsed)) = None)"
    unfolding LoadPoolSpecs_def by (auto split: sum.splits option.splits prod.splits)
  moreover have "(buildSpecs uu b es Map.empty {} = Inr (specs, known)
       \<and> validateFallbacks specs (map fst es) = None) \<longleftrightarrow>
     (\<forall>(n, entry) \<in> set es. entry_ok uu b entry)
     \<and> specs = map_of (rev (map (\<lambda>(n, entry). (n, spec_of uu n entry)) es))
     \<and> known = fst ` set es
     \<and> (\<forall>n sp. specs n = Some sp \<longrightarrow>
           spec_FallbackPool sp = '''' \<or> spec_FallbackPool sp \<in> dom specs)" for b es
    using fallbacks [of es] unfolding buildSpecs_Inr empty_map_add Un_empty_left by argo
  ultimately show ?thesis by (simp only: conj_assoc)
qed

section \<open>Properties\<close>

definition spec_wf :: "(string \<rightharpoonup> PoolSpec) \<Rightarrow> string set \<Rightarrow> string \<Rightarrow> PoolSpec \<Rightarrow> bool" where
  "spec_wf specs bundle n sp \<longleftrightarrow>
     spec_Name sp = n \<and> spec_Configs sp \<noteq> [] \<and> sorted (spec_Configs sp)
     \<and> set (spec_Configs sp) \<subseteq> bundle
     \<and> (\<forall>c cc. spec_ExitCountries sp c = Some cc \<longrightarrow> c \<in> set (spec_Configs sp) \<and> upper_code cc)
     \<and> (spec_FallbackPool sp = '''' \<or> spec_FallbackPool sp \<in> dom specs)"

lemma spec_of_wf:
  assumes "upper_table uu" and "entry_ok uu bundle entry"
    and "pe_FallbackPool entry = '''' \<or> pe_FallbackPool entry \<in> dom specs"
  shows "spec_wf specs bundle n (spec_of uu n entry)"
proof -
  have "normalizeExitCountries uu (sort (pe_Configs entry)) (pe_ExitCountries entry)
      = Inr (entry_exits uu entry)"
    using assms(2) by (auto simp: normalizeExitCountries_Inr entry_ok_def entry_exits_def)
  from normalizeExitCountries_wf [OF assms(1) this] assms(2,3) show ?thesis
    by (auto simp: spec_wf_def spec_of_def entry_ok_def)
qed

lemma LoadPoolSpecs_wf:
  assumes "upper_table uu"
    and "LoadPoolSpecs uu readFile unmarshal readDir path dir = Inr (specs, known)"
    and "readBundle readDir dir = Inr bundle" and "specs n = Some sp"
  shows "spec_wf specs bundle n sp"
proof -
  from assms(2) obtain parsed :: poolsFile and b where rb: "readBundle readDir dir = Inr b"
    and okb: "\<forall>(n, entry) \<in> set (pf_Pools parsed). entry_ok uu b entry"
    and sp: "specs = map_of (rev (map (\<lambda>(n, entry). (n, spec_of uu n entry)) (pf_Pools parsed)))"
    unfolding LoadPoolSpecs_Inr by blast
  have ok: "\<forall>(n, entry) \<in> set (pf_Pools parsed). entry_ok uu bundle entry"
    using rb okb assms(3) by simp
  from sp assms(4) obtain entry where "(n, entry) \<in> set (pf_Pools parsed)"
    and "sp = spec_of uu n entry"
    by (auto dest!: map_of_SomeD)
  with ok have "sp = spec_of uu n entry" and "entry_ok uu bundle entry"
    by auto
  moreover have "spec_FallbackPool sp = '''' \<or> spec_FallbackPool sp \<in> dom specs"
    using assms(2,4) by (auto simp: LoadPoolSpecs_Inr)
  ultimately show ?thesis
    using spec_of_wf [OF assms(1), of "bundle" entry specs n] by (simp add: spec_of_def)
qed

lemma LoadPoolSpecs_known:
  assumes "LoadPoolSpecs uu readFile unmarshal readDir path dir = Inr (specs, known)"
  shows "known = dom specs"
proof -
  from assms obtain parsed :: poolsFile where
    "specs = map_of (rev (map (\<lambda>(n, entry). (n, spec_of uu n entry)) (pf_Pools parsed)))"
    "known = fst ` set (pf_Pools parsed)"
    unfolding LoadPoolSpecs_Inr by blast
  then show ?thesis
    by (simp add: dom_map_of_conv_image_fst image_image case_prod_unfold)
qed

text \<open>every pool specification the loader hands to the manager is well formed: it carries its
  own name, a non-empty sorted list of configurations that all exist in the bundle, exit countries
  only for its own configurations and only as two upper-case letters, and a fallback that is empty
  or a pool of the same file; the set of known pools is exactly the set of specified pools.\<close>

theorem pool_specs_sound:
  assumes "upper_table uu"
    and "LoadPoolSpecs uu readFile unmarshal readDir path dir = Inr (specs, known)"
    and "readBundle readDir dir = Inr bundle"
  shows "known = dom specs \<and> (\<forall>n sp. specs n = Some sp \<longrightarrow> spec_wf specs bundle n sp)"
  using LoadPoolSpecs_wf [OF assms] LoadPoolSpecs_known [OF assms(2)] by blast

definition demo_pools :: poolsFile where
  "demo_pools =
     \<lparr>pf_Pools =
        [(''us'', \<lparr>pe_Region = ''na'', pe_Purpose = ''egress'', pe_Configs = [''us-b'', ''us-a''],
                   pe_ExitCountries = [(''us-a'', '' us '')], pe_FallbackPool = ''eu''\<rparr>),
         (''eu'', \<lparr>pe_Region = ''eu'', pe_Purpose = ''egress'', pe_Configs = [''de-x''],
                   pe_ExitCountries = [], pe_FallbackPool = ''''\<rparr>)]\<rparr>"

definition demo_bundle :: "dirEntry list" where
  "demo_bundle =
     [\<lparr>de_Name = ''us-a.conf'', de_IsDir = False\<rparr>, \<lparr>de_Name = ''us-b.conf'', de_IsDir = False\<rparr>,
      \<lparr>de_Name = ''de-x.conf'', de_IsDir = False\<rparr>, \<lparr>de_Name = ''notes.txt'', de_IsDir = False\<rparr>]"

lemma demo_bundle_names: "bundle_names demo_bundle {} = {''us-a'', ''us-b'', ''de-x''}"
  by (auto simp: demo_bundle_def has_suffix_def has_prefix_def trim_suffix_def)

lemma demo_country: "isCountryCode (to_upper (map upper_char) (trim_space '' us ''))"
  by code_simp

definition demo_specs :: "string \<rightharpoonup> PoolSpec" where
  "demo_specs =
     map_of (rev (map (\<lambda>(n, entry). (n, spec_of (map upper_char) n entry)) (pf_Pools demo_pools)))"

lemma demo_specs_load:
  "LoadPoolSpecs (map upper_char) (\<lambda>_. Some ''yaml'') (\<lambda>_. Some demo_pools) (\<lambda>_. Some demo_bundle)
     ''pools.yaml'' ''wireguard'' = Inr (demo_specs, {''us'', ''eu''})"
proof -
  have 1: "readPoolsFile (\<lambda>_. Some ''yaml'') (\<lambda>_. Some demo_pools) ''pools.yaml'' = Inr demo_pools"
    by (simp add: readPoolsFile_def demo_pools_def)
  have 2: "readBundle (\<lambda>_. Some demo_bundle) ''wireguard'' = Inr {''us-a'', ''us-b'', ''de-x''}"
    by (simp add: readBundle_def demo_bundle_names)
  have 3: "\<forall>(n, entry) \<in> set (pf_Pools demo_pools).
      entry_ok (map upper_char) {''us-a'', ''us-b'', ''de-x''} entry"
    using demo_country by (simp add: demo_pools_def entry_ok_def)
  have 4: "\<forall>n sp. demo_specs n = Some sp \<longrightarrow>
      spec_FallbackPool sp = '''' \<or> spec_FallbackPool sp \<in> dom demo_specs"
    by (auto simp: demo_specs_def demo_pools_def spec_of_def split: if_splits)
  have 5: "fst ` set (pf_Pools demo_pools) = {''us'', ''eu''}"
    by (simp add: demo_pools_def)
  show ?thesis
    unfolding LoadPoolSpecs_Inr
    by (intro exI conjI, rule 1, rule 2, rule 3, rule demo_specs_def, rule 5 [symmetric], rule 4)
qed

theorem pool_specs_sound_witness:
  "LoadPoolSpecs (map upper_char) (\<lambda>_. Some ''yaml'') (\<lambda>_. Some demo_pools) (\<lambda>_. Some demo_bundle)
     ''pools.yaml'' ''wireguard'' = Inr (demo_specs, {''us'', ''eu''})
   \<and> {''us'', ''eu''} = dom demo_specs
   \<and> spec_wf demo_specs {''us-a'', ''us-b'', ''de-x''} ''us'' (the (demo_specs ''us''))"
proof -
  have b: "readBundle (\<lambda>_. Some demo_bundle) ''wireguard'' = Inr {''us-a'', ''us-b'', ''de-x''}"
    by (simp add: readBundle_def demo_bundle_names)
  note s = pool_specs_sound [OF upper_table_bytewise demo_specs_load b]
  have "\<exists>sp. demo_specs ''us'' = Some sp"
    using s by blast
  with s demo_specs_load show ?thesis by auto
qed

text \<open>the loader accepts exactly the valid files: it succeeds if and only if the file and the
  bundle directory can be read, the file has a pool, every pool has configurations and all of them
  are in the bundle, every exit country is a two-letter code for a configuration of its own pool,
  and every fallback names a pool of the file.\<close>

theorem pool_specs_accepts_iff:
  assumes "\<And>p. readPoolsFile readFile unmarshal path = Inr p \<Longrightarrow> distinct (map fst (pf_Pools p))"
  shows "(\<exists>r. LoadPoolSpecs uu readFile unmarshal readDir path dir = Inr r) \<longleftrightarrow>
     (\<exists>parsed bundle.
        readPoolsFile readFile unmarshal path = Inr parsed
        \<and> readBundle readDir dir = Inr bundle
        \<and> pf_Pools parsed \<noteq> []
        \<and> (\<forall>(n, entry) \<in> set (pf_Pools parsed).
              entry_ok uu bundle entry
              \<and> (pe_FallbackPool entry = '''' \<or> pe_FallbackPool entry \<in> fst ` set (pf_Pools parsed))))"
proof -
  have key: "(\<forall>n sp. map_of (rev (map (\<lambda>(n, entry). (n, spec_of uu n entry)) es)) n = Some sp \<longrightarrow>
         spec_FallbackPool sp = '''' \<or>
         spec_FallbackPool sp \<in> dom (map_of (rev (map (\<lambda>(n, entry). (n, spec_of uu n entry)) es))))
       \<longleftrightarrow> (\<forall>(n, entry) \<in> set es. pe_FallbackPool entry = '''' \<or> pe_FallbackPool entry \<in> fst ` set es)"
    (is "?L \<longleftrightarrow> _") if d: "distinct (map fst es)" for es
  proof -
    let ?m = "map (\<lambda>(n, entry). (n, spec_of uu n entry)) es"
    have fst_m: "map fst ?m = map fst es"
      by (simp add: case_prod_unfold)
    then have m1: "map_of (rev ?m) = map_of ?m"
      using d by (intro map_of_rev) (simp only: fst_m)
    have m2: "map_of ?m n = Some sp \<longleftrightarrow> (\<exists>entry. (n, entry) \<in> set es \<and> sp = spec_of uu n entry)"
      for n sp
      using d fst_m by (auto simp only: map_of_eq_Some_iff) (auto simp: image_iff split: prod.splits)
    have m3: "dom (map_of ?m) = fst ` set es"
      by (simp add: dom_map_of_conv_image_fst image_image case_prod_unfold)
    have "?L \<longleftrightarrow> (\<forall>n sp. (\<exists>entry. (n, entry) \<in> set es \<and> sp = spec_of uu n entry) \<longrightarrow>
         spec_FallbackPool sp = '''' \<or> spec_FallbackPool sp \<in> fst ` set es)"
      unfolding m1 m2 m3 ..
    also have "\<dots> \<longleftrightarrow> (\<forall>n entry. (n, entry) \<in> set es \<longrightarrow>
         spec_FallbackPool (spec_of uu n entry) = '''' \<or>
         spec_FallbackPool (spec_of uu n entry) \<in> fst ` set es)"
      by blast
    finally show ?thesis by (simp add: Ball_def)
  qed
  have ne: "pf_Pools p \<noteq> []" if "readPoolsFile readFile unmarshal path = Inr p" for p
    using that by (auto simp: readPoolsFile_def split: option.splits if_splits)
  have "(\<exists>r. LoadPoolSpecs uu readFile unmarshal readDir path dir = Inr r) \<longleftrightarrow>
     (\<exists>specs known. LoadPoolSpecs uu readFile unmarshal readDir path dir = Inr (specs, known))"
    by simp
  also have "\<dots> \<longleftrightarrow> (\<exists>parsed bundle.
        readPoolsFile readFile unmarshal path = Inr parsed
        \<and> readBundle readDir dir = Inr bundle
        \<and> (\<forall>(n, entry) \<in> set (pf_Pools parsed). entry_ok uu bundle entry)
        \<and> (\<forall>(n, entry) \<in> set (pf_Pools parsed).
              pe_FallbackPool entry = '''' \<or> pe_FallbackPool entry \<in> fst ` set (pf_Pools parsed)))"
    unfolding LoadPoolSpecs_Inr using assms key by (auto 4 0)
  also have "\<dots> \<longleftrightarrow> (\<exists>parsed bundle.
        readPoolsFile readFile unmarshal path = Inr parsed
        \<and> readBundle readDir dir = Inr bundle
        \<and> pf_Pools parsed \<noteq> []
        \<and> (\<forall>(n, entry) \<in> set (pf_Pools parsed).
              entry_ok uu bundle entry
              \<and> (pe_FallbackPool entry = '''' \<or> pe_FallbackPool entry \<in> fst ` set (pf_Pools parsed))))"
    using ne by fast
  finally show ?thesis .
qed

theorem pool_specs_accepts_iff_witness:
  "(\<exists>r. LoadPoolSpecs (map upper_char) (\<lambda>_. Some ''yaml'') (\<lambda>_. Some demo_pools)
      (\<lambda>_. Some demo_bundle) ''pools.yaml'' ''wireguard'' = Inr r)
   \<and> \<not> (\<exists>r. LoadPoolSpecs (map upper_char) (\<lambda>_. Some ''yaml'') (\<lambda>_. Some demo_pools)
      (\<lambda>_. None) ''pools.yaml'' ''wireguard'' = Inr r)"
proof -
  have d: "distinct (map fst (pf_Pools p))"
    if "readPoolsFile (\<lambda>_. Some ''yaml'') (\<lambda>_. Some demo_pools) ''pools.yaml'' = Inr p" for p
    using that by (auto simp: readPoolsFile_def demo_pools_def)
  have "\<not> (\<exists>r. LoadPoolSpecs (map upper_char) (\<lambda>_. Some ''yaml'') (\<lambda>_. Some demo_pools)
      (\<lambda>_. None) ''pools.yaml'' ''wireguard'' = Inr r)"
    using pool_specs_accepts_iff [OF d, where uu = "map upper_char" and readDir = "\<lambda>_. None"
      and dir = "''wireguard''"]
    by (simp add: readBundle_def)
  then show ?thesis using demo_specs_load by blast
qed

end
