(* ===== verification/Pool.thy ===== *)
theory Pool
  imports Types Pool_Specs
begin

text \<open>
  The runtime state of one pool (\<^verbatim>\<open>PoolState\<close> in \<^verbatim>\<open>pool.go\<close>): the tunnel slot with its in-flight
  counter and the cache of recently failed configurations. Every operation is the body of one
  critical section of the pool's mutex.

  The locale \<open>reservation\<close> is the contract between the pool and the callers that hold a cell
  for the duration of an exchange; both ways to reserve a cell satisfy it.
\<close>

section \<open>The state and its operations\<close>

text \<open>
  The failure cache is a Go map; it is an association list whose keys are distinct. The
  operations on it do not depend on the order of the entries.
\<close>

record PoolState =
  ps_Spec :: PoolSpec
  ps_tunnel :: "Tunnel option"
  ps_failed :: "(string \<times> time) list"

definition NewPoolState :: "PoolSpec \<Rightarrow> PoolState" where
  "NewPoolState spec = \<lparr> ps_Spec = spec, ps_tunnel = None, ps_failed = [] \<rparr>"

definition Snapshot :: "PoolState \<Rightarrow> Tunnel option" where
  "Snapshot p = ps_tunnel p"

definition cleanFailedLocked :: "time \<Rightarrow> duration \<Rightarrow> PoolState \<Rightarrow> PoolState" where
  "cleanFailedLocked now ttl p =
     p\<lparr> ps_failed := filter (\<lambda>(conf, at). \<not> time_sub now at > ttl) (ps_failed p) \<rparr>"

text \<open>
  \<^verbatim>\<open>rand.IntN(n)\<close> is a number below \<open>n\<close>; it is \<open>r mod n\<close> for the parameter \<open>r\<close>, which ranges over
  all numbers.
\<close>

definition pickConf ::
  "nat \<Rightarrow> time \<Rightarrow> string set \<Rightarrow> duration \<Rightarrow> PoolState \<Rightarrow> (error + string) \<times> PoolState" where
  "pickConf r now exclude ttl p =
     (let p = cleanFailedLocked now ttl p;
          candidates = filter (\<lambda>conf. map_of (ps_failed p) conf = None \<and> conf \<notin> exclude)
                         (spec_Configs (ps_Spec p))
      in if length candidates = 0 then (Inl ErrPoolExhausted, p)
         else (Inr (candidates ! (r mod length candidates)), p))"

definition markFailed :: "string \<Rightarrow> time \<Rightarrow> PoolState \<Rightarrow> PoolState" where
  "markFailed conf now p = p\<lparr> ps_failed := AList.update conf now (ps_failed p) \<rparr>"

definition RecentlyFailedCount :: "time \<Rightarrow> duration \<Rightarrow> PoolState \<Rightarrow> nat \<times> PoolState" where
  "RecentlyFailedCount now ttl p =
     (let p = cleanFailedLocked now ttl p in (length (ps_failed p), p))"

definition setTunnel :: "Tunnel option \<Rightarrow> Metrics \<Rightarrow> PoolState \<Rightarrow> PoolState \<times> Metrics" where
  "setTunnel t m p =
     (let hot = (if t \<noteq> None then 1 else 0)
      in (p\<lparr> ps_tunnel := t \<rparr>,
          m\<lparr> TunnelHotGauge := (TunnelHotGauge m)(spec_Name (ps_Spec p) := hot) \<rparr>))"

definition sameURL :: "url \<Rightarrow> url \<Rightarrow> bool" where
  "sameURL a b \<longleftrightarrow> url_Scheme a = url_Scheme b \<and> url_Host a = url_Host b"

definition acquire :: "url option \<Rightarrow> time \<Rightarrow> PoolState \<Rightarrow> (error + Tunnel) \<times> PoolState" where
  "acquire excludeProxy now p =
     (case ps_tunnel p of
        None \<Rightarrow> (Inl ErrPoolUnavailable, p)
      | Some t \<Rightarrow>
          if tun_State t \<noteq> TunnelStateHot then (Inl ErrPoolUnavailable, p)
          else if (case (excludeProxy, tun_ProxyURL t) of
                     (Some x, Some u) \<Rightarrow> sameURL u x
                   | _ \<Rightarrow> False)
          then (Inl ErrPoolExhausted, p)
          else (let t = t\<lparr> tun_InFlight := tun_InFlight t + 1, tun_LastUsedAt := now \<rparr>
                in (Inr t, p\<lparr> ps_tunnel := Some t \<rparr>)))"

definition release :: "PoolState \<Rightarrow> PoolState" where
  "release p =
     (case ps_tunnel p of
        None \<Rightarrow> p
      | Some t \<Rightarrow>
          if tun_InFlight t \<le> 0 then p
          else p\<lparr> ps_tunnel := Some (t\<lparr> tun_InFlight := tun_InFlight t - 1 \<rparr>) \<rparr>)"

definition acquireContainer ::
  "string \<Rightarrow> time \<Rightarrow> PoolState \<Rightarrow> (error + Tunnel) \<times> PoolState" where
  "acquireContainer containerID now p =
     (case ps_tunnel p of
        None \<Rightarrow> (Inl ErrPoolUnavailable, p)
      | Some t \<Rightarrow>
          if tun_State t \<noteq> TunnelStateHot \<or> tun_ContainerID t \<noteq> containerID
          then (Inl ErrPoolUnavailable, p)
          else (let t = t\<lparr> tun_InFlight := tun_InFlight t + 1, tun_LastUsedAt := now \<rparr>
                in (Inr t, p\<lparr> ps_tunnel := Some t \<rparr>)))"

definition setLastURL :: "string \<Rightarrow> string \<Rightarrow> time \<Rightarrow> PoolState \<Rightarrow> PoolState" where
  "setLastURL containerID v expiresAt p =
     (case ps_tunnel p of
        None \<Rightarrow> p
      | Some t \<Rightarrow>
          if tun_ContainerID t \<noteq> containerID then p
          else p\<lparr> ps_tunnel := Some (t\<lparr> tun_LastURL := v, tun_LastURLExpiresAt := expiresAt \<rparr>) \<rparr>)"

text \<open>
  The confs an excluded proxy bans from a respawn (\<^verbatim>\<open>excludeConfsFor\<close>): the configuration of the
  pool's current tunnel, when that tunnel is the excluded proxy.
\<close>

definition excludeConfsFor :: "url option \<Rightarrow> PoolState \<Rightarrow> string set" where
  "excludeConfsFor excludeProxy p =
     (case excludeProxy of
        None \<Rightarrow> {}
      | Some x \<Rightarrow>
          (case Snapshot p of
             None \<Rightarrow> {}
           | Some t \<Rightarrow>
               (case tun_ProxyURL t of
                  None \<Rightarrow> {}
                | Some u \<Rightarrow> if sameURL u x then {tun_ConfName t} else {})))"

lemmas pool_op_defs [pool_defs] =
  NewPoolState_def Snapshot_def cleanFailedLocked_def pickConf_def markFailed_def
  RecentlyFailedCount_def setTunnel_def acquire_def release_def acquireContainer_def setLastURL_def

section \<open>The failure cache\<close>

definition failed_within :: "time \<Rightarrow> duration \<Rightarrow> PoolState \<Rightarrow> string \<Rightarrow> bool" where
  "failed_within now ttl p conf \<longleftrightarrow>
     (\<exists>at. map_of (ps_failed p) conf = Some at \<and> time_sub now at \<le> ttl)"

lemma map_of_filter_snd:
  "distinct (map fst xs) \<Longrightarrow>
   map_of (filter (\<lambda>(k, v). P v) xs) k =
     (case map_of xs k of None \<Rightarrow> None | Some v \<Rightarrow> if P v then Some v else None)"
  by (induction xs) (auto split: option.splits simp: map_of_eq_None_iff image_iff)

lemma cleanFailedLocked_simps [simp]:
  "ps_Spec (cleanFailedLocked now ttl p) = ps_Spec p"
  "ps_tunnel (cleanFailedLocked now ttl p) = ps_tunnel p"
  by (simp_all add: cleanFailedLocked_def)

lemma cleanFailedLocked_banned:
  assumes "distinct (map fst (ps_failed p))"
  shows "map_of (ps_failed (cleanFailedLocked now ttl p)) conf = None \<longleftrightarrow>
    \<not> failed_within now ttl p conf"
  using assms
  by (cases "map_of (ps_failed p) conf")
     (simp_all add: cleanFailedLocked_def failed_within_def map_of_filter_snd
        not_le del: map_of_eq_Some_iff)

lemma cleanFailedLocked_distinct [intro]:
  "distinct (map fst (ps_failed p)) \<Longrightarrow> distinct (map fst (ps_failed (cleanFailedLocked now ttl p)))"
  by (simp add: cleanFailedLocked_def distinct_map_filter)

lemma pickConf_state: "snd (pickConf r now exclude ttl p) = cleanFailedLocked now ttl p"
  by (simp add: pickConf_def Let_def)

definition candidate :: "time \<Rightarrow> string set \<Rightarrow> duration \<Rightarrow> PoolState \<Rightarrow> string \<Rightarrow> bool" where
  "candidate now exclude ttl p conf \<longleftrightarrow>
     conf \<in> set (spec_Configs (ps_Spec p)) \<and> conf \<notin> exclude \<and> \<not> failed_within now ttl p conf"

lemma pickConf_result:
  assumes "distinct (map fst (ps_failed p))"
  shows "fst (pickConf r now exclude ttl p) = Inl e \<longleftrightarrow>
      e = ErrPoolExhausted \<and> (\<forall>conf. \<not> candidate now exclude ttl p conf)"
    and "fst (pickConf r now exclude ttl p) = Inr conf \<Longrightarrow> candidate now exclude ttl p conf"
    and "candidate now exclude ttl p conf \<Longrightarrow> \<exists>r. fst (pickConf r now exclude ttl p) = Inr conf"
proof -
  define cs where "cs = filter (\<lambda>conf. map_of (ps_failed (cleanFailedLocked now ttl p)) conf = None \<and>
    conf \<notin> exclude) (spec_Configs (ps_Spec p))"
  have mem: "candidate now exclude ttl p c \<longleftrightarrow> c \<in> set cs" for c
    using cleanFailedLocked_banned [OF assms] by (auto simp: candidate_def cs_def)
  have res: "fst (pickConf r now exclude ttl p) =
      (if cs = [] then Inl ErrPoolExhausted else Inr (cs ! (r mod length cs)))" for r
    by (simp add: pickConf_def Let_def cs_def)
  show "fst (pickConf r now exclude ttl p) = Inl e \<longleftrightarrow>
      e = ErrPoolExhausted \<and> (\<forall>conf. \<not> candidate now exclude ttl p conf)"
    unfolding res mem by (cases cs) auto
  show "candidate now exclude ttl p conf" if "fst (pickConf r now exclude ttl p) = Inr conf"
    using that unfolding res mem by (auto split: if_splits)
  show "\<exists>r. fst (pickConf r now exclude ttl p) = Inr conf" if c: "candidate now exclude ttl p conf"
  proof -
    obtain i where "i < length cs" "cs ! i = conf"
      using c unfolding mem by (auto simp: in_set_conv_nth)
    then have "fst (pickConf i now exclude ttl p) = Inr conf"
      unfolding res by auto
    then show ?thesis ..
  qed
qed

text \<open>A configuration that failed is not picked before its entry has expired.\<close>

lemma failed_within_markFailed:
  "failed_within now ttl (markFailed conf at p) c \<longleftrightarrow>
     (if c = conf then time_sub now at \<le> ttl else failed_within now ttl p c)"
  by (auto simp: failed_within_def markFailed_def update_conv')

lemma markFailed_simps [simp]:
  "ps_Spec (markFailed conf now p) = ps_Spec p"
  "ps_tunnel (markFailed conf now p) = ps_tunnel p"
  by (simp_all add: markFailed_def)

lemma markFailed_distinct [intro]:
  "distinct (map fst (ps_failed p)) \<Longrightarrow> distinct (map fst (ps_failed (markFailed conf now p)))"
  by (simp add: markFailed_def distinct_update)

section \<open>The invariant of a pool\<close>

text \<open>The failure cache is a map, and the in-flight counter of the tunnel is not negative.\<close>

definition pool_wf :: "PoolState \<Rightarrow> bool" where
  "pool_wf p \<longleftrightarrow>
     distinct (map fst (ps_failed p))
     \<and> (case ps_tunnel p of None \<Rightarrow> True | Some t \<Rightarrow> 0 \<le> tun_InFlight t)"

lemma NewPoolState_wf [simp]: "pool_wf (NewPoolState spec)"
  by (simp add: pool_wf_def NewPoolState_def)

lemma cleanFailedLocked_wf [intro]: "pool_wf p \<Longrightarrow> pool_wf (cleanFailedLocked now ttl p)"
  by (auto simp: pool_wf_def)

lemma pickConf_wf: "pool_wf p \<Longrightarrow> pool_wf (snd (pickConf r now exclude ttl p))"
  by (auto simp: pickConf_state)

lemma markFailed_wf [intro]: "pool_wf p \<Longrightarrow> pool_wf (markFailed conf now p)"
  by (auto simp: pool_wf_def)

lemma setTunnel_wf:
  "pool_wf p \<Longrightarrow> (\<And>t'. t = Some t' \<Longrightarrow> 0 \<le> tun_InFlight t') \<Longrightarrow> pool_wf (fst (setTunnel t m p))"
  by (auto simp: pool_wf_def setTunnel_def split: option.splits)

lemma release_wf [intro]: "pool_wf p \<Longrightarrow> pool_wf (release p)"
  by (auto simp: pool_wf_def release_def split: option.splits)

lemma setLastURL_wf [intro]: "pool_wf p \<Longrightarrow> pool_wf (setLastURL c v e p)"
  by (auto simp: pool_wf_def setLastURL_def split: option.splits)

lemma release_simps [simp]:
  "ps_Spec (release p) = ps_Spec p"
  "ps_failed (release p) = ps_failed p"
  by (simp_all add: release_def split: option.splits)

lemma setLastURL_simps [simp]:
  "ps_Spec (setLastURL c v e p) = ps_Spec p"
  "ps_failed (setLastURL c v e p) = ps_failed p"
  by (simp_all add: setLastURL_def split: option.splits)

section \<open>Reserving a cell\<close>

text \<open>What a reservation does to the tunnel it reserves.\<close>

definition reserved :: "time \<Rightarrow> Tunnel \<Rightarrow> Tunnel" where
  "reserved now t = t\<lparr> tun_InFlight := tun_InFlight t + 1, tun_LastUsedAt := now \<rparr>"

lemma reserved_simps [simp]:
  "tun_InFlight (reserved now t) = tun_InFlight t + 1"
  "tun_LastUsedAt (reserved now t) = now"
  "tun_State (reserved now t) = tun_State t"
  "tun_ContainerID (reserved now t) = tun_ContainerID t"
  "tun_ConfName (reserved now t) = tun_ConfName t"
  "tun_ProxyURL (reserved now t) = tun_ProxyURL t"
  "tun_GatewayAddr (reserved now t) = tun_GatewayAddr t"
  "tun_Pool (reserved now t) = tun_Pool t"
  by (simp_all add: reserved_def)

text \<open>
  The contract of a way to reserve a cell: it takes the hot tunnel if and only if the tunnel is
  admitted, counts the reservation, and otherwise leaves the pool as it is.
\<close>

locale reservation =
  fixes reserve :: "time \<Rightarrow> PoolState \<Rightarrow> (error + Tunnel) \<times> PoolState"
    and admits :: "Tunnel \<Rightarrow> bool"
  assumes reserve_admitted:
      "ps_tunnel p = Some t \<Longrightarrow> tun_State t = TunnelStateHot \<Longrightarrow> admits t \<Longrightarrow>
       reserve now p = (Inr (reserved now t), p\<lparr> ps_tunnel := Some (reserved now t) \<rparr>)"
    and reserve_refused:
      "(\<And>t. ps_tunnel p = Some t \<Longrightarrow> tun_State t = TunnelStateHot \<Longrightarrow> \<not> admits t) \<Longrightarrow>
       \<exists>e \<in> {ErrPoolUnavailable, ErrPoolExhausted}. reserve now p = (Inl e, p)"
begin

lemma reserve_cases:
  obtains (reserved) t0 where "ps_tunnel p = Some t0" "tun_State t0 = TunnelStateHot" "admits t0"
      "reserve now p = (Inr (reserved now t0), p\<lparr> ps_tunnel := Some (reserved now t0) \<rparr>)"
  | (refused) e where "reserve now p = (Inl e, p)" "e \<in> {ErrPoolUnavailable, ErrPoolExhausted}"
      "\<And>t. ps_tunnel p = Some t \<Longrightarrow> tun_State t = TunnelStateHot \<Longrightarrow> \<not> admits t"
  using reserve_admitted reserve_refused by metis

lemma reserve_Inr:
  "reserve now p = (Inr t, p') \<longleftrightarrow>
     (\<exists>t0. ps_tunnel p = Some t0 \<and> tun_State t0 = TunnelStateHot \<and> admits t0
        \<and> t = reserved now t0 \<and> p' = p\<lparr> ps_tunnel := Some t \<rparr>)"
  by (cases rule: reserve_cases [of p now]) auto

lemma reserve_Inl:
  "reserve now p = (Inl e, p') \<Longrightarrow> p' = p \<and> (e = ErrPoolUnavailable \<or> e = ErrPoolExhausted)"
  by (cases rule: reserve_cases [of p now]) auto

lemma reserve_simps:
  "ps_Spec (snd (reserve now p)) = ps_Spec p"
  "ps_failed (snd (reserve now p)) = ps_failed p"
  by (cases rule: reserve_cases [of p now]; simp)+

lemma reserve_wf: "pool_wf p \<Longrightarrow> pool_wf (snd (reserve now p))"
  by (cases rule: reserve_cases [of p now]) (simp_all add: pool_wf_def)

text \<open>Releasing a reservation restores the pool but for the time of the last use.\<close>

lemma reserve_release:
  assumes "pool_wf p" "reserve now p = (Inr t, p')"
  shows "release p' = p\<lparr> ps_tunnel := map_option (\<lambda>t. t\<lparr> tun_LastUsedAt := now \<rparr>) (ps_tunnel p) \<rparr>"
  using assms by (auto simp: reserve_Inr release_def pool_wf_def reserved_def)

end

definition not_excluded :: "url option \<Rightarrow> Tunnel \<Rightarrow> bool" where
  "not_excluded excludeProxy t \<longleftrightarrow>
     \<not> (\<exists>x u. excludeProxy = Some x \<and> tun_ProxyURL t = Some u \<and> sameURL u x)"

interpretation acq: reservation "acquire excludeProxy" "not_excluded excludeProxy"
  for excludeProxy
  by unfold_locales
     (auto simp: acquire_def not_excluded_def reserved_def Let_def split: option.splits)

interpretation acqc: reservation "acquireContainer containerID" "\<lambda>t. tun_ContainerID t = containerID"
  for containerID
  by unfold_locales (auto simp: acquireContainer_def reserved_def Let_def split: option.splits)

section \<open>Sequences of operations on one tunnel\<close>

text \<open>
  The critical sections that leave the tunnel slot occupied by the same cell, in any order and by
  any number of callers.
\<close>

datatype pool_op =
    Acquire "url option" time
  | AcquireContainer string time
  | Release
  | SetLastURL string string time
  | MarkFailedConf string time
  | PickConf nat time "string set" duration
  | CountFailed time duration

fun pool_step :: "pool_op \<Rightarrow> PoolState \<Rightarrow> PoolState" where
  "pool_step (Acquire x now) p = snd (acquire x now p)"
| "pool_step (AcquireContainer c now) p = snd (acquireContainer c now p)"
| "pool_step Release p = release p"
| "pool_step (SetLastURL c v e) p = setLastURL c v e p"
| "pool_step (MarkFailedConf conf now) p = markFailed conf now p"
| "pool_step (PickConf r now ex ttl) p = snd (pickConf r now ex ttl p)"
| "pool_step (CountFailed now ttl) p = snd (RecentlyFailedCount now ttl p)"

text \<open>How an operation changes the number of callers that hold a reservation.\<close>

fun holders_delta :: "pool_op \<Rightarrow> PoolState \<Rightarrow> int" where
  "holders_delta (Acquire x now) p = (case fst (acquire x now p) of Inl _ \<Rightarrow> 0 | Inr _ \<Rightarrow> 1)"
| "holders_delta (AcquireContainer c now) p =
     (case fst (acquireContainer c now p) of Inl _ \<Rightarrow> 0 | Inr _ \<Rightarrow> 1)"
| "holders_delta Release p = -1"
| "holders_delta _ p = 0"

text \<open>
  \<open>pool_runs ops k p k' p'\<close>: the operations lead from \<open>p\<close> with \<open>k\<close> holders to \<open>p'\<close> with \<open>k'\<close>
  holders, and only a holder releases.
\<close>

inductive pool_runs :: "pool_op list \<Rightarrow> int \<Rightarrow> PoolState \<Rightarrow> int \<Rightarrow> PoolState \<Rightarrow> bool" where
  pool_runs_Nil: "pool_runs [] k p k p"
| pool_runs_Cons: "\<lbrakk> op = Release \<Longrightarrow> 0 < k;
     pool_runs ops (k + holders_delta op p) (pool_step op p) k' p' \<rbrakk>
     \<Longrightarrow> pool_runs (op # ops) k p k' p'"

inductive_simps pool_runs_simps: "pool_runs [] k p k' p'" "pool_runs (op # ops) k p k' p'"

lemma pool_step_wf: "pool_wf p \<Longrightarrow> pool_wf (pool_step op p)"
  by (cases op) (auto simp: RecentlyFailedCount_def Let_def acq.reserve_wf acqc.reserve_wf pickConf_wf)

lemma pool_step_tunnel:
  assumes "ps_tunnel p = Some t" "tun_InFlight t = k" "op = Release \<Longrightarrow> 0 < k"
  shows "\<exists>t'. ps_tunnel (pool_step op p) = Some t' \<and> tun_InFlight t' = k + holders_delta op p
     \<and> tun_ContainerID t' = tun_ContainerID t \<and> tun_State t' = tun_State t"
proof (cases op)
  case (Acquire x now)
  then show ?thesis using assms by (cases rule: acq.reserve_cases [of p x now]) auto
next
  case (AcquireContainer c now)
  then show ?thesis using assms by (cases rule: acqc.reserve_cases [of p c now]) auto
qed (use assms in \<open>auto simp: release_def setLastURL_def pickConf_state RecentlyFailedCount_def Let_def\<close>)

text \<open>C6: the configuration chosen for a respawn is always one of the pool's configurations that is
  neither excluded by the caller nor in the failure cache within its lifetime; every such
  configuration can be chosen; and the pool is exhausted exactly when there is none.\<close>

theorem pickConf_correct:
  assumes "pool_wf p"
  shows "{conf. \<exists>r. fst (pickConf r now exclude ttl p) = Inr conf} =
      {conf \<in> set (spec_Configs (ps_Spec p)). conf \<notin> exclude \<and> \<not> failed_within now ttl p conf}
    \<and> (fst (pickConf r now exclude ttl p) = Inl e \<longleftrightarrow>
      e = ErrPoolExhausted
      \<and> {conf \<in> set (spec_Configs (ps_Spec p)). conf \<notin> exclude \<and> \<not> failed_within now ttl p conf} = {})"
proof -
  have d: "distinct (map fst (ps_failed p))"
    using assms by (simp add: pool_wf_def)
  have "{conf. \<exists>r. fst (pickConf r now exclude ttl p) = Inr conf} =
      {conf \<in> set (spec_Configs (ps_Spec p)). conf \<notin> exclude \<and> \<not> failed_within now ttl p conf}"
    using pickConf_result(2,3) [OF d] unfolding candidate_def by blast
  moreover have "fst (pickConf r now exclude ttl p) = Inl e \<longleftrightarrow>
      e = ErrPoolExhausted
      \<and> {conf \<in> set (spec_Configs (ps_Spec p)). conf \<notin> exclude \<and> \<not> failed_within now ttl p conf} = {}"
    unfolding pickConf_result(1) [OF d] by (auto simp: candidate_def)
  ultimately show ?thesis ..
qed

definition demo_pool :: PoolState where
  "demo_pool =
     \<lparr> ps_Spec = \<lparr> spec_Name = ''eu'', spec_Region = ''europe'', spec_Purpose = '''',
                  spec_Configs = [''de-x'', ''fr-y'', ''nl-z''], spec_ExitCountries = Map.empty,
                  spec_FallbackPool = '''' \<rparr>,
       ps_tunnel = None, ps_failed = [(''de-x'', 100)] \<rparr>"

lemma demo_pool_wf: "pool_wf demo_pool"
  by (simp add: pool_wf_def demo_pool_def)

theorem pickConf_correct_witness:
  "{conf. \<exists>r. fst (pickConf r 105 {''fr-y''} 10 demo_pool) = Inr conf} = {''nl-z''}
   \<and> fst (pickConf 3 105 {''fr-y'', ''nl-z''} 10 demo_pool) = Inl ErrPoolExhausted"
proof -
  have f: "failed_within 105 10 demo_pool c \<longleftrightarrow> c = ''de-x''" for c
    by (auto simp: failed_within_def demo_pool_def duration_defs)
  have c: "set (spec_Configs (ps_Spec demo_pool)) = {''de-x'', ''fr-y'', ''nl-z''}"
    by (simp add: demo_pool_def)
  show ?thesis
    using pickConf_correct [OF demo_pool_wf, of 105 "{''fr-y''}" 10 3 ErrPoolExhausted]
      pickConf_correct [OF demo_pool_wf, of 105 "{''fr-y'', ''nl-z''}" 10 3 ErrPoolExhausted]
    unfolding f c by auto
qed

text \<open>after a configuration failed it rests: no pick within the lifetime of its entry in the
  failure cache returns it, and once the entry has expired it can be picked again.\<close>

theorem failed_conf_rests:
  assumes "pool_wf p"
  shows "(time_sub now at \<le> ttl \<longrightarrow>
      fst (pickConf r now exclude ttl (markFailed conf at p)) \<noteq> Inr conf)
    \<and> (ttl < time_sub now at \<and> conf \<in> set (spec_Configs (ps_Spec p)) \<and> conf \<notin> exclude \<longrightarrow>
      (\<exists>r. fst (pickConf r now exclude ttl (markFailed conf at p)) = Inr conf))"
proof -
  have "distinct (map fst (ps_failed (markFailed conf at p)))"
    using assms by (auto simp: pool_wf_def)
  then show ?thesis
    using pickConf_result(2) [of "markFailed conf at p" r now exclude ttl conf]
      pickConf_result(3) [of "markFailed conf at p" now exclude ttl conf]
    by (auto simp: candidate_def failed_within_markFailed)
qed

theorem failed_conf_rests_witness:
  "fst (pickConf 4 200 {} 50 (markFailed ''nl-z'' 160 demo_pool)) \<noteq> Inr ''nl-z''
   \<and> (\<exists>r. fst (pickConf r 300 {} 50 (markFailed ''nl-z'' 160 demo_pool)) = Inr ''nl-z'')"
  using failed_conf_rests [OF demo_pool_wf, of 200 160 50 4 "{}" "''nl-z''"]
    failed_conf_rests [OF demo_pool_wf, of 300 160 50 4 "{}" "''nl-z''"]
  by (simp add: duration_defs demo_pool_def)


definition demo_tunnel :: Tunnel where
  "demo_tunnel =
     \<lparr> tun_ContainerID = ''c1'', tun_ConfName = ''fr-y'',
       tun_ProxyURL = Some \<lparr> url_Scheme = ''socks5'', url_Host = ''10.0.0.2:1080'', url_User = None \<rparr>,
       tun_GatewayAddr = ''10.0.0.2:1080'', tun_State = TunnelStateHot, tun_Pool = ''eu'',
       tun_ExitCountry = ''FR'', tun_ExitIP = '''', tun_SpawnedAt = 100, tun_HealthyAt = 100,
       tun_LastUsedAt = 100, tun_LastURL = '''', tun_LastURLExpiresAt = zero_time, tun_InFlight = 0 \<rparr>"


end
