(* ===== verification/Url.thy ===== *)
theory Url
  imports Go_Prelude
begin

text \<open>
  The functions of \<^verbatim>\<open>net/url\<close> the program uses: \<^verbatim>\<open>URL.String\<close> for a URL with a scheme, a host and
  user information, \<^verbatim>\<open>Parse\<close> and \<^verbatim>\<open>ParseRequestURI\<close> as far as the program reads their result
  (scheme, host, user information, and whether there was an error), and \<^verbatim>\<open>URL.Port\<close>. The reading
  of a bracketed IP literal is the parameter \<open>lit\<close> of the parser. The main result is that parsing
  a printed proxy URL gives it back.
\<close>

section \<open>Percent encoding\<close>

datatype encoding = EncodePath | EncodeUserPassword | EncodeHost

definition is_digit :: "char \<Rightarrow> bool" where
  "is_digit c \<longleftrightarrow> CHR ''0'' \<le> c \<and> c \<le> CHR ''9''"

definition is_alnum :: "char \<Rightarrow> bool" where
  "is_alnum c \<longleftrightarrow> is_lower_alpha c \<or> is_upper_alpha c \<or> is_digit c"

definition shouldEscape :: "encoding \<Rightarrow> char \<Rightarrow> bool" where
  "shouldEscape mode c =
     (if is_alnum c then False
      else if mode = EncodeHost \<and> c \<in> set ''!$&()*+,;=:[]<>'' \<union> {CHR 0x22, CHR 0x27} then False
      else if c \<in> set ''-_.~'' then False
      else if c \<in> set ''$&+,/:;=?@''
      then (case mode of
              EncodePath \<Rightarrow> c = CHR ''?''
            | EncodeUserPassword \<Rightarrow> c \<in> set ''@/?:''
            | EncodeHost \<Rightarrow> True)
      else True)"

definition hex_digit :: "nat \<Rightarrow> char" where
  "hex_digit n = ''0123456789ABCDEF'' ! n"

definition ishex :: "char \<Rightarrow> bool" where
  "ishex c \<longleftrightarrow> is_digit c \<or> (CHR ''a'' \<le> c \<and> c \<le> CHR ''f'') \<or> (CHR ''A'' \<le> c \<and> c \<le> CHR ''F'')"

definition unhex :: "char \<Rightarrow> nat" where
  "unhex c =
     (if is_digit c then of_char c - 48
      else if CHR ''a'' \<le> c \<and> c \<le> CHR ''f'' then of_char c - 97 + 10
      else if CHR ''A'' \<le> c \<and> c \<le> CHR ''F'' then of_char c - 65 + 10
      else 0)"

definition escape_char :: "encoding \<Rightarrow> char \<Rightarrow> string" where
  "escape_char mode c =
     (if shouldEscape mode c
      then [CHR ''%'', hex_digit (of_char c div 16), hex_digit (of_char c mod 16)]
      else [c])"

definition escape :: "encoding \<Rightarrow> string \<Rightarrow> string" where
  "escape mode s = concat (map (escape_char mode) s)"

fun unescape :: "encoding \<Rightarrow> string \<Rightarrow> string option" where
  "unescape mode [] = Some []"
| "unescape mode (c # s) =
     (if c = CHR ''%''
      then (case s of
              a # b # s' \<Rightarrow>
                if \<not> ishex a \<or> \<not> ishex b then None
                else if mode = EncodeHost \<and> unhex a < 8 \<and> [c, a, b] \<noteq> ''%25'' then None
                else map_option ((#) (char_of (16 * unhex a + unhex b))) (unescape mode s')
            | _ \<Rightarrow> None)
      else if mode = EncodeHost \<and> of_char c < (128 :: nat) \<and> shouldEscape mode c then None
      else map_option ((#) c) (unescape mode s))"

section \<open>Printing and parsing\<close>

text \<open>\<^verbatim>\<open>URL.String\<close> of a URL that has a scheme and a host and no path.\<close>

definition url_String :: "url \<Rightarrow> string" where
  "url_String u =
     url_Scheme u @ ''://'' @
     (case url_User u of
        None \<Rightarrow> []
      | Some (name, None) \<Rightarrow> escape EncodeUserPassword name @ ''@''
      | Some (name, Some pass) \<Rightarrow>
          escape EncodeUserPassword name @ '':'' @ escape EncodeUserPassword pass @ ''@'') @
     escape EncodeHost (url_Host u)"

fun getScheme :: "string \<Rightarrow> string \<Rightarrow> (string \<times> string) option" where
  "getScheme acc [] = Some ([], rev acc)"
| "getScheme acc (c # s) =
     (if is_lower_alpha c \<or> is_upper_alpha c then getScheme (c # acc) s
      else if is_digit c \<or> c \<in> set ''+-.''
      then (if acc = [] then Some ([], c # s) else getScheme (c # acc) s)
      else if c = CHR '':'' then (if acc = [] then None else Some (rev acc, s))
      else Some ([], rev acc @ c # s))"

definition validOptionalPort :: "string \<Rightarrow> bool" where
  "validOptionalPort port \<longleftrightarrow>
     (case port of [] \<Rightarrow> True | c # s \<Rightarrow> c = CHR '':'' \<and> list_all is_digit s)"

definition validUserinfo :: "string \<Rightarrow> bool" where
  "validUserinfo s \<longleftrightarrow>
     list_all (\<lambda>c. is_alnum c \<or> c \<in> set ''-._:~!$&()*+,;=%@'' \<or> c = CHR 0x27) s"

text \<open>The part of a string before and after the last occurrence of a byte.\<close>

definition cut_last :: "char \<Rightarrow> string \<Rightarrow> (string \<times> string) option" where
  "cut_last c s = map_option (\<lambda>(b, a). (rev a, rev b)) (cut_byte c (rev s))"

definition parseHost :: "(string \<Rightarrow> string option) \<Rightarrow> string \<Rightarrow> string option" where
  "parseHost lit host =
     (if has_prefix host ''['' then lit host
      else case cut_byte CHR '':'' host of
             Some (_, port) \<Rightarrow>
               if \<not> validOptionalPort (CHR '':'' # port) then None else unescape EncodeHost host
           | None \<Rightarrow> unescape EncodeHost host)"

definition parseUserinfo :: "string \<Rightarrow> (string \<times> string option) option" where
  "parseUserinfo s =
     (if \<not> validUserinfo s then None
      else case cut_byte CHR '':'' s of
             None \<Rightarrow> map_option (\<lambda>n. (n, None)) (unescape EncodeUserPassword s)
           | Some (n, p) \<Rightarrow>
               (case (unescape EncodeUserPassword n, unescape EncodeUserPassword p) of
                  (Some n, Some p) \<Rightarrow> Some (n, Some p)
                | _ \<Rightarrow> None))"

definition parseAuthority ::
  "(string \<Rightarrow> string option) \<Rightarrow> string \<Rightarrow> ((string \<times> string option) option \<times> string) option" where
  "parseAuthority lit authority =
     (case cut_last CHR ''@'' authority of
        None \<Rightarrow> map_option (\<lambda>h. (None, h)) (parseHost lit authority)
      | Some (ui, host) \<Rightarrow>
          (case parseHost lit host of
             None \<Rightarrow> None
           | Some h \<Rightarrow> map_option (\<lambda>u. (Some u, h)) (parseUserinfo ui)))"

definition is_ctl :: "char \<Rightarrow> bool" where
  "is_ctl c \<longleftrightarrow> of_char c < (32 :: nat) \<or> of_char c = (127 :: nat)"

text \<open>
  \<^verbatim>\<open>url.parse\<close>; \<open>viaRequest\<close> is true for \<^verbatim>\<open>ParseRequestURI\<close>, which does not split off a fragment.
  In \<^verbatim>\<open>Parse\<close> a relative reference is accepted; the program refuses it because its scheme is empty.
\<close>

definition url_parse :: "(string \<Rightarrow> string option) \<Rightarrow> bool \<Rightarrow> string \<Rightarrow> url option" where
  "url_parse lit viaRequest raw =
     (if list_ex is_ctl raw then None
      else if raw = [] \<and> viaRequest then None
      else if raw = ''*'' then Some \<lparr> url_Scheme = [], url_Host = [], url_User = None \<rparr>
      else case getScheme [] raw of
        None \<Rightarrow> None
      | Some (scheme, rest) \<Rightarrow>
          let scheme = map lower_char scheme;
              rest = (case cut_byte CHR ''?'' rest of None \<Rightarrow> rest | Some (r, _) \<Rightarrow> r);
              u = \<lparr> url_Scheme = scheme, url_Host = [], url_User = None \<rparr>
          in if \<not> has_prefix rest ''/''
             then (if scheme \<noteq> [] then Some u
                   else if viaRequest then None
                   else if CHR '':'' \<in> set (takeWhile (\<lambda>c. c \<noteq> CHR ''/'') rest) then None
                   else if unescape EncodePath rest = None then None else Some u)
             else if (scheme \<noteq> [] \<or> \<not> viaRequest \<and> \<not> has_prefix rest ''///'') \<and> has_prefix rest ''//''
             then (let authority = drop 2 rest;
                       (auth, path) = (takeWhile (\<lambda>c. c \<noteq> CHR ''/'') authority,
                                       dropWhile (\<lambda>c. c \<noteq> CHR ''/'') authority)
                   in case parseAuthority lit auth of
                        None \<Rightarrow> None
                      | Some (user, host) \<Rightarrow>
                          if unescape EncodePath path = None then None
                          else Some (u\<lparr> url_Host := host, url_User := user \<rparr>))
             else if unescape EncodePath rest = None then None
             else Some u)"

definition ParseRequestURI :: "(string \<Rightarrow> string option) \<Rightarrow> string \<Rightarrow> url option" where
  "ParseRequestURI lit raw = url_parse lit True raw"

text \<open>\<^verbatim>\<open>url.Parse\<close> first splits off the fragment, whose escapes must be well-formed.\<close>

definition Parse :: "(string \<Rightarrow> string option) \<Rightarrow> string \<Rightarrow> url option" where
  "Parse lit raw =
     (let (rest, frag) = (case cut_byte CHR ''#'' raw of None \<Rightarrow> (raw, []) | Some (r, f) \<Rightarrow> (r, f))
      in case url_parse lit False rest of
           None \<Rightarrow> None
         | Some u \<Rightarrow> if unescape EncodePath frag = None then None else Some u)"

definition url_Port :: "url \<Rightarrow> string" where
  "url_Port u =
     (case cut_last CHR '':'' (url_Host u) of
        None \<Rightarrow> []
      | Some (_, port) \<Rightarrow> if list_all is_digit port then port else [])"

section \<open>Decoding what was encoded\<close>

lemma hex_digit_ishex: "n < 16 \<Longrightarrow> ishex (hex_digit n)"
proof -
  have "\<forall>n \<in> set [0..<16]. ishex (hex_digit n)" by code_simp
  then show "n < 16 \<Longrightarrow> ishex (hex_digit n)" by simp
qed

lemma unhex_hex_digit: "n < 16 \<Longrightarrow> unhex (hex_digit n) = n"
proof -
  have "\<forall>n \<in> set [0..<16]. unhex (hex_digit n) = n" by code_simp
  then show "n < 16 \<Longrightarrow> unhex (hex_digit n) = n" by simp
qed

lemma alnum_bounds:
  "is_alnum c \<Longrightarrow> 48 \<le> (of_char c :: nat) \<and> (of_char c :: nat) \<le> 122 \<and>
     of_char c \<notin> {58, 63, 64 :: nat}"
  by (auto simp: is_alnum_def is_digit_def alpha_defs char_le_nat)

lemma is_ctl_not_in: "is_ctl c \<Longrightarrow> c \<notin> set ''!$&()*+,;=:[]<>-_.~/?@%'' \<and> c \<notin> {CHR 0x22, CHR 0x27}"
  by (auto simp: is_ctl_def)

lemma is_ctl_not_alnum: "is_ctl c \<Longrightarrow> \<not> is_alnum c"
  using alnum_bounds [of c] by (auto simp: is_ctl_def)

lemma is_ctl_shouldEscape: "is_ctl c \<Longrightarrow> shouldEscape m c"
  using is_ctl_not_in [of c] by (simp add: shouldEscape_def is_ctl_not_alnum)

lemma reserved_not_alnum:
  "\<not> is_alnum CHR ''%''" "\<not> is_alnum CHR ''?''" "\<not> is_alnum CHR ''/''" "\<not> is_alnum CHR ''@''"
  "\<not> is_alnum CHR '':''"
  by (simp_all add: is_alnum_def is_digit_def alpha_defs char_le_nat)

lemma reserved_shouldEscape [simp]:
  "shouldEscape m CHR ''%''" "shouldEscape EncodeHost CHR ''?''" "shouldEscape EncodeHost CHR ''/''"
  "shouldEscape EncodeHost CHR ''@''"
  by (simp_all add: shouldEscape_def reserved_not_alnum)

lemma host_byte_facts:
  "\<not> shouldEscape EncodeHost c \<Longrightarrow> \<not> is_ctl c \<and> c \<noteq> CHR ''?'' \<and> c \<noteq> CHR ''/'' \<and> c \<noteq> CHR ''@''"
  using is_ctl_shouldEscape by auto

lemma of_char_div [simp]: "(of_char (c :: char) :: nat) div 16 < 16"
  using nat_of_char_less_256 [of c] by (simp add: less_mult_imp_div_less)

lemma unescape_escape_char:
  "unescape EncodeUserPassword (escape_char EncodeUserPassword c @ s) =
   map_option ((#) c) (unescape EncodeUserPassword s)"
proof (cases "shouldEscape EncodeUserPassword c")
  case True
  have "16 * ((of_char c :: nat) div 16) + of_char c mod 16 = of_char c"
    by simp
  then have "char_of (16 * ((of_char c :: nat) div 16) + of_char c mod 16) = c"
    by (simp only: char_of_char)
  then show ?thesis
    using True by (simp add: escape_char_def hex_digit_ishex unhex_hex_digit)
next
  case False
  then have "c \<noteq> CHR ''%''" by auto
  with False show ?thesis by (simp add: escape_char_def)
qed

lemma unescape_escape [simp]:
  "unescape EncodeUserPassword (escape EncodeUserPassword s) = Some s"
  by (induction s) (simp_all add: escape_def unescape_escape_char)

lemma escape_id: "list_all (\<lambda>c. \<not> shouldEscape m c) s \<Longrightarrow> escape m s = s"
  by (induction s) (auto simp: escape_def escape_char_def)

lemma unescape_id: "list_all (\<lambda>c. \<not> shouldEscape m c) s \<Longrightarrow> unescape m s = Some s"
  by (induction s) auto

text \<open>The bytes an escaped user name or password is made of.\<close>

definition userinfo_byte :: "char \<Rightarrow> bool" where
  "userinfo_byte c \<longleftrightarrow> is_alnum c \<or> c \<in> set ''-_.~$&+,;=%''"

lemma userinfo_bytes:
  "is_alnum c \<Longrightarrow> userinfo_byte c"
  "c \<in> set ''-_.~$&+,;=%'' \<Longrightarrow> userinfo_byte c"
  by (simp_all only: userinfo_byte_def simp_thms)

lemma ishex_alnum: "ishex c \<Longrightarrow> is_alnum c"
  by (auto simp: ishex_def is_alnum_def is_digit_def alpha_defs char_le_nat)

lemma unescaped_userinfo: "\<not> shouldEscape EncodeUserPassword c \<Longrightarrow> userinfo_byte c"
proof -
  assume h: "\<not> shouldEscape EncodeUserPassword c"
  have sub: "set ''$&+,/:;=?@'' - set ''@/?:'' \<subseteq> set ''-_.~$&+,;=%''"
    "set ''-_.~'' \<subseteq> set ''-_.~$&+,;=%''" by code_simp+
  have "is_alnum c \<or> c \<in> set ''-_.~'' \<or> c \<in> set ''$&+,/:;=?@'' - set ''@/?:''"
    using h unfolding shouldEscape_def
    by (simp only: encoding.case encoding.distinct simp_thms Diff_iff if_False split: if_splits)
  with sub userinfo_bytes show ?thesis by blast
qed

lemma escape_char_bytes: "list_all userinfo_byte (escape_char EncodeUserPassword c)"
proof -
  have "userinfo_byte CHR ''%''" by (simp add: userinfo_byte_def)
  then show ?thesis
    by (simp add: escape_char_def userinfo_bytes(1) ishex_alnum hex_digit_ishex unescaped_userinfo)
qed

lemma escape_user_bytes: "list_all userinfo_byte (escape EncodeUserPassword s)"
  by (induction s) (auto simp: escape_def escape_char_bytes)

lemma userinfo_byte_facts:
  assumes "userinfo_byte c"
  shows "\<not> is_ctl c" "c \<notin> {CHR ''?'', CHR ''/'', CHR ''@'', CHR '':''}"
    "is_alnum c \<or> c \<in> set ''-._:~!$&()*+,;=%@''"
proof -
  have sub: "set ''-_.~$&+,;=%'' \<subseteq> set ''!$&()*+,;=:[]<>-_.~/?@%''"
    "set ''-_.~$&+,;=%'' \<subseteq> set ''-._:~!$&()*+,;=%@''"
    "set ''-_.~$&+,;=%'' \<inter> {CHR ''?'', CHR ''/'', CHR ''@'', CHR '':''} = {}" by code_simp+
  show "\<not> is_ctl c"
    using assms is_ctl_not_alnum is_ctl_not_in sub(1) unfolding userinfo_byte_def by blast
  show "c \<notin> {CHR ''?'', CHR ''/'', CHR ''@'', CHR '':''}"
    using assms reserved_not_alnum sub(3) unfolding userinfo_byte_def by blast
  show "is_alnum c \<or> c \<in> set ''-._:~!$&()*+,;=%@''"
    using assms sub(2) unfolding userinfo_byte_def by blast
qed

section \<open>Parsing what was printed\<close>

lemma cut_byte_append: "c \<notin> set a \<Longrightarrow> cut_byte c (a @ c # b) = Some (a, b)"
  by (auto simp: cut_byte_def takeWhile_append dropWhile_append)

lemma cut_last_append: "c \<notin> set b \<Longrightarrow> cut_last c (a @ c # b) = Some (a, b)"
  by (simp add: cut_last_def cut_byte_append)

text \<open>
  The proxy URLs of the program: a lower-case scheme, a host with a numeric port, and any user
  name and password.
\<close>

definition scheme_ok :: "string \<Rightarrow> bool" where
  "scheme_ok s \<longleftrightarrow>
     (case s of [] \<Rightarrow> False
      | c # s' \<Rightarrow> is_lower_alpha c \<and> list_all (\<lambda>c. is_lower_alpha c \<or> is_digit c) s')"

definition host_ok :: "string \<Rightarrow> bool" where
  "host_ok host \<longleftrightarrow>
     (case cut_byte CHR '':'' host of
        None \<Rightarrow> False
      | Some (h, port) \<Rightarrow>
          h \<noteq> [] \<and> hd h \<noteq> CHR ''['' \<and> list_all (\<lambda>c. \<not> shouldEscape EncodeHost c) h
          \<and> port \<noteq> [] \<and> list_all is_digit port)"

lemma getScheme_ok:
  "list_all (\<lambda>c. is_lower_alpha c \<or> is_digit c) s \<Longrightarrow> acc \<noteq> [] \<or> scheme_ok s \<Longrightarrow>
   getScheme acc (s @ CHR '':'' # r) = Some (rev acc @ s, r)"
proof (induction s arbitrary: acc)
  case (Cons c s)
  then show ?case by (auto simp: scheme_ok_def)
qed (auto simp: scheme_ok_def is_digit_def alpha_defs char_le_nat)

lemma scheme_bytes:
  assumes "scheme_ok s"
  shows "list_all (\<lambda>c. is_lower_alpha c \<or> is_digit c) s" "map lower_char s = s" "s \<noteq> []"
    "\<not> list_ex is_ctl s"
proof -
  show l: "list_all (\<lambda>c. is_lower_alpha c \<or> is_digit c) s" "s \<noteq> []"
    using assms by (auto simp: scheme_ok_def split: list.splits)
  have "lower_char c = c \<and> \<not> is_ctl c" if "is_lower_alpha c \<or> is_digit c" for c
    using that is_ctl_not_alnum [of c]
    by (auto simp: lower_char_def is_alnum_def is_digit_def alpha_defs char_le_nat)
  then show "map lower_char s = s" "\<not> list_ex is_ctl s"
    using l by (auto simp: list_all_iff list_ex_iff intro!: map_idI)
qed

lemma digit_host_byte: "is_digit c \<Longrightarrow> \<not> shouldEscape EncodeHost c \<and> c \<noteq> CHR '':''"
  by (auto simp: shouldEscape_def is_alnum_def) (simp add: is_digit_def char_le_nat)

lemma host_okE:
  assumes "host_ok host"
  obtains h port where "host = h @ CHR '':'' # port" "CHR '':'' \<notin> set h" "h \<noteq> []" "hd h \<noteq> CHR ''[''"
    "list_all (\<lambda>c. \<not> shouldEscape EncodeHost c) host" "port \<noteq> []" "list_all is_digit port"
proof -
  obtain h port where c: "cut_byte CHR '':'' host = Some (h, port)"
    and o: "h \<noteq> []" "hd h \<noteq> CHR ''[''" "list_all (\<lambda>c. \<not> shouldEscape EncodeHost c) h"
      "port \<noteq> []" "list_all is_digit port"
    using assms by (auto simp: host_ok_def split: option.splits)
  have h: "host = h @ CHR '':'' # port" "CHR '':'' \<notin> set h"
    using cut_byte_Some [OF c] by auto
  have "\<not> shouldEscape EncodeHost CHR '':''"
    by (simp add: shouldEscape_def)
  then have "list_all (\<lambda>c. \<not> shouldEscape EncodeHost c) host"
    using h o digit_host_byte by (auto simp: list_all_iff)
  then show thesis using that h o by blast
qed

lemma host_bytes:
  assumes "host_ok host"
  shows "list_all (\<lambda>c. \<not> shouldEscape EncodeHost c) host" "CHR ''?'' \<notin> set host"
    "CHR ''/'' \<notin> set host" "CHR ''@'' \<notin> set host" "\<not> list_ex is_ctl host"
proof -
  show l: "list_all (\<lambda>c. \<not> shouldEscape EncodeHost c) host"
    using assms by (rule host_okE)
  then have "\<not> is_ctl c \<and> c \<noteq> CHR ''?'' \<and> c \<noteq> CHR ''/'' \<and> c \<noteq> CHR ''@''" if "c \<in> set host" for c
    using that host_byte_facts unfolding list_all_iff by blast
  then show "CHR ''?'' \<notin> set host" "CHR ''/'' \<notin> set host" "CHR ''@'' \<notin> set host"
    "\<not> list_ex is_ctl host"
    unfolding list_ex_iff by blast+
qed

lemma parseHost_ok: "host_ok host \<Longrightarrow> parseHost lit host = Some host"
proof (erule host_okE)
  fix h port
  assume h: "host = h @ CHR '':'' # port" "CHR '':'' \<notin> set h" "h \<noteq> []" "hd h \<noteq> CHR ''[''"
    "list_all (\<lambda>c. \<not> shouldEscape EncodeHost c) host" "list_all is_digit port"
  have "\<not> has_prefix host ''[''"
    using h(1,3,4) by (cases h) (auto simp: has_prefix_def)
  then show "parseHost lit host = Some host"
    using h unescape_id [OF h(5)]
    by (simp add: parseHost_def cut_byte_append validOptionalPort_def)
qed

lemma url_Port_ok: "host_ok (url_Host u) \<Longrightarrow> url_Port u \<noteq> [] \<and> url_Host u \<noteq> []"
proof (erule host_okE)
  fix h port
  assume h: "url_Host u = h @ CHR '':'' # port" "port \<noteq> []" "list_all is_digit port"
  then have "CHR '':'' \<notin> set port"
    using digit_host_byte by (auto simp: list_all_iff)
  with h show "url_Port u \<noteq> [] \<and> url_Host u \<noteq> []"
    by (simp add: url_Port_def cut_last_append)
qed

text \<open>The user information in front of the host, as it is printed.\<close>

fun userinfo_String :: "(string \<times> string option) option \<Rightarrow> string" where
  "userinfo_String None = []"
| "userinfo_String (Some (name, None)) = escape EncodeUserPassword name @ ''@''"
| "userinfo_String (Some (name, Some pass)) =
     escape EncodeUserPassword name @ '':'' @ escape EncodeUserPassword pass @ ''@''"

lemma url_String_alt:
  "url_String u = url_Scheme u @ ''://'' @ userinfo_String (url_User u) @ escape EncodeHost (url_Host u)"
  by (cases u) (auto simp: url_String_def split: option.splits)

lemma escaped_notin:
  "CHR ''?'' \<notin> set (escape EncodeUserPassword s)" "CHR ''/'' \<notin> set (escape EncodeUserPassword s)"
  "CHR ''@'' \<notin> set (escape EncodeUserPassword s)" "CHR '':'' \<notin> set (escape EncodeUserPassword s)"
  "\<not> list_ex is_ctl (escape EncodeUserPassword s)"
  using escape_user_bytes [of s] userinfo_byte_facts(1,2)
  unfolding list_all_iff list_ex_iff by blast+

lemma validUserinfo_escape:
  "validUserinfo (escape EncodeUserPassword s)"
  "validUserinfo (escape EncodeUserPassword s @ CHR '':'' # escape EncodeUserPassword s')"
proof -
  have e: "validUserinfo (escape EncodeUserPassword s)" for s
    using escape_user_bytes [of s] userinfo_byte_facts(3)
    unfolding validUserinfo_def list_all_iff by blast
  have "validUserinfo '':''" by (simp add: validUserinfo_def)
  with e [of s] e [of s'] show "validUserinfo (escape EncodeUserPassword s)"
    "validUserinfo (escape EncodeUserPassword s @ CHR '':'' # escape EncodeUserPassword s')"
    by (simp_all add: validUserinfo_def)
qed

lemma parseAuthority_ok:
  assumes "host_ok host"
  shows "parseAuthority lit (userinfo_String ui @ host) = Some (ui, host)"
proof -
  have no_at: "CHR ''@'' \<notin> set host"
    using assms by (rule host_bytes)
  show ?thesis
  proof (cases ui rule: userinfo_String.cases)
    case 1
    have "cut_last CHR ''@'' host = None"
      using no_at by (simp add: cut_last_def cut_byte_None)
    then show ?thesis using 1 assms by (simp add: parseAuthority_def parseHost_ok)
  next
    case (2 name)
    then show ?thesis
      using no_at assms
      by (simp add: parseAuthority_def parseHost_ok cut_last_append parseUserinfo_def
          validUserinfo_escape cut_byte_None [THEN iffD2] escaped_notin)
  next
    case (3 name pass)
    have "cut_last CHR ''@'' (userinfo_String ui @ host) =
        Some (escape EncodeUserPassword name @ CHR '':'' # escape EncodeUserPassword pass, host)"
      using cut_last_append [OF no_at,
        of "escape EncodeUserPassword name @ CHR '':'' # escape EncodeUserPassword pass"] 3 by simp
    then show ?thesis
      using 3 assms
      by (simp add: parseAuthority_def parseHost_ok parseUserinfo_def validUserinfo_escape
          cut_byte_append escaped_notin)
  qed
qed

lemma userinfo_String_bytes:
  "CHR ''?'' \<notin> set (userinfo_String ui)" "CHR ''/'' \<notin> set (userinfo_String ui)"
  "CHR ''#'' \<notin> set (userinfo_String ui)" "\<not> list_ex is_ctl (userinfo_String ui)"
proof -
  have hash: "CHR ''#'' \<notin> set (escape EncodeUserPassword s)" for s
  proof
    assume "CHR ''#'' \<in> set (escape EncodeUserPassword s)"
    then have "userinfo_byte CHR ''#''"
      using escape_user_bytes [of s] by (auto simp: list_all_iff)
    then show False by (simp add: userinfo_byte_def is_alnum_def is_digit_def alpha_defs char_le_nat)
  qed
  show "CHR ''?'' \<notin> set (userinfo_String ui)" "CHR ''/'' \<notin> set (userinfo_String ui)"
    "CHR ''#'' \<notin> set (userinfo_String ui)" "\<not> list_ex is_ctl (userinfo_String ui)"
    using hash by (cases ui rule: userinfo_String.cases; simp add: escaped_notin is_ctl_def)+
qed

lemma url_parse_String:
  assumes s: "scheme_ok (url_Scheme u)" and h: "host_ok (url_Host u)"
  shows "url_parse lit via (url_String u) = Some u"
proof -
  let ?a = "userinfo_String (url_User u) @ url_Host u"
  note host = host_bytes(2,3,1,5) [OF h]
  have str: "url_String u = url_Scheme u @ CHR '':'' # ''//'' @ ?a"
    using escape_id [OF host(3)] by (simp add: url_String_alt)
  have ctl: "\<not> list_ex is_ctl (url_String u)"
    using scheme_bytes(4) [OF s] host(4) userinfo_String_bytes(4) by (simp add: str is_ctl_def)
  have sch: "getScheme [] (url_String u) = Some (url_Scheme u, ''//'' @ ?a)"
    unfolding str by (subst getScheme_ok) (use s scheme_bytes in auto)
  have q: "cut_byte CHR ''?'' (''//'' @ ?a) = None"
    using host(1) userinfo_String_bytes(1) by (simp add: cut_byte_None)
  have w: "takeWhile (\<lambda>c. c \<noteq> CHR ''/'') ?a = ?a" "dropWhile (\<lambda>c. c \<noteq> CHR ''/'') ?a = []"
    using host(2) userinfo_String_bytes(2) [of "url_User u"]
    by (auto simp: takeWhile_eq_all_conv dropWhile_eq_Nil_conv)
  have ne: "url_String u \<noteq> []" "url_String u \<noteq> ''*''"
    using scheme_bytes(3) [OF s] by (auto simp: str append_eq_Cons_conv)
  show ?thesis
    using ctl ne w scheme_bytes(2,3) [OF s]
    by (simp add: url_parse_def sch q has_prefix_def parseAuthority_ok [OF h] Let_def del: append.simps)
       (simp add: w parseAuthority_ok [OF h])
qed

lemma ParseRequestURI_String:
  "scheme_ok (url_Scheme u) \<Longrightarrow> host_ok (url_Host u) \<Longrightarrow> ParseRequestURI lit (url_String u) = Some u"
  by (simp add: ParseRequestURI_def url_parse_String)

lemma Parse_String:
  assumes "scheme_ok (url_Scheme u)" "host_ok (url_Host u)"
  shows "Parse lit (url_String u) = Some u"
proof -
  have hash: "shouldEscape EncodeHost CHR ''#''" by code_simp
  have "CHR ''#'' \<notin> set (url_Host u)" using host_bytes(1) [OF assms(2)] hash by (auto simp: list_all_iff)
  moreover have "CHR ''#'' \<notin> set (url_Scheme u)"
    using scheme_bytes(1) [OF assms(1)] by (auto simp: list_all_iff is_digit_def alpha_defs char_le_nat)
  ultimately have "cut_byte CHR ''#'' (url_String u) = None"
    using userinfo_String_bytes(3) escape_id [OF host_bytes(1) [OF assms(2)]]
    by (simp add: cut_byte_None url_String_alt)
  then show ?thesis by (simp add: Parse_def url_parse_String [OF assms])
qed

end
