(* ===== verification/Lease.thy ===== *)
theory Lease
  imports Types Url
begin

text \<open>
  The registry of proxy leases (\<^verbatim>\<open>lease.go\<close>): issuing a lease for an acquired cell, looking a lease
  up by its credentials, and dropping expired leases. The digest function \<^verbatim>\<open>sha256.Sum256\<close> is the
  parameter \<open>sha256\<close>: the registry only compares digests, and the results hold for every digest
  function.
\<close>

section \<open>Base64\<close>

text \<open>\<^verbatim>\<open>base64.RawURLEncoding\<close>: the URL-safe alphabet without padding.\<close>

definition base64_char :: "nat \<Rightarrow> char" where
  "base64_char n =
     (if n < 26 then char_of (65 + n)
      else if n < 52 then char_of (97 + (n - 26))
      else if n < 62 then char_of (48 + (n - 52))
      else if n = 62 then CHR ''-'' else CHR ''_'')"

fun base64_encode :: "string \<Rightarrow> string" where
  "base64_encode [] = []"
| "base64_encode [a] =
     (let n = of_char a * 16 in [base64_char (n div 64), base64_char (n mod 64)])"
| "base64_encode [a, b] =
     (let n = (of_char a * 256 + of_char b) * 4
      in [base64_char (n div 4096), base64_char (n div 64 mod 64), base64_char (n mod 64)])"
| "base64_encode (a # b # c # s) =
     (let n = of_char a * 65536 + of_char b * 256 + of_char c
      in [base64_char (n div 262144), base64_char (n div 4096 mod 64),
          base64_char (n div 64 mod 64), base64_char (n mod 64)] @ base64_encode s)"

section \<open>The registry\<close>

record ProxyURLs =
  px_SOCKS5 :: string
  px_HTTP :: string

record ProxyLease =
  pl_Proxies :: ProxyURLs
  pl_ExpiresAt :: time

record proxyLeaseRecord =
  lease_Pool :: string
  lease_ContainerID :: string
  lease_InternalURL :: "url option"
  lease_GatewayAddr :: string
  lease_SecretDigest :: string
  lease_ExpiresAt :: time

record leaseRegistry =
  reg_socksPublicAddr :: string
  reg_httpProxyPublicAddr :: string
  reg_ttl :: duration
  reg_leases :: "string \<rightharpoonup> proxyLeaseRecord"

definition proxyLeaseSecretBytes :: nat where
  "proxyLeaseSecretBytes = 32"

definition newLeaseRegistry :: "string \<Rightarrow> string \<Rightarrow> duration \<Rightarrow> leaseRegistry" where
  "newLeaseRegistry socksPublicAddr httpProxyPublicAddr ttl =
     \<lparr> reg_socksPublicAddr = socksPublicAddr, reg_httpProxyPublicAddr = httpProxyPublicAddr,
       reg_ttl = ttl, reg_leases = Map.empty \<rparr>"

definition pruneExpiredLocked :: "time \<Rightarrow> leaseRegistry \<Rightarrow> leaseRegistry" where
  "pruneExpiredLocked now r =
     r\<lparr> reg_leases := (\<lambda>leaseID.
          case reg_leases r leaseID of
            None \<Rightarrow> None
          | Some rec \<Rightarrow> if \<not> now < lease_ExpiresAt rec then None else Some rec) \<rparr>"

definition newLeasePart :: "'w Env \<Rightarrow> 'w \<Rightarrow> (error + string) \<times> 'w" where
  "newLeasePart env w =
     (case env_RandRead env proxyLeaseSecretBytes w of
        (Inl e, w) \<Rightarrow> (Inl e, w)
      | (Inr bytes, w) \<Rightarrow> (Inr (base64_encode bytes), w))"

definition proxySchemeSOCKS5 :: string where
  "proxySchemeSOCKS5 = ''socks5''"

definition proxySchemeHTTP :: string where
  "proxySchemeHTTP = ''http''"

text \<open>The URL of a lease: its credentials in front of a public address of the controller.\<close>

definition lease_url :: "string \<Rightarrow> string \<Rightarrow> string \<Rightarrow> string \<Rightarrow> url" where
  "lease_url scheme addr leaseID secret =
     \<lparr> url_Scheme = scheme, url_Host = addr, url_User = Some (leaseID, Some secret) \<rparr>"

text \<open>The guard of \<^verbatim>\<open>Issue\<close>: the acquisition names a pool and a cell that can be reached.\<close>

definition leasable :: "Acquisition \<Rightarrow> bool" where
  "leasable acq \<longleftrightarrow>
     (case acq_Tunnel acq of
        None \<Rightarrow> False
      | Some t \<Rightarrow> acq_Pool acq \<noteq> [] \<and> tun_ContainerID t \<noteq> [] \<and> tun_ProxyURL t \<noteq> None
          \<and> tun_GatewayAddr t \<noteq> [])"

definition lease_record ::
  "(string \<Rightarrow> string) \<Rightarrow> Acquisition \<Rightarrow> Tunnel \<Rightarrow> string \<Rightarrow> time \<Rightarrow> proxyLeaseRecord" where
  "lease_record sha256 acq t secret expiresAt =
     \<lparr> lease_Pool = acq_Pool acq, lease_ContainerID = tun_ContainerID t,
       lease_InternalURL = tun_ProxyURL t, lease_GatewayAddr = tun_GatewayAddr t,
       lease_SecretDigest = sha256 secret, lease_ExpiresAt = expiresAt \<rparr>"

definition Issue ::
  "(string \<Rightarrow> string) \<Rightarrow> 'w Env \<Rightarrow> Acquisition \<Rightarrow> leaseRegistry \<Rightarrow> 'w
     \<Rightarrow> (error + ProxyLease) \<times> leaseRegistry \<times> 'w" where
  "Issue sha256 env acq r w =
     (case acq_Tunnel acq of
        None \<Rightarrow> (Inl ErrPoolUnavailable, r, w)
      | Some t \<Rightarrow>
          if \<not> leasable acq then (Inl ErrPoolUnavailable, r, w)
          else case newLeasePart env w of
            (Inl e, w) \<Rightarrow> (Inl e, r, w)
          | (Inr leaseID, w) \<Rightarrow>
              (case newLeasePart env w of
                 (Inl e, w) \<Rightarrow> (Inl e, r, w)
               | (Inr secret, w) \<Rightarrow>
                   let (now, w) = env_Now env w;
                       expiresAt = now + reg_ttl r;
                       r = pruneExpiredLocked now r;
                       r = r\<lparr> reg_leases :=
                              (reg_leases r)(leaseID \<mapsto> lease_record sha256 acq t secret expiresAt) \<rparr>;
                       socksURL = url_String
                         (lease_url proxySchemeSOCKS5 (reg_socksPublicAddr r) leaseID secret);
                       httpURL = url_String
                         (lease_url proxySchemeHTTP (reg_httpProxyPublicAddr r) leaseID secret)
                   in (Inr \<lparr> pl_Proxies = \<lparr> px_SOCKS5 = socksURL, px_HTTP = httpURL \<rparr>,
                             pl_ExpiresAt = expiresAt \<rparr>, r, w)))"

definition Lookup ::
  "(string \<Rightarrow> string) \<Rightarrow> 'w Env \<Rightarrow> string \<Rightarrow> string \<Rightarrow> leaseRegistry \<Rightarrow> 'w
     \<Rightarrow> proxyLeaseRecord option \<times> leaseRegistry \<times> 'w" where
  "Lookup sha256 env leaseID secret r w =
     (let providedDigest = sha256 secret;
          (now, w) = env_Now env w;
          r = pruneExpiredLocked now r
      in case reg_leases r leaseID of
           None \<Rightarrow> (None, r, w)
         | Some rec \<Rightarrow>
             if lease_SecretDigest rec \<noteq> providedDigest then (None, r, w)
             else (Some rec, r, w))"

section \<open>Pruning and looking up\<close>

lemma pruneExpired_leases:
  "reg_leases (pruneExpiredLocked now r) leaseID = Some rec \<longleftrightarrow>
     reg_leases r leaseID = Some rec \<and> now < lease_ExpiresAt rec"
  by (auto simp: pruneExpiredLocked_def split: option.splits)

lemma pruneExpired_simps [simp]:
  "reg_socksPublicAddr (pruneExpiredLocked now r) = reg_socksPublicAddr r"
  "reg_httpProxyPublicAddr (pruneExpiredLocked now r) = reg_httpProxyPublicAddr r"
  "reg_ttl (pruneExpiredLocked now r) = reg_ttl r"
  by (simp_all add: pruneExpiredLocked_def)

lemma pruneExpired_twice:
  "now \<le> now' \<Longrightarrow> pruneExpiredLocked now' (pruneExpiredLocked now r) = pruneExpiredLocked now' r"
  by (simp add: pruneExpiredLocked_def fun_eq_iff split: option.split)

lemma Lookup_result:
  "fst (Lookup sha256 env leaseID secret r w) = Some rec \<longleftrightarrow>
     reg_leases r leaseID = Some rec \<and> lease_SecretDigest rec = sha256 secret
     \<and> fst (env_Now env w) < lease_ExpiresAt rec"
proof -
  obtain now w' where e: "env_Now env w = (now, w')" by (cases "env_Now env w")
  have "fst (Lookup sha256 env leaseID secret r w) = Some rec \<longleftrightarrow>
      reg_leases (pruneExpiredLocked now r) leaseID = Some rec \<and> lease_SecretDigest rec = sha256 secret"
    by (cases "reg_leases (pruneExpiredLocked now r) leaseID")
       (auto simp: Lookup_def e Let_def split: if_splits)
  then show ?thesis by (auto simp: e pruneExpired_leases)
qed

lemma Lookup_state:
  "snd (Lookup sha256 env leaseID secret r w) =
     (pruneExpiredLocked (fst (env_Now env w)) r, snd (env_Now env w))"
  by (simp add: Lookup_def case_prod_unfold Let_def split: option.split)

section \<open>Issuing\<close>

text \<open>The clock reading of an \<^verbatim>\<open>Issue\<close> that is started in the world \<open>w\<close>, after its random bytes.\<close>

definition issue_time :: "'w Env \<Rightarrow> 'w \<Rightarrow> time" where
  "issue_time env w = fst (env_Now env (snd (newLeasePart env (snd (newLeasePart env w)))))"

lemma Issue_ok:
  assumes "Issue sha256 env acq r w = (Inr l, r', w')"
  obtains t leaseID secret where
    "acq_Tunnel acq = Some t" "leasable acq"
    "fst (newLeasePart env w) = Inr leaseID"
    "fst (newLeasePart env (snd (newLeasePart env w))) = Inr secret"
    "pl_ExpiresAt l = issue_time env w + reg_ttl r"
    "px_SOCKS5 (pl_Proxies l) = url_String (lease_url proxySchemeSOCKS5 (reg_socksPublicAddr r) leaseID secret)"
    "px_HTTP (pl_Proxies l) = url_String (lease_url proxySchemeHTTP (reg_httpProxyPublicAddr r) leaseID secret)"
    "r' = (pruneExpiredLocked (issue_time env w) r)\<lparr> reg_leases :=
       (reg_leases (pruneExpiredLocked (issue_time env w) r))(leaseID \<mapsto>
          lease_record sha256 acq t secret (pl_ExpiresAt l)) \<rparr>"
  using assms
  by (auto simp: Issue_def issue_time_def Let_def case_prod_unfold
      split: option.splits if_splits sum.splits prod.splits)

lemma Issue_error:
  assumes "Issue sha256 env acq r w = (Inl e, r', w')"
  shows "r' = r \<and> (leasable acq \<longrightarrow> (\<exists>w. fst (env_RandRead env proxyLeaseSecretBytes w) = Inl e))
     \<and> (\<not> leasable acq \<longrightarrow> e = ErrPoolUnavailable)"
proof -
  have part: "\<exists>w. fst (env_RandRead env proxyLeaseSecretBytes w) = Inl e"
    if "fst (newLeasePart env w) = Inl e" for e w
    using that by (intro exI [of _ w]) (auto simp: newLeasePart_def split: prod.splits sum.splits)
  show ?thesis
    using assms part
    by (auto simp: Issue_def leasable_def Let_def case_prod_unfold
        split: option.splits if_splits sum.splits prod.splits)
qed

lemma Issue_simps:
  assumes "Issue sha256 env acq r w = (res, r', w')"
  shows "reg_ttl r' = reg_ttl r \<and> reg_socksPublicAddr r' = reg_socksPublicAddr r
     \<and> reg_httpProxyPublicAddr r' = reg_httpProxyPublicAddr r"
proof (cases res)
  case (Inl e)
  then show ?thesis using Issue_error assms by fastforce
next
  case (Inr l)
  then show ?thesis using assms by (auto elim!: Issue_ok)
qed

section \<open>The life of a lease\<close>

text \<open>
  Any sequence of operations on the registry in which no later lease is issued under the
  identifier \<open>leaseID\<close>. The list holds the clock readings of the operations. The world changes
  arbitrarily between two operations.
\<close>

inductive lease_run ::
  "(string \<Rightarrow> string) \<Rightarrow> 'w Env \<Rightarrow> string \<Rightarrow> leaseRegistry \<Rightarrow> 'w
     \<Rightarrow> time list \<Rightarrow> leaseRegistry \<Rightarrow> bool"
  for sha256 env leaseID where
  lease_run_Nil: "lease_run sha256 env leaseID r w [] r"
| lease_run_Issue:
    "\<lbrakk> Issue sha256 env acq r w = (res, r1, w1); fst (newLeasePart env w) \<noteq> Inr leaseID;
       ts' = (case res of Inl _ \<Rightarrow> ts | Inr _ \<Rightarrow> issue_time env w # ts);
       lease_run sha256 env leaseID r1 w2 ts r2 \<rbrakk>
     \<Longrightarrow> lease_run sha256 env leaseID r w ts' r2"
| lease_run_Lookup:
    "\<lbrakk> Lookup sha256 env i s r w = (res, r1, w1); lease_run sha256 env leaseID r1 w2 ts r2 \<rbrakk>
     \<Longrightarrow> lease_run sha256 env leaseID r w (fst (env_Now env w) # ts) r2"

lemma lease_run_record:
  assumes "lease_run sha256 env leaseID r w ts r'"
  shows "reg_leases r' leaseID = Some rec \<longleftrightarrow>
     reg_leases r leaseID = Some rec \<and> (\<forall>t \<in> set ts. t < lease_ExpiresAt rec)"
  using assms
proof (induction rule: lease_run.induct)
  case (lease_run_Issue acq r w res r1 w1 ts' ts w2 r2)
  show ?case
  proof (cases res)
    case (Inl e)
    then show ?thesis using lease_run_Issue Issue_error by fastforce
  next
    case (Inr l)
    then obtain i s t where "fst (newLeasePart env w) = Inr i"
      "r1 = (pruneExpiredLocked (issue_time env w) r)\<lparr> reg_leases :=
         (reg_leases (pruneExpiredLocked (issue_time env w) r))(i \<mapsto>
            lease_record sha256 acq t s (pl_ExpiresAt l)) \<rparr>"
      using lease_run_Issue.hyps(1) by (auto elim!: Issue_ok)
    then show ?thesis
      using lease_run_Issue.hyps(2,3) lease_run_Issue.IH Inr by (auto simp: pruneExpired_leases)
  qed
next
  case (lease_run_Lookup i s r w res r1 w1 w2 ts r2)
  then have "r1 = pruneExpiredLocked (fst (env_Now env w)) r"
    using Lookup_state [of sha256 env i s r w] by simp
  then show ?case using lease_run_Lookup.IH by (auto simp: pruneExpired_leases)
qed simp

lemma lease_run_lookup:
  assumes "lease_run sha256 env leaseID r w ts r'" "reg_leases r leaseID = Some rec"
    "lease_SecretDigest rec = sha256 secret"
  shows "fst (Lookup sha256 env leaseID secret r' w') =
    (if \<forall>t \<in> set (fst (env_Now env w') # ts). t < lease_ExpiresAt rec then Some rec else None)"
proof -
  have "fst (Lookup sha256 env leaseID secret r' w') = Some rec' \<longleftrightarrow>
      rec' = rec \<and> (\<forall>t \<in> set (fst (env_Now env w') # ts). t < lease_ExpiresAt rec)" for rec'
    using assms(2,3) by (auto simp: Lookup_result lease_run_record [OF assms(1)])
  then show ?thesis by (metis option.exhaust)
qed

text \<open>C3: a lease is good for its cell until it expires, and no longer. The proxy URLs of an issued
  lease carry its identifier and secret, and after any later operations on the registry, a lookup
  with these credentials returns the pool, the container, the cell URL and the gateway of the
  acquisition exactly as long as no clock reading has reached the expiry time; a lookup with a
  secret of another digest returns nothing.\<close>

theorem lease_lifetime:
  assumes "Issue sha256 env acq r w = (Inr l, r', w1)"
  shows "\<exists>t leaseID secret.
    acq_Tunnel acq = Some t
    \<and> px_SOCKS5 (pl_Proxies l) = url_String (lease_url ''socks5'' (reg_socksPublicAddr r) leaseID secret)
    \<and> px_HTTP (pl_Proxies l) = url_String (lease_url ''http'' (reg_httpProxyPublicAddr r) leaseID secret)
    \<and> pl_ExpiresAt l = issue_time env w + reg_ttl r
    \<and> (\<forall>w2 ts r2 w3. lease_run sha256 env leaseID r' w2 ts r2 \<longrightarrow>
         fst (Lookup sha256 env leaseID secret r2 w3) =
           (if \<forall>x \<in> set (fst (env_Now env w3) # ts). x < pl_ExpiresAt l
            then Some \<lparr> lease_Pool = acq_Pool acq, lease_ContainerID = tun_ContainerID t,
                        lease_InternalURL = tun_ProxyURL t, lease_GatewayAddr = tun_GatewayAddr t,
                        lease_SecretDigest = sha256 secret, lease_ExpiresAt = pl_ExpiresAt l \<rparr>
            else None)
         \<and> (\<forall>other. sha256 other \<noteq> sha256 secret \<longrightarrow>
              fst (Lookup sha256 env leaseID other r2 w3) = None))"
proof -
  obtain t leaseID secret where i: "acq_Tunnel acq = Some t" "pl_ExpiresAt l = issue_time env w + reg_ttl r"
    "px_SOCKS5 (pl_Proxies l) = url_String (lease_url proxySchemeSOCKS5 (reg_socksPublicAddr r) leaseID secret)"
    "px_HTTP (pl_Proxies l) = url_String (lease_url proxySchemeHTTP (reg_httpProxyPublicAddr r) leaseID secret)"
    and r': "reg_leases r' leaseID = Some (lease_record sha256 acq t secret (pl_ExpiresAt l))"
    using assms by (elim Issue_ok) simp
  have "fst (Lookup sha256 env leaseID other r2 w3) = None"
    if run: "lease_run sha256 env leaseID r' w2 ts r2" and ne: "sha256 other \<noteq> sha256 secret"
    for w2 ts r2 w3 other
  proof (cases "fst (Lookup sha256 env leaseID other r2 w3)")
    case (Some rec)
    then have "reg_leases r' leaseID = Some rec" "lease_SecretDigest rec = sha256 other"
      using lease_run_record [OF run] by (simp_all add: Lookup_result)
    with r' ne show ?thesis by (simp add: lease_record_def)
  qed
  moreover have "fst (Lookup sha256 env leaseID secret r2 w3) =
      (if \<forall>x \<in> set (fst (env_Now env w3) # ts). x < pl_ExpiresAt l
       then Some (lease_record sha256 acq t secret (pl_ExpiresAt l)) else None)"
    if "lease_run sha256 env leaseID r' w2 ts r2" for w2 ts r2 w3
    using lease_run_lookup [OF that r', of secret w3] by (simp add: lease_record_def)
  ultimately show ?thesis
    using i unfolding proxySchemeSOCKS5_def proxySchemeHTTP_def lease_record_def
    by (intro exI [where x = t] exI [where x = leaseID] exI [where x = secret]) simp
qed

text \<open>An environment whose state is a counter: the clock and the random bytes follow it.\<close>

definition demo_env :: "nat Env" where
  "demo_env =
     \<lparr> env_Now = (\<lambda>w. (int w, w + 1)), env_IntN = (\<lambda>w. (0, w)),
       env_RandRead = (\<lambda>n w. (Inr (replicate n (char_of w)), w + 1)) \<rparr>"

definition demo_acq :: Acquisition where
  "demo_acq =
     \<lparr> acq_Tunnel = Some \<lparr> tun_ContainerID = ''c1'', tun_ConfName = ''fr-y'',
         tun_ProxyURL = Some \<lparr> url_Scheme = ''socks5'', url_Host = ''10.0.0.2:1080'', url_User = None \<rparr>,
         tun_GatewayAddr = ''10.0.0.2:1080'', tun_State = TunnelStateHot, tun_Pool = ''eu'',
         tun_ExitCountry = ''FR'', tun_ExitIP = '''', tun_SpawnedAt = 0, tun_HealthyAt = 0,
         tun_LastUsedAt = 0, tun_LastURL = '''', tun_LastURLExpiresAt = zero_time, tun_InFlight = 1 \<rparr>,
       acq_Pool = ''eu'' \<rparr>"

definition demo_registry :: leaseRegistry where
  "demo_registry = newLeaseRegistry ''127.0.0.1:1080'' ''127.0.0.1:8889'' 100"

lemma demo_issue:
  "\<exists>l r' w'. Issue sha256 demo_env demo_acq demo_registry 0 = (Inr l, r', w') \<and> pl_ExpiresAt l = 102"
  by (simp add: Issue_def demo_env_def demo_acq_def demo_registry_def newLeaseRegistry_def
      leasable_def newLeasePart_def Let_def)

theorem lease_lifetime_witness:
  "\<exists>l r' w1 leaseID secret. Issue rev demo_env demo_acq demo_registry 0 = (Inr l, r', w1)
     \<and> px_SOCKS5 (pl_Proxies l) = url_String (lease_url ''socks5'' ''127.0.0.1:1080'' leaseID secret)
     \<and> map_option lease_ContainerID (fst (Lookup rev demo_env leaseID secret r' 60)) = Some ''c1''
     \<and> fst (Lookup rev demo_env leaseID (secret @ ''x'') r' 60) = None
     \<and> fst (Lookup rev demo_env leaseID secret r' 102) = None"
proof -
  obtain l r' w1 where i: "Issue rev demo_env demo_acq demo_registry 0 = (Inr l, r', w1)"
    and e: "pl_ExpiresAt l = 102"
    using demo_issue by blast
  from lease_lifetime [OF i] obtain t leaseID secret where t: "acq_Tunnel demo_acq = Some t"
    and u: "px_SOCKS5 (pl_Proxies l) =
        url_String (lease_url ''socks5'' (reg_socksPublicAddr demo_registry) leaseID secret)"
    and look: "\<And>w2 ts r2 w3. lease_run rev demo_env leaseID r' w2 ts r2 \<Longrightarrow>
         fst (Lookup rev demo_env leaseID secret r2 w3) =
           (if \<forall>x \<in> set (fst (env_Now demo_env w3) # ts). x < pl_ExpiresAt l
            then Some \<lparr> lease_Pool = acq_Pool demo_acq, lease_ContainerID = tun_ContainerID t,
                        lease_InternalURL = tun_ProxyURL t, lease_GatewayAddr = tun_GatewayAddr t,
                        lease_SecretDigest = rev secret, lease_ExpiresAt = pl_ExpiresAt l \<rparr>
            else None)
         \<and> (\<forall>other. rev other \<noteq> rev secret \<longrightarrow>
              fst (Lookup rev demo_env leaseID other r2 w3) = None)"
    by blast
  have now: "fst (env_Now demo_env w) = int w" for w
    by (simp add: demo_env_def)
  have run: "lease_run rev demo_env leaseID r' w1 [] r'"
    by (rule lease_run_Nil)
  have d: "tun_ContainerID t = ''c1''" "reg_socksPublicAddr demo_registry = ''127.0.0.1:1080''"
    using t by (auto simp: demo_acq_def demo_registry_def newLeaseRegistry_def)
  have "map_option lease_ContainerID (fst (Lookup rev demo_env leaseID secret r' 60)) = Some ''c1''"
    "fst (Lookup rev demo_env leaseID (secret @ ''x'') r' 60) = None"
    "fst (Lookup rev demo_env leaseID secret r' 102) = None"
    using look [OF run, of 60] look [OF run, of 102] d(1) e by (simp_all add: now)
  with i u d(2) show ?thesis by auto
qed

section \<open>Forgetting expired leases is invisible\<close>

text \<open>
  The reference is a registry that never forgets a lease and compares the expiry with the clock at
  every lookup.
\<close>

definition ideal_Issue ::
  "(string \<Rightarrow> string) \<Rightarrow> 'w Env \<Rightarrow> Acquisition \<Rightarrow> leaseRegistry \<Rightarrow> 'w
     \<Rightarrow> (error + ProxyLease) \<times> leaseRegistry \<times> 'w" where
  "ideal_Issue sha256 env acq h w =
     (case acq_Tunnel acq of
        None \<Rightarrow> (Inl ErrPoolUnavailable, h, w)
      | Some t \<Rightarrow>
          if \<not> leasable acq then (Inl ErrPoolUnavailable, h, w)
          else case newLeasePart env w of
            (Inl e, w) \<Rightarrow> (Inl e, h, w)
          | (Inr leaseID, w) \<Rightarrow>
              (case newLeasePart env w of
                 (Inl e, w) \<Rightarrow> (Inl e, h, w)
               | (Inr secret, w) \<Rightarrow>
                   let (now, w) = env_Now env w
                   in (Inr \<lparr> pl_Proxies =
                           \<lparr> px_SOCKS5 = url_String (lease_url proxySchemeSOCKS5 (reg_socksPublicAddr h) leaseID secret),
                             px_HTTP = url_String (lease_url proxySchemeHTTP (reg_httpProxyPublicAddr h) leaseID secret) \<rparr>,
                             pl_ExpiresAt = now + reg_ttl h \<rparr>,
                       h\<lparr> reg_leases := (reg_leases h)(leaseID \<mapsto> lease_record sha256 acq t secret (now + reg_ttl h)) \<rparr>, w)))"

definition ideal_Lookup ::
  "(string \<Rightarrow> string) \<Rightarrow> 'w Env \<Rightarrow> string \<Rightarrow> string \<Rightarrow> leaseRegistry \<Rightarrow> 'w
     \<Rightarrow> proxyLeaseRecord option \<times> leaseRegistry \<times> 'w" where
  "ideal_Lookup sha256 env leaseID secret h w =
     (let (now, w) = env_Now env w
      in (case reg_leases h leaseID of
            None \<Rightarrow> None
          | Some rec \<Rightarrow> if lease_SecretDigest rec = sha256 secret \<and> now < lease_ExpiresAt rec then Some rec else None,
          h, w))"

datatype lease_op = OpIssue Acquisition | OpLookup string string

datatype lease_out = OutIssue "error + ProxyLease" | OutLookup "proxyLeaseRecord option"

fun registry_runs :: "(string \<Rightarrow> string) \<Rightarrow> 'w Env \<Rightarrow> lease_op list \<Rightarrow> leaseRegistry \<Rightarrow> 'w \<Rightarrow> lease_out list" where
  "registry_runs sha256 env [] r w = []"
| "registry_runs sha256 env (OpIssue acq # ops) r w =
     (case Issue sha256 env acq r w of (out, r, w) \<Rightarrow> OutIssue out # registry_runs sha256 env ops r w)"
| "registry_runs sha256 env (OpLookup leaseID secret # ops) r w =
     (case Lookup sha256 env leaseID secret r w of (out, r, w) \<Rightarrow> OutLookup out # registry_runs sha256 env ops r w)"

fun ideal_runs :: "(string \<Rightarrow> string) \<Rightarrow> 'w Env \<Rightarrow> lease_op list \<Rightarrow> leaseRegistry \<Rightarrow> 'w \<Rightarrow> lease_out list" where
  "ideal_runs sha256 env [] h w = []"
| "ideal_runs sha256 env (OpIssue acq # ops) h w =
     (case ideal_Issue sha256 env acq h w of (out, h, w) \<Rightarrow> OutIssue out # ideal_runs sha256 env ops h w)"
| "ideal_runs sha256 env (OpLookup leaseID secret # ops) h w =
     (case ideal_Lookup sha256 env leaseID secret h w of (out, h, w) \<Rightarrow> OutLookup out # ideal_runs sha256 env ops h w)"

text \<open>The two registries agree on every lease that is valid now or later.\<close>

definition live_lease :: "time \<Rightarrow> leaseRegistry \<Rightarrow> string \<Rightarrow> proxyLeaseRecord \<Rightarrow> bool" where
  "live_lease t r leaseID rec \<longleftrightarrow> reg_leases r leaseID = Some rec \<and> t < lease_ExpiresAt rec"

definition agree :: "time \<Rightarrow> leaseRegistry \<Rightarrow> leaseRegistry \<Rightarrow> bool" where
  "agree now h r \<longleftrightarrow>
     reg_socksPublicAddr h = reg_socksPublicAddr r \<and> reg_httpProxyPublicAddr h = reg_httpProxyPublicAddr r
     \<and> reg_ttl h = reg_ttl r \<and> (\<forall>t \<ge> now. live_lease t h = live_lease t r)"

lemma live_prune: "now \<le> t \<Longrightarrow> live_lease t (pruneExpiredLocked now r) = live_lease t r"
  by (auto simp: live_lease_def fun_eq_iff pruneExpired_leases)

lemma agree_later: "agree now h r \<Longrightarrow> now \<le> now' \<Longrightarrow> agree now' h r"
  by (simp add: agree_def)

lemma agree_prune: "agree now h r \<Longrightarrow> agree now h (pruneExpiredLocked now r)"
  by (simp add: agree_def live_prune)

lemma agree_add:
  "agree now h r \<Longrightarrow> agree now (h\<lparr> reg_leases := (reg_leases h)(leaseID \<mapsto> rec) \<rparr>)
     (r\<lparr> reg_leases := (reg_leases r)(leaseID \<mapsto> rec) \<rparr>)"
  by (auto simp: agree_def live_lease_def fun_eq_iff)

definition forward_clock :: "'w Env \<Rightarrow> bool" where
  "forward_clock env \<longleftrightarrow>
     (\<forall>w. fst (env_Now env w) \<le> fst (env_Now env (snd (env_Now env w))))
     \<and> (\<forall>n w. fst (env_Now env w) \<le> fst (env_Now env (snd (env_RandRead env n w))))"

lemma newLeasePart_clock:
  "forward_clock env \<Longrightarrow> fst (env_Now env w) \<le> fst (env_Now env (snd (newLeasePart env w)))"
  by (auto simp: forward_clock_def newLeasePart_def split: prod.splits sum.splits) (metis snd_conv)+

lemma option_eqI: "(\<And>x. a = Some x \<longleftrightarrow> b = Some x) \<Longrightarrow> a = b"
  by (cases a; cases b) auto

lemma Lookup_simulates:
  assumes "forward_clock env" "agree (fst (env_Now env w)) h r"
    and "Lookup sha256 env leaseID secret r w = (out, r', w')"
  obtains h' where "ideal_Lookup sha256 env leaseID secret h w = (out, h', w')" "agree (fst (env_Now env w')) h' r'"
proof -
  obtain now w1 where n: "env_Now env w = (now, w1)" by fastforce
  have r': "r' = pruneExpiredLocked now r" "w' = w1"
    using Lookup_state [of sha256 env leaseID secret r w] assms(3) n by simp_all
  have ag: "live_lease now h = live_lease now r" using assms(2) n by (simp add: agree_def)
  have found: "out = Some rec \<longleftrightarrow> live_lease now h leaseID rec \<and> lease_SecretDigest rec = sha256 secret" for rec
    using Lookup_result [of sha256 env leaseID secret r w rec] assms(3) n
    unfolding ag by (simp add: live_lease_def conj_ac)
  let ?out = "case reg_leases h leaseID of None \<Rightarrow> None
      | Some rec \<Rightarrow> if lease_SecretDigest rec = sha256 secret \<and> now < lease_ExpiresAt rec then Some rec else None"
  have "out = Some rec \<longleftrightarrow> ?out = Some rec" for rec
    unfolding found by (cases "reg_leases h leaseID") (auto simp: live_lease_def)
  then have "out = ?out" by (rule option_eqI)
  then have "ideal_Lookup sha256 env leaseID secret h w = (out, h, w')" by (simp add: ideal_Lookup_def n r')
  moreover have "now \<le> fst (env_Now env w')" using assms(1) n r' unfolding forward_clock_def by (metis fst_conv snd_conv)
  ultimately show thesis
    using that assms(2) n r' agree_prune [of now h r] agree_later by auto
qed

lemma Issue_simulates:
  assumes "forward_clock env" "agree (fst (env_Now env w)) h r"
    and "Issue sha256 env acq r w = (out, r', w')"
  obtains h' where "ideal_Issue sha256 env acq h w = (out, h', w')" "agree (fst (env_Now env w')) h' r'"
proof -
  note part = newLeasePart_clock [OF assms(1)]
  obtain i w1 where i: "newLeasePart env w = (i, w1)" by fastforce
  obtain s w2 where s: "newLeasePart env w1 = (s, w2)" by fastforce
  obtain now w3 where n: "env_Now env w2 = (now, w3)" by fastforce
  have c: "fst (env_Now env w) \<le> fst (env_Now env w1)" "fst (env_Now env w1) \<le> now"
    using part [of w] part [of w1] i s n by simp_all
  have c3: "now \<le> fst (env_Now env w3)" using assms(1) n unfolding forward_clock_def by (metis fst_conv snd_conv)
  have ag: "agree (fst (env_Now env w1)) h r" "agree now h r"
    using agree_later [OF assms(2)] c by (meson order_trans)+
  have same: "reg_socksPublicAddr h = reg_socksPublicAddr r" "reg_httpProxyPublicAddr h = reg_httpProxyPublicAddr r"
    "reg_ttl h = reg_ttl r" using assms(2) by (simp_all add: agree_def)
  show thesis
  proof (cases "\<exists>t leaseID secret. acq_Tunnel acq = Some t \<and> leasable acq \<and> i = Inr leaseID \<and> s = Inr secret")
    case True
    then obtain t leaseID secret where ok: "acq_Tunnel acq = Some t" "leasable acq" "i = Inr leaseID" "s = Inr secret"
      by blast
    let ?rec = "lease_record sha256 acq t secret (now + reg_ttl r)"
    have "agree (fst (env_Now env w3)) (h\<lparr> reg_leases := (reg_leases h)(leaseID \<mapsto> ?rec) \<rparr>)
        ((pruneExpiredLocked now r)\<lparr> reg_leases := (reg_leases (pruneExpiredLocked now r))(leaseID \<mapsto> ?rec) \<rparr>)"
      by (rule agree_later [OF agree_add [OF agree_prune [OF ag(2)]] c3])
    then show thesis
      using assms(3) ok i s n same by (intro that) (auto simp: Issue_def ideal_Issue_def Let_def)
  next
    case False
    have ag2: "agree (fst (env_Now env w2)) h r" using ag(2) n by simp
    show thesis
      using False assms(2,3) ag(1) ag2 i s
      by (intro that [of h]) (auto simp: Issue_def ideal_Issue_def split: option.splits if_splits sum.splits)
  qed
qed

text \<open>C24: the registry refines one that never forgets. As long as the clock does not go back, every
  sequence of issues and lookups has the same results on the registry, which drops expired leases
  whenever it is used, as on a registry that keeps all leases and checks the expiry at each lookup.\<close>

theorem registry_refines:
  assumes "forward_clock env"
  shows "registry_runs sha256 env ops (newLeaseRegistry sa ha ttl) w =
         ideal_runs sha256 env ops (newLeaseRegistry sa ha ttl) w"
proof -
  have "agree (fst (env_Now env w)) h r \<Longrightarrow> registry_runs sha256 env ops r w = ideal_runs sha256 env ops h w" for h r w
  proof (induction ops arbitrary: h r w)
    case (Cons op ops)
    show ?case
    proof (cases op)
      case (OpIssue acq)
      obtain out r' w' where s: "Issue sha256 env acq r w = (out, r', w')" by (metis surj_pair)
      show ?thesis
        by (rule Issue_simulates [OF assms Cons.prems s]) (simp add: OpIssue s Cons.IH)
    next
      case (OpLookup leaseID secret)
      obtain out r' w' where s: "Lookup sha256 env leaseID secret r w = (out, r', w')" by (metis surj_pair)
      show ?thesis
        by (rule Lookup_simulates [OF assms Cons.prems s]) (simp add: OpLookup s Cons.IH)
    qed
  qed simp
  then show ?thesis by (simp add: agree_def)
qed

theorem registry_refines_witness:
  "registry_runs rev demo_env [OpIssue demo_acq, OpLookup ''x'' ''y''] (newLeaseRegistry ''a:1'' ''b:2'' 5) 0 =
   ideal_runs rev demo_env [OpIssue demo_acq, OpLookup ''x'' ''y''] (newLeaseRegistry ''a:1'' ''b:2'' 5) 0"
proof -
  have "forward_clock demo_env" by (simp add: forward_clock_def demo_env_def)
  then show ?thesis by (rule registry_refines)
qed

end
