(* ===== verification/Routing.thy ===== *)
theory Routing
  imports Go_Prelude
begin

text \<open>
  The country router of \<^verbatim>\<open>internal/pkg/services/pr0xteus/routing.go\<close>: loading
  \<^verbatim>\<open>egress-routing.yaml\<close> and resolving a country code to a pool name. Reading the file and
  decoding YAML are the parameters \<open>readFile\<close> and \<open>unmarshal\<close>; the decoded
  \<^verbatim>\<open>country_to_pool\<close> map is the list of its entries in the order the loader visits them.
\<close>

record routingFile =
  rf_CountryToPool :: "(string \<times> string) list"
  rf_DefaultPool :: string

record Router =
  countryToPool :: "string \<rightharpoonup> string"
  defaultPool :: string

definition route_key :: "(string \<Rightarrow> string) \<Rightarrow> string \<Rightarrow> string" where
  "route_key ul cc = to_lower ul (trim_space cc)"

fun normalize_routes ::
  "(string \<Rightarrow> string) \<Rightarrow> string set \<Rightarrow> (string \<times> string) list \<Rightarrow> (string \<rightharpoonup> string)
   \<Rightarrow> error + (string \<rightharpoonup> string)" where
  "normalize_routes ul known [] acc = Inr acc"
| "normalize_routes ul known ((cc, pool) # es) acc =
     (if pool \<notin> known then Inl ErrConfigInvalid
      else normalize_routes ul known es (acc(route_key ul cc \<mapsto> pool)))"

definition choose_default :: "routingFile \<Rightarrow> string \<Rightarrow> string" where
  "choose_default parsed fallbackDefault =
     (if rf_DefaultPool parsed = '''' then fallbackDefault else rf_DefaultPool parsed)"

definition LoadRouter ::
  "(string \<Rightarrow> string) \<Rightarrow> (string \<Rightarrow> string option) \<Rightarrow> (string \<Rightarrow> routingFile option)
   \<Rightarrow> string \<Rightarrow> string \<Rightarrow> string set \<Rightarrow> error + Router" where
  "LoadRouter ul readFile unmarshal path fallbackDefault known =
     (case readFile path of
        None \<Rightarrow> Inl ErrConfigInvalid
      | Some raw \<Rightarrow>
        (case unmarshal raw of
           None \<Rightarrow> Inl ErrConfigInvalid
         | Some parsed \<Rightarrow>
           (case normalize_routes ul known (rf_CountryToPool parsed) Map.empty of
              Inl e \<Rightarrow> Inl e
            | Inr normalized \<Rightarrow>
              (let dp = choose_default parsed fallbackDefault in
               if dp \<noteq> '''' \<and> dp \<notin> known then Inl ErrConfigInvalid
               else Inr \<lparr>countryToPool = normalized, defaultPool = dp\<rparr>))))"

definition Resolve :: "(string \<Rightarrow> string) \<Rightarrow> Router \<Rightarrow> string \<Rightarrow> error + string" where
  "Resolve ul r country =
     (case countryToPool r (route_key ul country) of
        Some pool \<Rightarrow> Inr pool
      | None \<Rightarrow>
        if defaultPool r = '''' then Inl ErrInvalidCountry else Inr (defaultPool r))"

definition Countries :: "string list \<Rightarrow> string list" where
  "Countries order = sort order"

section \<open>Lemmas\<close>

lemma normalize_routes_map:
  "normalize_routes ul known es acc =
     (if \<forall>e \<in> set es. snd e \<in> known
      then Inr (acc ++ map_of (rev (map (\<lambda>(cc, p). (route_key ul cc, p)) es)))
      else Inl ErrConfigInvalid)"
  by (induction es arbitrary: acc) force+

lemma normalize_routes_Inr:
  "normalize_routes ul known es Map.empty = Inr m \<longleftrightarrow>
     (\<forall>e \<in> set es. snd e \<in> known)
     \<and> m = map_of (rev (map (\<lambda>(cc, p). (route_key ul cc, p)) es))"
  by (auto simp: normalize_routes_map)

lemma LoadRouter_Inr:
  "LoadRouter ul readFile unmarshal path fd known = Inr r \<longleftrightarrow>
     (\<exists>raw parsed. readFile path = Some raw \<and> unmarshal raw = Some parsed
       \<and> (\<forall>e \<in> set (rf_CountryToPool parsed). snd e \<in> known)
       \<and> (choose_default parsed fd = '''' \<or> choose_default parsed fd \<in> known)
       \<and> r = \<lparr>countryToPool =
                map_of (rev (map (\<lambda>(cc, p). (route_key ul cc, p)) (rf_CountryToPool parsed))),
              defaultPool = choose_default parsed fd\<rparr>)"
  unfolding LoadRouter_def normalize_routes_map
  by (auto simp: Let_def split: option.splits if_splits)

lemma LoadRouter_range:
  "LoadRouter ul readFile unmarshal path fd known = Inr r \<Longrightarrow> ran (countryToPool r) \<subseteq> known"
  by (fastforce simp: LoadRouter_Inr ran_def dest: map_of_SomeD)

lemma Resolve_known:
  assumes "LoadRouter ul readFile unmarshal path fd known = Inr r"
    and "Resolve ul r country = Inr pool"
  shows "pool \<in> known"
proof (cases "countryToPool r (route_key ul country)")
  case (Some p)
  with assms show ?thesis
    using LoadRouter_range [OF assms(1)] by (auto simp: Resolve_def ran_def)
next
  case None
  with assms show ?thesis
    by (auto simp: Resolve_def LoadRouter_Inr split: if_splits)
qed

lemma Resolve_key_cong: "route_key ul c = route_key ul d \<Longrightarrow> Resolve ul r c = Resolve ul r d"
  by (simp add: Resolve_def)

lemma Resolve_errors: "Resolve ul r c = Inl e \<Longrightarrow> e = ErrInvalidCountry"
  by (auto simp: Resolve_def split: option.splits if_splits)

section \<open>Properties\<close>

text \<open>a router that loaded never sends a country to a pool outside \<^verbatim>\<open>pools.yaml\<close>: every pool
  that \<^verbatim>\<open>Resolve\<close> returns, mapped or default, is one of the pools the loader was given.\<close>

theorem routing_closed:
  assumes "LoadRouter ul readFile unmarshal path fd known = Inr r"
  shows "Resolve ul r country = Inr pool \<longrightarrow> pool \<in> known"
  using Resolve_known [OF assms] by blast

definition demo_routing :: routingFile where
  "demo_routing = \<lparr>rf_CountryToPool = [(''RU '', ''ee''), (''us'', ''na'')], rf_DefaultPool = ''''\<rparr>"

definition demo_router :: Router where
  "demo_router = \<lparr>countryToPool = [''us'' \<mapsto> ''na'', ''ru'' \<mapsto> ''ee''], defaultPool = ''na''\<rparr>"

lemma demo_keys [simp]:
  "route_key id ''RU '' = ''ru''" "route_key id ''us'' = ''us''" "route_key id '' rU'' = ''ru''"
  by code_simp+

lemma demo_loads:
  "LoadRouter id (\<lambda>_. Some ''yaml'') (\<lambda>_. Some demo_routing) ''f'' ''na'' {''ee'', ''na''}
   = Inr demo_router"
  by (simp add: LoadRouter_def demo_routing_def demo_router_def choose_default_def Let_def fun_eq_iff)

theorem routing_closed_witness:
  "LoadRouter id (\<lambda>_. Some ''yaml'') (\<lambda>_. Some demo_routing) ''f'' ''na'' {''ee'', ''na''}
     = Inr demo_router
   \<and> Resolve id demo_router '' rU'' = Inr ''ee''
   \<and> ''ee'' \<in> {''ee'', ''na'' :: string}"
  using routing_closed [OF demo_loads, of "'' rU''" "''ee''"]
  by (simp add: demo_loads demo_router_def Resolve_def)

text \<open>a country the operator mapped reaches exactly the mapped pool under every spelling with
  the same trimmed lower-case key (when no two entries share a key); an unmapped country reaches
  the file's default pool, or the configured one when the file names none, and is
  \<^verbatim>\<open>ErrInvalidCountry\<close> exactly when neither is set.\<close>

theorem routing_resolves:
  assumes "LoadRouter ul readFile unmarshal path fd known = Inr r"
    and "readFile path = Some raw" and "unmarshal raw = Some parsed"
    and "distinct (map (route_key ul \<circ> fst) (rf_CountryToPool parsed))"
  shows "Resolve ul r country =
     (case map_of (map (\<lambda>(cc, p). (route_key ul cc, p)) (rf_CountryToPool parsed))
             (route_key ul country) of
        Some pool \<Rightarrow> Inr pool
      | None \<Rightarrow>
          if rf_DefaultPool parsed \<noteq> '''' then Inr (rf_DefaultPool parsed)
          else if fd \<noteq> '''' then Inr fd
          else Inl ErrInvalidCountry)"
proof -
  let ?es = "map (\<lambda>(cc, p). (route_key ul cc, p)) (rf_CountryToPool parsed)"
  have "map fst ?es = map (route_key ul \<circ> fst) (rf_CountryToPool parsed)"
    by auto
  then have "distinct (map fst ?es)"
    using assms(4) by (simp only:)
  then have "map_of (rev ?es) = map_of ?es"
    by (rule map_of_rev)
  then show ?thesis
    using assms(1-3)
    by (auto simp: LoadRouter_Inr Resolve_def choose_default_def split: option.splits)
qed

theorem routing_resolves_witness:
  "distinct (map (route_key id \<circ> fst) (rf_CountryToPool demo_routing))
   \<and> Resolve id demo_router ''RU '' = Inr ''ee''"
proof -
  have d: "distinct (map (route_key id \<circ> fst) (rf_CountryToPool demo_routing))"
    by (simp add: demo_routing_def)
  show ?thesis
    using d routing_resolves [OF demo_loads refl refl d, of "''RU ''"]
    by (simp add: demo_routing_def)
qed

text \<open>
  When two entries differ only in case or surrounding space, the pool that wins is the one the
  loader visits last, and the order in which Go ranges over the decoded map is unspecified.
\<close>

lemma routing_order_dependent:
  "normalize_routes id {''a'', ''b''} [(''RU '', ''a''), ('' rU'', ''b'')] Map.empty
     = Inr [''ru'' \<mapsto> ''b'']
   \<and> normalize_routes id {''a'', ''b''} [('' rU'', ''b''), (''RU '', ''a'')] Map.empty
     = Inr [''ru'' \<mapsto> ''a'']"
  by simp

lemma Countries_sorted:
  assumes "range_order order (countryToPool r)"
  shows "sorted (Countries order) \<and> set (Countries order) = dom (countryToPool r)
    \<and> distinct (Countries order)"
  using assms by (simp add: Countries_def range_order_def)

end
