(* ===== verification/Config.thy ===== *)
theory Config
  imports Go_Prelude
begin

text \<open>
  The configuration of the controller (\<^verbatim>\<open>config.go\<close>): the settings record, the checks of
  \<^verbatim>\<open>LoadConfig\<close>, and the accessors with their defaults. Filling the record from the environment is
  the job of the library \<^verbatim>\<open>gonfiguration\<close>; its result is the parameter \<open>parsed\<close>. The parts of
  \<^verbatim>\<open>net\<close> and \<^verbatim>\<open>strconv\<close> that the checks use, \<^verbatim>\<open>SplitHostPort\<close> and \<^verbatim>\<open>Atoi\<close>, are modelled here.
\<close>

section \<open>Numbers and addresses\<close>

definition digit_val :: "char \<Rightarrow> int" where
  "digit_val c = int (of_char c) - 48"

definition is_dec :: "char \<Rightarrow> bool" where
  "is_dec c \<longleftrightarrow> CHR ''0'' \<le> c \<and> c \<le> CHR ''9''"

definition dec_val :: "string \<Rightarrow> int" where
  "dec_val s = foldl (\<lambda>n c. 10 * n + digit_val c) 0 s"

text \<open>\<^verbatim>\<open>strconv.Atoi\<close> for a 64-bit \<^verbatim>\<open>int\<close>: an optional sign and at least one digit, in range.\<close>

definition Atoi :: "string \<Rightarrow> int option" where
  "Atoi s =
     (let (neg, ds) = (case s of
                         c # r \<Rightarrow> if c = CHR ''-'' then (True, r)
                                  else if c = CHR ''+'' then (False, r) else (False, s)
                       | [] \<Rightarrow> (False, s));
          v = (if neg then - dec_val ds else dec_val ds)
      in if ds = [] \<or> \<not> list_all is_dec ds then None
         else if v < -9223372036854775808 \<or> v > 9223372036854775807 then None
         else Some v)"

text \<open>\<^verbatim>\<open>net.SplitHostPort\<close>; \<open>i\<close> is the position of the last colon.\<close>

definition last_index :: "char \<Rightarrow> string \<Rightarrow> nat option" where
  "last_index c s =
     (if c \<in> set s then Some (length s - 1 - length (takeWhile (\<lambda>x. x \<noteq> c) (rev s))) else None)"

definition index_byte :: "char \<Rightarrow> string \<Rightarrow> nat option" where
  "index_byte c s = (if c \<in> set s then Some (length (takeWhile (\<lambda>x. x \<noteq> c) s)) else None)"

definition SplitHostPort :: "string \<Rightarrow> (string \<times> string) option" where
  "SplitHostPort hostport =
     (case last_index CHR '':'' hostport of
        None \<Rightarrow> None
      | Some i \<Rightarrow>
          (case (if hd hostport = CHR ''[''
                 then (case index_byte CHR '']'' hostport of
                         None \<Rightarrow> None
                       | Some e \<Rightarrow> if e + 1 = i then Some (take (e - 1) (drop 1 hostport), 1, e + 1)
                                  else None)
                 else (let host = take i hostport
                       in if CHR '':'' \<in> set host then None else Some (host, 0, 0))) of
             None \<Rightarrow> None
           | Some (host, j, k) \<Rightarrow>
               if CHR ''['' \<in> set (drop j hostport) then None
               else if CHR '']'' \<in> set (drop k hostport) then None
               else Some (host, drop (i + 1) hostport)))"

section \<open>The settings\<close>

record Config =
  cfg_HTTPAddr :: string
  cfg_MetricsAddr :: string
  cfg_SOCKSAddr :: string
  cfg_SOCKSPublicAddr :: string
  cfg_HTTPProxyAddr :: string
  cfg_HTTPProxyPublicAddr :: string
  cfg_ProxyLeaseTTL :: duration
  cfg_PoolsFile :: string
  cfg_BundleDir :: string
  cfg_RoutingFile :: string
  cfg_DefaultPool :: string
  cfg_IdleTimeout :: duration
  cfg_SpawnTimeout :: duration
  cfg_HealthCheckInterval :: duration
  cfg_HealthHandshakeMaxAge :: duration
  cfg_FailureCacheTTL :: duration
  cfg_CellImage :: string
  cfg_CellSocksPort :: int
  cfg_CellControlPort :: int
  cfg_ParentID :: string
  cfg_CellNetwork :: string
  cfg_CellControlNetwork :: string
  cfg_ManagedScope :: string
  cfg_DockerHost :: string
  cfg_APIToken :: string

definition maxAPITokenBytes :: nat where
  "maxAPITokenBytes = 4096"

definition minPort :: int where
  "minPort = 1"

definition maxPort :: int where
  "maxPort = 65535"

definition cellImageForVersion :: "string \<Rightarrow> string" where
  "cellImageForVersion version =
     (let version = trim_space version;
          version = (if version = '''' then ''dev'' else version)
      in ''psyb0t/pr0xteus'' @ '':cell-'' @ version)"

definition validateTCPAddress :: "string \<Rightarrow> bool \<Rightarrow> error option" where
  "validateTCPAddress address allowEmptyHost =
     (case SplitHostPort address of
        None \<Rightarrow> Some ErrConfigInvalid
      | Some (host, rawPort) \<Rightarrow>
          if \<not> allowEmptyHost \<and> trim_space host = '''' then Some ErrConfigInvalid
          else (case Atoi rawPort of
                  None \<Rightarrow> Some ErrConfigInvalid
                | Some port \<Rightarrow>
                    if port < minPort \<or> port > maxPort then Some ErrConfigInvalid else None))"

fun validate_each :: "(string \<times> bool) list \<Rightarrow> error option" where
  "validate_each [] = None"
| "validate_each ((v, allowAnyHost) # checks) =
     (case validateTCPAddress v allowAnyHost of
        Some e \<Rightarrow> Some e
      | None \<Rightarrow> validate_each checks)"

definition validateProxyAddresses :: "Config \<Rightarrow> error option" where
  "validateProxyAddresses cfg =
     validate_each
       [(cfg_SOCKSAddr cfg, True), (cfg_SOCKSPublicAddr cfg, False),
        (cfg_HTTPProxyAddr cfg, True), (cfg_HTTPProxyPublicAddr cfg, False)]"

definition validateCellPorts :: "Config \<Rightarrow> error option" where
  "validateCellPorts cfg =
     (if cfg_CellSocksPort cfg < minPort \<or> cfg_CellSocksPort cfg > maxPort then Some ErrConfigInvalid
      else if cfg_CellControlPort cfg < minPort \<or> cfg_CellControlPort cfg > maxPort
      then Some ErrConfigInvalid
      else if cfg_CellControlPort cfg = cfg_CellSocksPort cfg then Some ErrConfigInvalid
      else None)"

definition validatePorts :: "Config \<Rightarrow> error option" where
  "validatePorts cfg =
     (case validateProxyAddresses cfg of
        Some e \<Rightarrow> Some e
      | None \<Rightarrow>
          if cfg_ProxyLeaseTTL cfg \<le> 0 then Some ErrConfigInvalid else validateCellPorts cfg)"

definition resolveParentID :: "(error + string) \<Rightarrow> Config \<Rightarrow> Config" where
  "resolveParentID hostname cfg =
     (if trim_space (cfg_ParentID cfg) \<noteq> '''' then cfg
      else case hostname of
             Inl _ \<Rightarrow> cfg
           | Inr h \<Rightarrow> cfg\<lparr> cfg_ParentID := trim_space h \<rparr>)"

definition ValidateAPIToken :: "string \<Rightarrow> error + string" where
  "ValidateAPIToken raw =
     (let token = trim_space raw
      in if length token > maxAPITokenBytes then Inl ErrConfigInvalid
         else if length token = 0 then Inl ErrConfigInvalid
         else Inr token)"

text \<open>
  \<open>parsed\<close> is what \<^verbatim>\<open>gonfiguration.Parse\<close> made of the environment, \<open>hostname\<close> the result of
  \<^verbatim>\<open>os.Hostname\<close>, and \<open>cellImage\<close> the value \<^verbatim>\<open>configuredCellImageValue\<close> returns, which
  \<^verbatim>\<open>ConfigureCellImageVersion\<close> set to \<^const>\<open>cellImageForVersion\<close> of the build version.
\<close>

definition LoadConfig :: "(error + Config) \<Rightarrow> (error + string) \<Rightarrow> string \<Rightarrow> error + Config" where
  "LoadConfig parsed hostname cellImage =
     (case parsed of
        Inl e \<Rightarrow> Inl e
      | Inr cfg \<Rightarrow>
          let cfg = cfg\<lparr> cfg_CellImage := cellImage \<rparr>
          in case validatePorts cfg of
               Some e \<Rightarrow> Inl e
             | None \<Rightarrow>
                 let cfg = resolveParentID hostname cfg
                 in case ValidateAPIToken (cfg_APIToken cfg) of
                      Inl e \<Rightarrow> Inl e
                    | Inr _ \<Rightarrow>
                        if trim_space (cfg_ManagedScope cfg) = '''' then Inl ErrConfigInvalid
                        else Inr cfg)"

definition socksPublicAddr :: "Config \<Rightarrow> string" where
  "socksPublicAddr cfg =
     (if cfg_SOCKSPublicAddr cfg \<noteq> '''' then cfg_SOCKSPublicAddr cfg else ''127.0.0.1:1080'')"

definition socksListenAddr :: "Config \<Rightarrow> string" where
  "socksListenAddr cfg = (if cfg_SOCKSAddr cfg \<noteq> '''' then cfg_SOCKSAddr cfg else '':1080'')"

definition httpProxyPublicAddr :: "Config \<Rightarrow> string" where
  "httpProxyPublicAddr cfg =
     (if cfg_HTTPProxyPublicAddr cfg \<noteq> '''' then cfg_HTTPProxyPublicAddr cfg else ''127.0.0.1:8080'')"

definition httpProxyListenAddr :: "Config \<Rightarrow> string" where
  "httpProxyListenAddr cfg =
     (if cfg_HTTPProxyAddr cfg \<noteq> '''' then cfg_HTTPProxyAddr cfg else '':8080'')"

definition proxyLeaseTTL :: "Config \<Rightarrow> duration" where
  "proxyLeaseTTL cfg =
     (if cfg_ProxyLeaseTTL cfg > 0 then cfg_ProxyLeaseTTL cfg else 15 * minute)"

lemmas config_checks =
  validatePorts_def validateProxyAddresses_def validateCellPorts_def ValidateAPIToken_def
  resolveParentID_def LoadConfig_def

section \<open>What the checks establish\<close>

lemma last_index_Some:
  assumes "last_index c s = Some i"
  shows "s = take i s @ c # drop (i + 1) s \<and> c \<notin> set (drop (i + 1) s)"
proof -
  have c: "c \<in> set (rev s)"
    and i: "i = length s - 1 - length (takeWhile (\<lambda>x. x \<noteq> c) (rev s))"
    using assms by (auto simp: last_index_def split: if_splits)
  obtain t u where u: "rev s = t @ c # u" "c \<notin> set t"
    using c split_list_first by metis
  then have "takeWhile (\<lambda>x. x \<noteq> c) (rev s) = t"
    by (auto simp: takeWhile_append)
  moreover have s: "s = rev u @ c # rev t"
    using arg_cong [OF u(1), of rev] by simp
  ultimately have "i = length (rev u)" using i by simp
  then show ?thesis using s u(2) by simp
qed

text \<open>A split address is the host, a colon and the port, with brackets around an IPv6 host.\<close>

lemma SplitHostPort_Some:
  assumes "SplitHostPort s = Some (host, port)"
  shows "(s = host @ CHR '':'' # port \<or> s = CHR ''['' # host @ '']:'' @ port) \<and> CHR '':'' \<notin> set port"
proof -
  obtain i where i: "last_index CHR '':'' s = Some i"
    using assms by (auto simp: SplitHostPort_def split: option.splits)
  note li = last_index_Some [OF i]
  have port: "port = drop (i + 1) s"
    using assms i by (auto simp: SplitHostPort_def split: option.splits if_splits)
  show ?thesis
  proof (cases "hd s = CHR ''[''")
    case False
    then have "host = take i s"
      using assms i by (auto simp: SplitHostPort_def Let_def split: option.splits if_splits)
    with port li show ?thesis by simp
  next
    case True
    then obtain e where e: "index_byte CHR '']'' s = Some e" "e + 1 = i" "host = take (e - 1) (drop 1 s)"
      using assms i by (auto simp: SplitHostPort_def Let_def split: option.splits if_splits)
    have "CHR '']'' \<in> set s"
      using e(1) by (auto simp: index_byte_def split: if_splits)
    then obtain t u where s: "s = t @ CHR '']'' # u" "CHR '']'' \<notin> set t"
      using split_list_first by metis
    then have "e = length t"
      using e(1) by (auto simp: index_byte_def takeWhile_append split: if_splits)
    moreover obtain t' where "t = CHR ''['' # t'"
      using True s by (cases t) auto
    ultimately have "take i s = CHR ''['' # host @ '']''"
      using s(1) e(2,3) by (cases i) auto
    with port li show ?thesis by (metis append_Cons append_assoc append_Nil)
  qed
qed

definition tcp_address :: "bool \<Rightarrow> string \<Rightarrow> bool" where
  "tcp_address allowEmptyHost s \<longleftrightarrow>
     (\<exists>host rawPort port. SplitHostPort s = Some (host, rawPort) \<and> Atoi rawPort = Some port
        \<and> 1 \<le> port \<and> port \<le> 65535 \<and> (allowEmptyHost \<or> trim_space host \<noteq> ''''))"

lemma validateTCPAddress_None: "validateTCPAddress s any = None \<longleftrightarrow> tcp_address any s"
  by (auto simp: validateTCPAddress_def tcp_address_def minPort_def maxPort_def not_less
      split: option.splits)

lemma validate_each_None:
  "validate_each cs = None \<longleftrightarrow> (\<forall>(s, any) \<in> set cs. tcp_address any s)"
proof (induction cs)
  case (Cons c cs)
  obtain s any where "c = (s, any)" by (cases c)
  then show ?case
    using Cons validateTCPAddress_None [of s any] by (cases "validateTCPAddress s any") auto
qed simp

lemma validatePorts_None:
  "validatePorts cfg = None \<longleftrightarrow>
     tcp_address True (cfg_SOCKSAddr cfg) \<and> tcp_address False (cfg_SOCKSPublicAddr cfg)
     \<and> tcp_address True (cfg_HTTPProxyAddr cfg) \<and> tcp_address False (cfg_HTTPProxyPublicAddr cfg)
     \<and> 0 < cfg_ProxyLeaseTTL cfg
     \<and> cfg_CellSocksPort cfg \<in> {1..65535} \<and> cfg_CellControlPort cfg \<in> {1..65535}
     \<and> cfg_CellControlPort cfg \<noteq> cfg_CellSocksPort cfg"
proof -
  let ?cs = "[(cfg_SOCKSAddr cfg, True), (cfg_SOCKSPublicAddr cfg, False),
        (cfg_HTTPProxyAddr cfg, True), (cfg_HTTPProxyPublicAddr cfg, False)]"
  have "validatePorts cfg = None \<longleftrightarrow>
      validate_each ?cs = None \<and> 0 < cfg_ProxyLeaseTTL cfg \<and> validateCellPorts cfg = None"
    by (simp add: validatePorts_def validateProxyAddresses_def not_le
        del: validate_each.simps split: option.split)
  moreover have "validateCellPorts cfg = None \<longleftrightarrow>
      cfg_CellSocksPort cfg \<in> {1..65535} \<and> cfg_CellControlPort cfg \<in> {1..65535}
      \<and> cfg_CellControlPort cfg \<noteq> cfg_CellSocksPort cfg"
    by (auto simp: validateCellPorts_def minPort_def maxPort_def)
  ultimately show ?thesis
    by (simp add: validate_each_None del: validate_each.simps)
qed

lemma ValidateAPIToken_Inr:
  "(\<exists>t. ValidateAPIToken raw = Inr t) \<longleftrightarrow> length (trim_space raw) \<in> {1..4096}"
  by (auto simp: ValidateAPIToken_def maxAPITokenBytes_def Let_def not_less Suc_le_eq)

lemma resolveParentID_alt:
  "resolveParentID hostname cfg =
     cfg\<lparr> cfg_ParentID := (if trim_space (cfg_ParentID cfg) \<noteq> '''' then cfg_ParentID cfg
            else case hostname of Inl _ \<Rightarrow> cfg_ParentID cfg | Inr h \<Rightarrow> trim_space h) \<rparr>"
  by (auto simp: resolveParentID_def split: sum.splits)

text \<open>the configuration loader accepts exactly the usable settings. It succeeds if and only if
  the four proxy addresses are host and port with a port between 1 and 65535 (and a host, for the
  two public ones), the lease lifetime is positive, the two cell ports are in range and differ,
  the trimmed token has 1 to 4096 bytes, and the managed scope is not blank; the settings are then
  unchanged but for the cell image, which is the one paired with the controller, and a blank
  parent identifier, which becomes the host name.\<close>

theorem LoadConfig_accepts_iff:
  "LoadConfig parsed hostname cellImage = Inr cfg' \<longleftrightarrow>
     (\<exists>cfg. parsed = Inr cfg
        \<and> tcp_address True (cfg_SOCKSAddr cfg) \<and> tcp_address False (cfg_SOCKSPublicAddr cfg)
        \<and> tcp_address True (cfg_HTTPProxyAddr cfg) \<and> tcp_address False (cfg_HTTPProxyPublicAddr cfg)
        \<and> 0 < cfg_ProxyLeaseTTL cfg
        \<and> cfg_CellSocksPort cfg \<in> {1..65535} \<and> cfg_CellControlPort cfg \<in> {1..65535}
        \<and> cfg_CellControlPort cfg \<noteq> cfg_CellSocksPort cfg
        \<and> length (trim_space (cfg_APIToken cfg)) \<in> {1..4096}
        \<and> trim_space (cfg_ManagedScope cfg) \<noteq> ''''
        \<and> cfg' = cfg\<lparr> cfg_CellImage := cellImage,
             cfg_ParentID := (if trim_space (cfg_ParentID cfg) \<noteq> '''' then cfg_ParentID cfg
               else case hostname of Inl _ \<Rightarrow> cfg_ParentID cfg | Inr h \<Rightarrow> trim_space h) \<rparr>)"
proof (cases parsed)
  case (Inl e)
  then show ?thesis by (simp add: LoadConfig_def)
next
  case (Inr cfg)
  let ?c1 = "cfg\<lparr> cfg_CellImage := cellImage \<rparr>"
  let ?c2 = "resolveParentID hostname ?c1"
  have "LoadConfig parsed hostname cellImage = Inr cfg' \<longleftrightarrow>
      validatePorts ?c1 = None \<and> (\<exists>t. ValidateAPIToken (cfg_APIToken ?c2) = Inr t)
      \<and> trim_space (cfg_ManagedScope ?c2) \<noteq> '''' \<and> cfg' = ?c2"
    by (simp add: LoadConfig_def Inr Let_def split: option.split sum.split) blast
  moreover have "cfg_APIToken ?c2 = cfg_APIToken cfg" "cfg_ManagedScope ?c2 = cfg_ManagedScope cfg"
    by (simp_all add: resolveParentID_alt)
  ultimately show ?thesis
    unfolding ValidateAPIToken_Inr validatePorts_None
    by (cases hostname) (simp_all add: Inr resolveParentID_alt)
qed

end
