(* ===== verification/Manager.thy ===== *)
theory Manager
  imports Pool Lease Routing Config
begin

text \<open>
  The manager of the pools (\<^verbatim>\<open>pool.go\<close>, from \<^verbatim>\<open>type Manager\<close> on): acquiring a tunnel for a
  country, a pool or a lease, spawning a cell when a pool has no usable tunnel, falling back to
  another pool, releasing, issuing leases, dialling through a leased cell, and shutting down.

  The operations are those of one caller at a time; the interleaving of several callers is the
  subject of another theory. A \<^verbatim>\<open>*PoolState\<close> is shared through the map of pools: an operation on
  one takes the state and returns the new one, and its caller stores it under the name of the
  pool. The spawner is a Go interface; it is the parameter \<open>sp\<close>, a record of the functions of the
  interface over the state of the world.
\<close>

section \<open>The spawner interface\<close>

text \<open>The first argument of \<open>sp_Spawn\<close> is the time limit of the context.\<close>

record 'w Spawner =
  sp_Spawn :: "duration \<Rightarrow> SpawnRequest \<Rightarrow> 'w \<Rightarrow> (error + Tunnel) \<times> 'w"
  sp_Kill :: "string \<Rightarrow> 'w \<Rightarrow> error option \<times> 'w"
  sp_ListChildren :: "'w \<Rightarrow> (error + CellHandle list) \<times> 'w"

section \<open>The state of the manager\<close>

text \<open>
  \<open>Shared\<close> is what an acquisition touches besides its pool: the spawn mutexes created so far and
  the metrics, which are global variables in the code.
\<close>

record Shared =
  sh_spawnMu :: "string set"
  sh_metrics :: Metrics

record Manager =
  m_cfg :: Config
  m_router :: Router
  m_specs :: "string \<rightharpoonup> PoolSpec"
  m_pools :: "string \<rightharpoonup> PoolState"
  m_leases :: leaseRegistry
  m_shared :: Shared

definition NewManager ::
  "Config \<Rightarrow> (string \<rightharpoonup> PoolSpec) \<Rightarrow> Router \<Rightarrow> Metrics \<Rightarrow> Manager" where
  "NewManager cfg specs router metrics =
     \<lparr> m_cfg = cfg, m_router = router, m_specs = specs,
       m_pools = (\<lambda>name. map_option NewPoolState (specs name)),
       m_leases = newLeaseRegistry (socksPublicAddr cfg) (httpProxyPublicAddr cfg) (proxyLeaseTTL cfg),
       m_shared = \<lparr> sh_spawnMu = {}, sh_metrics = metrics \<rparr> \<rparr>"

definition put_pool :: "string \<Rightarrow> PoolState \<Rightarrow> Manager \<Rightarrow> Manager" where
  "put_pool name p m = m\<lparr> m_pools := (m_pools m)(name \<mapsto> p) \<rparr>"

definition poolMutexFor :: "string \<Rightarrow> Shared \<Rightarrow> Shared" where
  "poolMutexFor name sh = sh\<lparr> sh_spawnMu := insert name (sh_spawnMu sh) \<rparr>"

text \<open>Reading a Go map of strings: a missing key reads as the empty string.\<close>

definition map_get :: "('k \<rightharpoonup> string) \<Rightarrow> 'k \<Rightarrow> string" where
  "map_get m k = (case m k of None \<Rightarrow> '''' | Some v \<Rightarrow> v)"

section \<open>Acquiring\<close>

definition recordSpawnFailure ::
  "'w Env \<Rightarrow> string \<Rightarrow> error \<Rightarrow> PoolState \<Rightarrow> Shared \<Rightarrow> 'w \<Rightarrow> error \<times> PoolState \<times> Shared \<times> 'w" where
  "recordSpawnFailure env conf spawnErr p sh w =
     (let outcome = (if spawnErr = ErrSpawnTimeout then ''timeout'' else ''spawn_fail'');
          mx = sh_metrics sh;
          mx = mx\<lparr> TunnelSpawnsTotal := inc_label (TunnelSpawnsTotal mx) (spec_Name (ps_Spec p)) outcome \<rparr>;
          (now, w) = env_Now env w;
          p = markFailed conf now p
      in (ErrPoolUnavailable, p, sh\<lparr> sh_metrics := mx \<rparr>, w))"

text \<open>What the manager sets in a tunnel the spawner returned, before it publishes the tunnel.\<close>

definition prepare_tunnel :: "string \<Rightarrow> time \<Rightarrow> Tunnel \<Rightarrow> Tunnel" where
  "prepare_tunnel name now tunnel =
     (let tunnel = tunnel\<lparr> tun_Pool := name, tun_State := TunnelStateHot \<rparr>;
          tunnel = (case tun_ProxyURL tunnel of
                      Some u \<Rightarrow> if tun_GatewayAddr tunnel = ''''
                                then tunnel\<lparr> tun_GatewayAddr := url_Host u \<rparr> else tunnel
                    | None \<Rightarrow> tunnel)
      in tunnel\<lparr> tun_InFlight := 1, tun_LastUsedAt := now \<rparr>)"

definition spawnFromState ::
  "'w Env \<Rightarrow> 'w Spawner \<Rightarrow> Config \<Rightarrow> url option \<Rightarrow> PoolState \<Rightarrow> Shared \<Rightarrow> 'w
     \<Rightarrow> (error + Acquisition) \<times> PoolState \<times> Shared \<times> 'w" where
  "spawnFromState env sp cfg excludeProxy p sh w =
     (let name = spec_Name (ps_Spec p);
          (now, w) = env_Now env w;
          (r, w) = env_IntN env w
      in case pickConf r now (excludeConfsFor excludeProxy p) (cfg_FailureCacheTTL cfg) p of
           (Inl e, p) \<Rightarrow> (Inl e, p, sh, w)
         | (Inr conf, p) \<Rightarrow>
             let (spawnStart, w) = env_Now env w
             in case sp_Spawn sp (cfg_SpawnTimeout cfg)
                       \<lparr> req_Pool = name, req_ConfName = conf,
                         req_ExitCountry = map_get (spec_ExitCountries (ps_Spec p)) conf,
                         req_BundleDir = cfg_BundleDir cfg \<rparr> w of
                  (Inl spawnErr, w) \<Rightarrow>
                    let (e, p, sh, w) = recordSpawnFailure env conf spawnErr p sh w
                    in (Inl e, p, sh, w)
                | (Inr tunnel, w) \<Rightarrow>
                    let mx = sh_metrics sh;
                        mx = mx\<lparr> TunnelSpawnsTotal := inc_label (TunnelSpawnsTotal mx) name ''success'' \<rparr>;
                        (spawned, w) = env_Now env w;
                        mx = mx\<lparr> TunnelSpawnDuration := (TunnelSpawnDuration mx)
                               (name := TunnelSpawnDuration mx name @ [time_sub spawned spawnStart]) \<rparr>;
                        (used, w) = env_Now env w;
                        tunnel = prepare_tunnel name used tunnel;
                        (p, mx) = setTunnel (Some tunnel) mx p
                    in (Inr \<lparr> acq_Tunnel = Some tunnel, acq_Pool = name \<rparr>, p,
                        sh\<lparr> sh_metrics := mx \<rparr>, w))"

definition acquireFromState ::
  "'w Env \<Rightarrow> 'w Spawner \<Rightarrow> Config \<Rightarrow> url option \<Rightarrow> PoolState \<Rightarrow> Shared \<Rightarrow> 'w
     \<Rightarrow> (error + Acquisition) \<times> PoolState \<times> Shared \<times> 'w" where
  "acquireFromState env sp cfg excludeProxy p sh w =
     (let name = spec_Name (ps_Spec p);
          (now, w) = env_Now env w
      in case acquire excludeProxy now p of
           (Inr t, p) \<Rightarrow> (Inr \<lparr> acq_Tunnel = Some t, acq_Pool = name \<rparr>, p, sh, w)
         | (Inl _, p) \<Rightarrow>
             let sh = poolMutexFor name sh;
                 (now, w) = env_Now env w
             in case acquire excludeProxy now p of
                  (Inr t, p) \<Rightarrow> (Inr \<lparr> acq_Tunnel = Some t, acq_Pool = name \<rparr>, p, sh, w)
                | (Inl _, p) \<Rightarrow> spawnFromState env sp cfg excludeProxy p sh w)"

text \<open>Running an acquisition on the pool stored under a name.\<close>

definition acquire_in ::
  "'w Env \<Rightarrow> 'w Spawner \<Rightarrow> url option \<Rightarrow> string \<Rightarrow> PoolState \<Rightarrow> Manager \<Rightarrow> 'w
     \<Rightarrow> (error + Acquisition) \<times> Manager \<times> 'w" where
  "acquire_in env sp excludeProxy name p m w =
     (case acquireFromState env sp (m_cfg m) excludeProxy p (m_shared m) w of
        (res, p, sh, w) \<Rightarrow> (res, put_pool name p (m\<lparr> m_shared := sh \<rparr>), w))"

definition acquireFromPool ::
  "'w Env \<Rightarrow> 'w Spawner \<Rightarrow> string \<Rightarrow> url option \<Rightarrow> bool \<Rightarrow> Manager \<Rightarrow> 'w
     \<Rightarrow> (error + Acquisition) \<times> Manager \<times> 'w" where
  "acquireFromPool env sp poolName excludeProxy fallbackOK m w =
     (case m_pools m poolName of
        None \<Rightarrow> (Inl ErrUnknownPool, m, w)
      | Some p \<Rightarrow>
          (case acquire_in env sp excludeProxy poolName p m w of
             (Inr acq, m, w) \<Rightarrow> (Inr acq, m, w)
           | (Inl err, m, w) \<Rightarrow>
               let fallback = spec_FallbackPool (ps_Spec p)
               in if \<not> fallbackOK \<or> fallback = '''' then (Inl err, m, w)
                  else if err = ErrInvalidCountry then (Inl err, m, w)
                  else case m_pools m fallback of
                         None \<Rightarrow> (Inl ErrUnknownPool, m, w)
                       | Some q \<Rightarrow> acquire_in env sp excludeProxy fallback q m w))"

definition AcquireForCountry ::
  "(string \<Rightarrow> string) \<Rightarrow> 'w Env \<Rightarrow> 'w Spawner \<Rightarrow> string \<Rightarrow> url option \<Rightarrow> bool \<Rightarrow> Manager \<Rightarrow> 'w
     \<Rightarrow> (error + Acquisition) \<times> Manager \<times> 'w" where
  "AcquireForCountry ul env sp country excludeProxy fallbackOK m w =
     (case Resolve ul (m_router m) country of
        Inl e \<Rightarrow> (Inl e, m, w)
      | Inr poolName \<Rightarrow> acquireFromPool env sp poolName excludeProxy fallbackOK m w)"

definition AcquireForPool ::
  "'w Env \<Rightarrow> 'w Spawner \<Rightarrow> string \<Rightarrow> url option \<Rightarrow> bool \<Rightarrow> Manager \<Rightarrow> 'w
     \<Rightarrow> (error + Acquisition) \<times> Manager \<times> 'w" where
  "AcquireForPool env sp poolName excludeProxy fallbackOK m w =
     acquireFromPool env sp poolName excludeProxy fallbackOK m w"

section \<open>Releasing and leases\<close>

definition manager_Release :: "Acquisition \<Rightarrow> Manager \<Rightarrow> Manager" where
  "manager_Release acq m =
     (case m_pools m (acq_Pool acq) of
        None \<Rightarrow> m
      | Some p \<Rightarrow> put_pool (acq_Pool acq) (release p) m)"

definition IssueLease ::
  "(string \<Rightarrow> string) \<Rightarrow> 'w Env \<Rightarrow> Acquisition \<Rightarrow> Manager \<Rightarrow> 'w
     \<Rightarrow> (error + ProxyLease) \<times> Manager \<times> 'w" where
  "IssueLease sha256 env acq m w =
     (case Issue sha256 env acq (m_leases m) w of
        (Inl e, r, w) \<Rightarrow> (Inl e, m\<lparr> m_leases := r \<rparr>, w)
      | (Inr lease, r, w) \<Rightarrow>
          let m = m\<lparr> m_leases := r \<rparr>
          in case m_pools m (acq_Pool acq) of
               None \<Rightarrow> (Inl ErrUnknownPool, m, w)
             | Some p \<Rightarrow>
                 (case acq_Tunnel acq of
                    None \<Rightarrow> (Inr lease, m, w)
                  | Some t \<Rightarrow>
                      (Inr lease,
                       put_pool (acq_Pool acq)
                         (setLastURL (tun_ContainerID t) (px_SOCKS5 (pl_Proxies lease))
                            (pl_ExpiresAt lease) p) m, w)))"

definition ResolveExcludedProxy ::
  "(string \<Rightarrow> string option) \<Rightarrow> (string \<Rightarrow> string) \<Rightarrow> 'w Env \<Rightarrow> string \<Rightarrow> Manager \<Rightarrow> 'w
     \<Rightarrow> (error + url option) \<times> Manager \<times> 'w" where
  "ResolveExcludedProxy lit sha256 env raw m w =
     (case ParseRequestURI lit raw of
        None \<Rightarrow> (Inl ErrInvalidCountry, m, w)
      | Some proxyURL \<Rightarrow>
          if url_Scheme proxyURL \<noteq> proxySchemeSOCKS5 \<or> url_Host proxyURL = '''' \<or> url_Port proxyURL = ''''
          then (Inl ErrInvalidCountry, m, w)
          else case url_User proxyURL of
            None \<Rightarrow> (Inr (Some proxyURL), m, w)
          | Some (username, pw) \<Rightarrow>
              (case pw of
                 None \<Rightarrow> (Inl ErrInvalidCountry, m, w)
               | Some password \<Rightarrow>
                   (case Lookup sha256 env username password (m_leases m) w of
                      (None, r, w) \<Rightarrow> (Inl ErrInvalidCountry, m\<lparr> m_leases := r \<rparr>, w)
                    | (Some lease, r, w) \<Rightarrow>
                        (Inr (lease_InternalURL lease), m\<lparr> m_leases := r \<rparr>, w))))"

definition AcquireForLease ::
  "(string \<Rightarrow> string) \<Rightarrow> 'w Env \<Rightarrow> string \<Rightarrow> string \<Rightarrow> Manager \<Rightarrow> 'w
     \<Rightarrow> (error + Acquisition) \<times> Manager \<times> 'w" where
  "AcquireForLease sha256 env username password m w =
     (case Lookup sha256 env username password (m_leases m) w of
        (None, r, w) \<Rightarrow> (Inl ErrPoolUnavailable, m\<lparr> m_leases := r \<rparr>, w)
      | (Some lease, r, w) \<Rightarrow>
          let m = m\<lparr> m_leases := r \<rparr>
          in case m_pools m (lease_Pool lease) of
               None \<Rightarrow> (Inl ErrPoolUnavailable, m, w)
             | Some p \<Rightarrow>
                 let (now, w) = env_Now env w
                 in case acquireContainer (lease_ContainerID lease) now p of
                      (Inl e, p) \<Rightarrow> (Inl e, put_pool (lease_Pool lease) p m, w)
                    | (Inr t, p) \<Rightarrow>
                        (Inr \<lparr> acq_Tunnel = Some t, acq_Pool = lease_Pool lease \<rparr>,
                         put_pool (lease_Pool lease) p m, w))"

definition validLease ::
  "(string \<Rightarrow> string) \<Rightarrow> 'w Env \<Rightarrow> string \<Rightarrow> string \<Rightarrow> Manager \<Rightarrow> 'w \<Rightarrow> bool \<times> Manager \<times> 'w" where
  "validLease sha256 env username password m w =
     (case Lookup sha256 env username password (m_leases m) w of
        (rec, r, w) \<Rightarrow> (rec \<noteq> None, m\<lparr> m_leases := r \<rparr>, w))"

section \<open>Dialling through a leased cell\<close>

text \<open>
  The SOCKS5 client of \<^verbatim>\<open>golang.org/x/net/proxy\<close> as a parameter: making a dialer for a network and
  a gateway address, whether it supports contexts, dialling, and closing a connection.
\<close>

record ('u, 'c, 'w) Dialer =
  dl_SOCKS5 :: "string \<Rightarrow> string \<Rightarrow> error + 'u"
  dl_hasContext :: "'u \<Rightarrow> bool"
  dl_DialContext :: "'u \<Rightarrow> string \<Rightarrow> string \<Rightarrow> 'w \<Rightarrow> (error + 'c) \<times> 'w"
  dl_Close :: "'c \<Rightarrow> 'w \<Rightarrow> error option \<times> 'w"

text \<open>A connection that releases its acquisition the first time it is closed.\<close>

record 'c releaseConn =
  rc_Conn :: 'c
  rc_once :: bool
  rc_release :: Acquisition

definition dialLease ::
  "(string \<Rightarrow> string) \<Rightarrow> 'w Env \<Rightarrow> ('u, 'c, 'w) Dialer \<Rightarrow> string \<Rightarrow> string \<Rightarrow> string \<Rightarrow> string
     \<Rightarrow> Manager \<Rightarrow> 'w \<Rightarrow> (error + 'c releaseConn) \<times> Manager \<times> 'w" where
  "dialLease sha256 env dl username password network address m w =
     (case AcquireForLease sha256 env username password m w of
        (Inl e, m, w) \<Rightarrow> (Inl e, m, w)
      | (Inr acquisition, m, w) \<Rightarrow>
          let gateway = (case acq_Tunnel acquisition of None \<Rightarrow> '''' | Some t \<Rightarrow> tun_GatewayAddr t)
          in case dl_SOCKS5 dl network gateway of
               Inl e \<Rightarrow> (Inl e, manager_Release acquisition m, w)
             | Inr upstream \<Rightarrow>
                 if \<not> dl_hasContext dl upstream
                 then (Inl (ErrOther ''cell SOCKS5 dialer lacks context support''),
                       manager_Release acquisition m, w)
                 else case dl_DialContext dl upstream network address w of
                        (Inl e, w) \<Rightarrow> (Inl e, manager_Release acquisition m, w)
                      | (Inr connection, w) \<Rightarrow>
                          (Inr \<lparr> rc_Conn = connection, rc_once = False, rc_release = acquisition \<rparr>,
                           m, w))"

definition releaseConn_Close ::
  "('u, 'c, 'w) Dialer \<Rightarrow> 'c releaseConn \<Rightarrow> Manager \<Rightarrow> 'w
     \<Rightarrow> error option \<times> 'c releaseConn \<times> Manager \<times> 'w" where
  "releaseConn_Close dl c m w =
     (let (err, w) = dl_Close dl (rc_Conn c) w;
          (c, m) = (if rc_once c then (c, m)
                    else (c\<lparr> rc_once := True \<rparr>, manager_Release (rc_release c) m))
      in (err, c, m, w))"

section \<open>Shutting down and marking failures\<close>

text \<open>The first argument of \<^verbatim>\<open>Close\<close> below is the order in which the map of pools is visited.\<close>

fun manager_Close :: "'w Spawner \<Rightarrow> string list \<Rightarrow> Manager \<Rightarrow> 'w \<Rightarrow> Manager \<times> 'w" where
  "manager_Close sp [] m w = (m, w)"
| "manager_Close sp (poolName # names) m w =
     (case m_pools m poolName of
        None \<Rightarrow> manager_Close sp names m w
      | Some p \<Rightarrow>
          (case Snapshot p of
             None \<Rightarrow> manager_Close sp names m w
           | Some tunnel \<Rightarrow>
               if tun_ContainerID tunnel = '''' then manager_Close sp names m w
               else let (err, w) = sp_Kill sp (tun_ContainerID tunnel) w;
                        sh = m_shared m;
                        (p, mx) = setTunnel None (sh_metrics sh) p
                    in manager_Close sp names
                         (put_pool poolName p (m\<lparr> m_shared := sh\<lparr> sh_metrics := mx \<rparr> \<rparr>)) w))"

definition MarkFailed :: "'w Env \<Rightarrow> string \<Rightarrow> string \<Rightarrow> Manager \<Rightarrow> 'w \<Rightarrow> Manager \<times> 'w" where
  "MarkFailed env poolName confName m w =
     (case m_pools m poolName of
        None \<Rightarrow> (m, w)
      | Some p \<Rightarrow>
          let p = (case ps_tunnel p of
                     None \<Rightarrow> p
                   | Some t \<Rightarrow>
                       if tun_ConfName t = confName
                       then p\<lparr> ps_tunnel := Some (t\<lparr> tun_State := TunnelStateUnhealthy \<rparr>) \<rparr> else p);
              (now, w) = env_Now env w
          in (put_pool poolName (markFailed confName now p) m, w))"

section \<open>Views\<close>

text \<open>\<^verbatim>\<open>Duration.Seconds\<close> is left out of the views: an idle time is kept as a duration.\<close>

record TunnelView =
  tv_ConfName :: string
  tv_ProxyURL :: string
  tv_State :: TunnelState
  tv_ExitCountry :: string
  tv_ExitIP :: string
  tv_SpawnedAt :: time
  tv_HealthyAt :: time
  tv_LastUsedAt :: time
  tv_IdleSeconds :: duration

record PoolView =
  pv_Name :: string
  pv_Region :: string
  pv_Tunnel :: "TunnelView option"
  pv_FallbackPool :: string
  pv_ConfCount :: nat
  pv_RecentlyFailed :: nat

record ProxyView =
  xv_Pool :: string
  xv_ConfName :: string
  xv_State :: TunnelState
  xv_ExitCountry :: string
  xv_ExitIP :: string
  xv_SpawnedAt :: time
  xv_HealthyAt :: time
  xv_LastUsedAt :: time
  xv_LastURL :: string
  xv_LastURLExpiresAt :: time
  xv_IdleSeconds :: duration

definition tunnelViewOf :: "Tunnel \<Rightarrow> time \<Rightarrow> TunnelView" where
  "tunnelViewOf t now =
     \<lparr> tv_ConfName = tun_ConfName t,
       tv_ProxyURL = (case tun_ProxyURL t of None \<Rightarrow> '''' | Some u \<Rightarrow> url_String u),
       tv_State = tun_State t, tv_ExitCountry = tun_ExitCountry t, tv_ExitIP = tun_ExitIP t,
       tv_SpawnedAt = tun_SpawnedAt t, tv_HealthyAt = tun_HealthyAt t,
       tv_LastUsedAt = tun_LastUsedAt t, tv_IdleSeconds = time_sub now (tun_LastUsedAt t) \<rparr>"

definition proxyViewOf :: "string \<Rightarrow> Tunnel \<Rightarrow> time \<Rightarrow> ProxyView" where
  "proxyViewOf poolName t now =
     \<lparr> xv_Pool = poolName, xv_ConfName = tun_ConfName t, xv_State = tun_State t,
       xv_ExitCountry = tun_ExitCountry t, xv_ExitIP = tun_ExitIP t,
       xv_SpawnedAt = tun_SpawnedAt t, xv_HealthyAt = tun_HealthyAt t,
       xv_LastUsedAt = tun_LastUsedAt t, xv_LastURL = tun_LastURL t,
       xv_LastURLExpiresAt = tun_LastURLExpiresAt t,
       xv_IdleSeconds = time_sub now (tun_LastUsedAt t) \<rparr>"

text \<open>
  The loops of \<^verbatim>\<open>Views\<close> and \<^verbatim>\<open>ProxyViews\<close> over the pools in visiting order; counting the recent
  failures of a pool also drops its expired entries.
\<close>

fun views_loop :: "time \<Rightarrow> string list \<Rightarrow> Manager \<Rightarrow> PoolView list \<times> Manager" where
  "views_loop now [] m = ([], m)"
| "views_loop now (name # names) m =
     (case m_pools m name of
        None \<Rightarrow> views_loop now names m
      | Some p \<Rightarrow>
          let (n, p) = RecentlyFailedCount now (cfg_FailureCacheTTL (m_cfg m)) p;
              view = \<lparr> pv_Name = name, pv_Region = spec_Region (ps_Spec p),
                       pv_Tunnel = map_option (\<lambda>t. tunnelViewOf t now) (Snapshot p),
                       pv_FallbackPool = spec_FallbackPool (ps_Spec p),
                       pv_ConfCount = length (spec_Configs (ps_Spec p)), pv_RecentlyFailed = n \<rparr>;
              (out, m) = views_loop now names (put_pool name p m)
          in (view # out, m))"

definition Views :: "'w Env \<Rightarrow> string list \<Rightarrow> Manager \<Rightarrow> 'w \<Rightarrow> PoolView list \<times> Manager \<times> 'w" where
  "Views env order m w =
     (let (now, w) = env_Now env w; (out, m) = views_loop now order m
      in (sort_key pv_Name out, m, w))"

fun proxy_views_loop :: "time \<Rightarrow> string list \<Rightarrow> Manager \<Rightarrow> ProxyView list" where
  "proxy_views_loop now [] m = []"
| "proxy_views_loop now (name # names) m =
     (case m_pools m name of
        None \<Rightarrow> proxy_views_loop now names m
      | Some p \<Rightarrow>
          (case Snapshot p of
             None \<Rightarrow> proxy_views_loop now names m
           | Some t \<Rightarrow> proxyViewOf name t now # proxy_views_loop now names m))"

definition ProxyViews :: "'w Env \<Rightarrow> string list \<Rightarrow> Manager \<Rightarrow> 'w \<Rightarrow> ProxyView list \<times> 'w" where
  "ProxyViews env order m w =
     (let (now, w) = env_Now env w in (sort_key xv_Pool (proxy_views_loop now order m), w))"

section \<open>What an acquisition does to a pool\<close>

lemma excludeConfsFor_eq:
  "excludeConfsFor excludeProxy p =
     {conf. \<exists>t. ps_tunnel p = Some t \<and> \<not> not_excluded excludeProxy t \<and> conf = tun_ConfName t}"
  by (auto simp: excludeConfsFor_def not_excluded_def Snapshot_def split: option.splits if_splits)

definition spawn_request :: "Config \<Rightarrow> PoolSpec \<Rightarrow> string \<Rightarrow> SpawnRequest" where
  "spawn_request cfg spec conf =
     \<lparr> req_Pool = spec_Name spec, req_ConfName = conf,
       req_ExitCountry = map_get (spec_ExitCountries spec) conf, req_BundleDir = cfg_BundleDir cfg \<rparr>"

lemma prepare_tunnel_simps [simp]:
  "tun_State (prepare_tunnel name now t) = TunnelStateHot"
  "tun_Pool (prepare_tunnel name now t) = name"
  "tun_InFlight (prepare_tunnel name now t) = 1"
  "tun_LastUsedAt (prepare_tunnel name now t) = now"
  "tun_ContainerID (prepare_tunnel name now t) = tun_ContainerID t"
  "tun_ConfName (prepare_tunnel name now t) = tun_ConfName t"
  "tun_ProxyURL (prepare_tunnel name now t) = tun_ProxyURL t"
  "tun_ExitCountry (prepare_tunnel name now t) = tun_ExitCountry t"
  by (simp_all add: prepare_tunnel_def Let_def split: option.splits)

text \<open>
  The three ways a spawn ends. \<open>c\<close> is the time of the choice of the configuration, and the
  expired failures are gone afterwards in any case.
\<close>

lemma spawnFromState_cases:
  assumes wf: "pool_wf p"
    and r: "spawnFromState env sp cfg ex p sh w = (res, p', sh', w')"
  obtains
    (exhausted) c where
      "\<And>conf. \<not> candidate c (excludeConfsFor ex p) (cfg_FailureCacheTTL cfg) p conf"
      "res = Inl ErrPoolExhausted" "p' = cleanFailedLocked c (cfg_FailureCacheTTL cfg) p" "sh' = sh"
  | (failed) c conf at w1 w2 e where
      "candidate c (excludeConfsFor ex p) (cfg_FailureCacheTTL cfg) p conf"
      "sp_Spawn sp (cfg_SpawnTimeout cfg) (spawn_request cfg (ps_Spec p) conf) w1 = (Inl e, w2)"
      "res = Inl ErrPoolUnavailable"
      "p' = markFailed conf at (cleanFailedLocked c (cfg_FailureCacheTTL cfg) p)"
      "sh_spawnMu sh' = sh_spawnMu sh"
      "TunnelHotGauge (sh_metrics sh') = TunnelHotGauge (sh_metrics sh)"
  | (spawned) c conf at w1 w2 t where
      "candidate c (excludeConfsFor ex p) (cfg_FailureCacheTTL cfg) p conf"
      "sp_Spawn sp (cfg_SpawnTimeout cfg) (spawn_request cfg (ps_Spec p) conf) w1 = (Inr t, w2)"
      "res = Inr \<lparr> acq_Tunnel = Some (prepare_tunnel (spec_Name (ps_Spec p)) at t),
                   acq_Pool = spec_Name (ps_Spec p) \<rparr>"
      "p' = (cleanFailedLocked c (cfg_FailureCacheTTL cfg) p)
              \<lparr> ps_tunnel := Some (prepare_tunnel (spec_Name (ps_Spec p)) at t) \<rparr>"
      "sh_spawnMu sh' = sh_spawnMu sh"
      "TunnelHotGauge (sh_metrics sh') =
         (TunnelHotGauge (sh_metrics sh))(spec_Name (ps_Spec p) := 1)"
proof -
  obtain c w0 i w1 where now: "env_Now env w = (c, w0)" "env_IntN env w0 = (i, w1)"
    by (metis surj_pair)
  let ?ex = "excludeConfsFor ex p" and ?ttl = "cfg_FailureCacheTTL cfg"
  let ?q = "cleanFailedLocked c ?ttl p"
  have d: "distinct (map fst (ps_failed p))"
    using wf by (simp add: pool_wf_def)
  obtain pick where pick: "pickConf i c ?ex ?ttl p = (pick, ?q)"
    using pickConf_state [of i c ?ex ?ttl p] by (metis prod.collapse)
  obtain t0 w2 where st: "env_Now env w1 = (t0, w2)" by (metis surj_pair)
  show thesis
  proof (cases pick)
    case (Inl e)
    then have "e = ErrPoolExhausted" "\<And>conf. \<not> candidate c ?ex ?ttl p conf"
      using pickConf_result(1) [OF d, of i c ?ex ?ttl e] pick by auto
    then show thesis
      using exhausted [of c] r by (simp add: spawnFromState_def now pick Inl)
  next
    case (Inr conf)
    then have cand: "candidate c ?ex ?ttl p conf"
      using pickConf_result(2) [OF d, of i c ?ex ?ttl conf] pick by simp
    obtain sres w3 where sp: "sp_Spawn sp (cfg_SpawnTimeout cfg) (spawn_request cfg (ps_Spec p) conf) w2
        = (sres, w3)" by (metis surj_pair)
    show thesis
    proof (cases sres)
      case (Inl e)
      have "res = Inl ErrPoolUnavailable" "p' = markFailed conf (fst (env_Now env w3)) ?q"
        "sh' = sh\<lparr> sh_metrics := (sh_metrics sh)\<lparr> TunnelSpawnsTotal :=
           inc_label (TunnelSpawnsTotal (sh_metrics sh)) (spec_Name (ps_Spec p))
             (if e = ErrSpawnTimeout then ''timeout'' else ''spawn_fail'') \<rparr> \<rparr>"
        using r sp Inl
        by (simp_all add: spawnFromState_def now pick Inr st spawn_request_def
            recordSpawnFailure_def Let_def case_prod_unfold)
      then show thesis
        by (intro failed [OF cand sp [unfolded Inl]]) simp_all
    next
      case (Inr t)
      obtain s w4 where w4: "env_Now env w3 = (s, w4)" by (metis surj_pair)
      define at where "at = fst (env_Now env w4)"
      have "res = Inr \<lparr> acq_Tunnel = Some (prepare_tunnel (spec_Name (ps_Spec p)) at t),
          acq_Pool = spec_Name (ps_Spec p) \<rparr>"
        "p' = ?q\<lparr> ps_tunnel := Some (prepare_tunnel (spec_Name (ps_Spec p)) at t) \<rparr>"
        "sh_spawnMu sh' = sh_spawnMu sh"
        "TunnelHotGauge (sh_metrics sh') =
           (TunnelHotGauge (sh_metrics sh))(spec_Name (ps_Spec p) := 1)"
        using r sp Inr
        by (auto simp: spawnFromState_def now pick \<open>pick = Inr conf\<close> st spawn_request_def
            setTunnel_def w4 at_def Let_def case_prod_unfold)
      then show thesis
        by (intro spawned [OF cand sp [unfolded Inr]]) simp_all
    qed
  qed
qed

text \<open>
  A spawn only happens when the tunnel in the slot cannot be reserved, and a failed acquisition
  leaves the tunnel slot as it was.
\<close>

definition reservable :: "url option \<Rightarrow> PoolState \<Rightarrow> bool" where
  "reservable ex p \<longleftrightarrow>
     (\<exists>t. ps_tunnel p = Some t \<and> tun_State t = TunnelStateHot \<and> not_excluded ex t)"

lemma acquireFromState_cases:
  assumes wf: "pool_wf p"
    and r: "acquireFromState env sp cfg ex p sh w = (res, p', sh', w')"
  obtains
    (hot) t at where
      "ps_tunnel p = Some t" "tun_State t = TunnelStateHot" "not_excluded ex t"
      "res = Inr \<lparr> acq_Tunnel = Some (reserved at t), acq_Pool = spec_Name (ps_Spec p) \<rparr>"
      "p' = p\<lparr> ps_tunnel := Some (reserved at t) \<rparr>"
      "TunnelHotGauge (sh_metrics sh') = TunnelHotGauge (sh_metrics sh)"
  | (exhausted) c where "\<not> reservable ex p"
      "\<And>conf. \<not> candidate c (excludeConfsFor ex p) (cfg_FailureCacheTTL cfg) p conf"
      "res = Inl ErrPoolExhausted" "p' = cleanFailedLocked c (cfg_FailureCacheTTL cfg) p"
      "TunnelHotGauge (sh_metrics sh') = TunnelHotGauge (sh_metrics sh)"
  | (failed) c conf at w1 w2 e where "\<not> reservable ex p"
      "candidate c (excludeConfsFor ex p) (cfg_FailureCacheTTL cfg) p conf"
      "sp_Spawn sp (cfg_SpawnTimeout cfg) (spawn_request cfg (ps_Spec p) conf) w1 = (Inl e, w2)"
      "res = Inl ErrPoolUnavailable"
      "p' = markFailed conf at (cleanFailedLocked c (cfg_FailureCacheTTL cfg) p)"
      "TunnelHotGauge (sh_metrics sh') = TunnelHotGauge (sh_metrics sh)"
  | (spawned) c conf at w1 w2 t where "\<not> reservable ex p"
      "candidate c (excludeConfsFor ex p) (cfg_FailureCacheTTL cfg) p conf"
      "sp_Spawn sp (cfg_SpawnTimeout cfg) (spawn_request cfg (ps_Spec p) conf) w1 = (Inr t, w2)"
      "res = Inr \<lparr> acq_Tunnel = Some (prepare_tunnel (spec_Name (ps_Spec p)) at t),
                   acq_Pool = spec_Name (ps_Spec p) \<rparr>"
      "p' = (cleanFailedLocked c (cfg_FailureCacheTTL cfg) p)
              \<lparr> ps_tunnel := Some (prepare_tunnel (spec_Name (ps_Spec p)) at t) \<rparr>"
      "TunnelHotGauge (sh_metrics sh') =
         (TunnelHotGauge (sh_metrics sh))(spec_Name (ps_Spec p) := 1)"
proof -
  obtain now w0 where now: "env_Now env w = (now, w0)" by (metis surj_pair)
  show thesis
  proof (cases rule: acq.reserve_cases [of p ex now])
    case (reserved t)
    then show thesis
      using r by (intro hot [of t now]) (simp_all add: acquireFromState_def now)
  next
    case (refused e)
    then have nr: "\<not> reservable ex p" by (auto simp: reservable_def)
    obtain now' w1 where now': "env_Now env w0 = (now', w1)" by (metis surj_pair)
    obtain e' where e': "acquire ex now' p = (Inl e', p)"
      using refused(3) by (cases rule: acq.reserve_cases [of p ex now']) auto
    let ?sh = "poolMutexFor (spec_Name (ps_Spec p)) sh"
    have s: "spawnFromState env sp cfg ex p ?sh w1 = (res, p', sh', w')"
      using r by (simp add: acquireFromState_def now refused(1) now' e')
    have g: "sh_metrics ?sh = sh_metrics sh" by (simp add: poolMutexFor_def)
    show thesis
      using wf s
    proof (cases rule: spawnFromState_cases)
      case (exhausted c)
      show thesis by (rule that(2) [OF nr exhausted(1-3)]) (simp add: exhausted(4) g)
    next
      case (failed c conf at w1 w2 e)
      show thesis by (rule that(3) [OF nr failed(1-4)]) (simp add: failed(6) g)
    next
      case (spawned c conf at w1 w2 t)
      show thesis by (rule that(4) [OF nr spawned(1-4)]) (simp add: spawned(6) g)
    qed
  qed
qed

section \<open>The invariant of the manager\<close>

text \<open>
  Every pool has a valid state and the specification loaded under its name; its tunnel, if any,
  carries the name of the pool; the gauge of a pool shows whether its slot is occupied; the
  fallbacks and the routes lead to pools; and every lease belongs to a pool.
\<close>

definition slot_wf :: "(string \<rightharpoonup> PoolSpec) \<Rightarrow> (string \<Rightarrow> nat) \<Rightarrow> string \<Rightarrow> PoolState \<Rightarrow> bool" where
  "slot_wf specs gauge name p \<longleftrightarrow>
     pool_wf p \<and> specs name = Some (ps_Spec p) \<and> spec_Name (ps_Spec p) = name
     \<and> (\<forall>t. ps_tunnel p = Some t \<longrightarrow> tun_Pool t = name)
     \<and> gauge name = (if ps_tunnel p = None then 0 else 1)"

definition specs_wf :: "(string \<rightharpoonup> PoolSpec) \<Rightarrow> Router \<Rightarrow> bool" where
  "specs_wf specs router \<longleftrightarrow>
     (\<forall>name spec. specs name = Some spec \<longrightarrow>
        spec_FallbackPool spec = '''' \<or> spec_FallbackPool spec \<in> dom specs)
     \<and> (\<forall>ul country pool. Resolve ul router country = Inr pool \<longrightarrow> pool \<in> dom specs)"

definition mgr_wf :: "Manager \<Rightarrow> bool" where
  "mgr_wf m \<longleftrightarrow>
     dom (m_specs m) = dom (m_pools m)
     \<and> (\<forall>name p. m_pools m name = Some p \<longrightarrow>
          slot_wf (m_specs m) (TunnelHotGauge (sh_metrics (m_shared m))) name p)
     \<and> specs_wf (m_specs m) (m_router m)
     \<and> (\<forall>i rec. reg_leases (m_leases m) i = Some rec \<longrightarrow> lease_Pool rec \<in> dom (m_pools m))"

abbreviation mgr_gauge :: "Manager \<Rightarrow> string \<Rightarrow> nat" where
  "mgr_gauge m \<equiv> TunnelHotGauge (sh_metrics (m_shared m))"

lemma mgr_wf_slot: "mgr_wf m \<Longrightarrow> m_pools m name = Some p \<Longrightarrow> slot_wf (m_specs m) (mgr_gauge m) name p"
  by (simp add: mgr_wf_def)

lemma put_pool_simps [simp]:
  "m_cfg (put_pool name p m) = m_cfg m" "m_router (put_pool name p m) = m_router m"
  "m_specs (put_pool name p m) = m_specs m" "m_leases (put_pool name p m) = m_leases m"
  "m_shared (put_pool name p m) = m_shared m"
  "m_pools (put_pool name p m) = (m_pools m)(name \<mapsto> p)"
  by (simp_all add: put_pool_def)

lemma mgr_wf_put:
  assumes "mgr_wf m" "m_pools m name = Some p"
    "slot_wf (m_specs m) (TunnelHotGauge (sh_metrics sh)) name p'"
    "\<And>n. n \<noteq> name \<Longrightarrow> TunnelHotGauge (sh_metrics sh) n = mgr_gauge m n"
  shows "mgr_wf (put_pool name p' (m\<lparr> m_shared := sh \<rparr>))"
proof -
  have "dom ((m_pools m)(name \<mapsto> p')) = dom (m_pools m)"
    using assms(2) by auto
  moreover have "slot_wf (m_specs m) (TunnelHotGauge (sh_metrics sh)) n q"
    if "((m_pools m)(name \<mapsto> p')) n = Some q" for n q
    using that assms(3,4) mgr_wf_slot [OF assms(1), of n q]
    by (cases "n = name") (simp_all add: slot_wf_def)
  ultimately show ?thesis
    using assms(1) unfolding mgr_wf_def by (simp del: fun_upd_apply)
qed

lemma mgr_wf_put_same:
  assumes "mgr_wf m" "m_pools m name = Some p" "slot_wf (m_specs m) (mgr_gauge m) name p'"
  shows "mgr_wf (put_pool name p' m)"
  using mgr_wf_put [of m name p "m_shared m" p'] assms by simp

text \<open>Replacing the tunnel by one of the same pool, with a counter that is not negative.\<close>

lemma slot_wf_tunnel:
  "slot_wf specs g name p \<Longrightarrow> ps_tunnel p = Some t \<Longrightarrow> 0 \<le> tun_InFlight t' \<Longrightarrow> tun_Pool t' = tun_Pool t \<Longrightarrow>
   slot_wf specs g name (p\<lparr> ps_tunnel := Some t' \<rparr>)"
  by (auto simp: slot_wf_def pool_wf_def)

lemma slot_wf_InFlight: "slot_wf specs g name p \<Longrightarrow> ps_tunnel p = Some t \<Longrightarrow> 0 \<le> tun_InFlight t"
  by (auto simp: slot_wf_def pool_wf_def)

lemma slot_wf_clean [intro]: "slot_wf specs g name p \<Longrightarrow> slot_wf specs g name (cleanFailedLocked c ttl p)"
  by (auto simp: slot_wf_def)

lemma slot_wf_mark [intro]: "slot_wf specs g name p \<Longrightarrow> slot_wf specs g name (markFailed conf at p)"
  by (auto simp: slot_wf_def)

lemma slot_wf_reserved:
  "slot_wf specs g name p \<Longrightarrow> ps_tunnel p = Some t \<Longrightarrow>
   slot_wf specs g name (p\<lparr> ps_tunnel := Some (reserved now t) \<rparr>)"
  using slot_wf_InFlight by (intro slot_wf_tunnel) fastforce+

lemma slot_wf_release [intro]: "slot_wf specs g name p \<Longrightarrow> slot_wf specs g name (release p)"
  by (auto simp: release_def slot_wf_tunnel split: option.splits)

lemma slot_wf_setLastURL [intro]: "slot_wf specs g name p \<Longrightarrow> slot_wf specs g name (setLastURL c v e p)"
  by (auto simp: setLastURL_def slot_wf_InFlight intro!: slot_wf_tunnel split: option.splits)

lemma slot_wf_setTunnel:
  assumes "slot_wf specs g name p" "TunnelHotGauge m = g"
    and "\<And>t'. t = Some t' \<Longrightarrow> 0 \<le> tun_InFlight t' \<and> tun_Pool t' = name"
  shows "slot_wf specs (TunnelHotGauge (snd (setTunnel t m p))) name (fst (setTunnel t m p))"
    and "n \<noteq> name \<Longrightarrow> TunnelHotGauge (snd (setTunnel t m p)) n = g n"
  using assms by (auto simp: slot_wf_def setTunnel_def pool_wf_def split: option.splits)

lemma acquireFromState_slot:
  assumes "slot_wf specs (TunnelHotGauge (sh_metrics sh)) name p"
    "acquireFromState env sp cfg ex p sh w = (res, p', sh', w')"
  shows "slot_wf specs (TunnelHotGauge (sh_metrics sh')) name p'
    \<and> (\<forall>n. n \<noteq> name \<longrightarrow> TunnelHotGauge (sh_metrics sh') n = TunnelHotGauge (sh_metrics sh) n)"
proof -
  have wf: "pool_wf p" and name: "spec_Name (ps_Spec p) = name"
    using assms(1) by (simp_all add: slot_wf_def)
  show ?thesis
    using wf assms(2)
  proof (cases rule: acquireFromState_cases)
    case (hot t at)
    then show ?thesis using assms(1) by (simp add: slot_wf_reserved)
  next
    case (exhausted c)
    then show ?thesis using assms(1) by auto
  next
    case (failed c conf at w1 w2 e)
    then show ?thesis using assms(1) by auto
  next
    case (spawned c conf at w1 w2 t)
    then show ?thesis using assms(1) by (auto simp: slot_wf_def pool_wf_def name)
  qed
qed

lemma acquire_in_wf:
  assumes "mgr_wf m" "m_pools m name = Some p" "acquire_in env sp ex name p m w = (res, m', w')"
  shows "mgr_wf m'"
proof -
  obtain p' sh' where a: "acquireFromState env sp (m_cfg m) ex p (m_shared m) w = (res, p', sh', w')"
    and m': "m' = put_pool name p' (m\<lparr> m_shared := sh' \<rparr>)"
    using assms(3) by (auto simp: acquire_in_def split: prod.splits)
  show ?thesis
    unfolding m' using assms(1,2) acquireFromState_slot [OF mgr_wf_slot [OF assms(1,2)] a]
    by (intro mgr_wf_put) auto
qed

lemma acquireFromPool_wf:
  assumes "mgr_wf m" "acquireFromPool env sp name ex fb m w = (res, m', w')"
  shows "mgr_wf m'"
proof (cases "m_pools m name")
  case None
  then show ?thesis using assms by (simp add: acquireFromPool_def)
next
  case (Some p)
  obtain r1 m1 w1 where a: "acquire_in env sp ex name p m w = (r1, m1, w1)"
    by (metis surj_pair)
  have m1: "mgr_wf m1" using acquire_in_wf [OF assms(1) Some a] .
  show ?thesis
  proof (cases "m' = m1")
    case False
    then obtain q where "m_pools m1 (spec_FallbackPool (ps_Spec p)) = Some q"
      "acquire_in env sp ex (spec_FallbackPool (ps_Spec p)) q m1 w1 = (res, m', w')"
      using assms(2)
      by (auto simp: acquireFromPool_def Some a Let_def split: sum.splits if_splits option.splits)
    then show ?thesis by (rule acquire_in_wf [OF m1])
  qed (use m1 in simp)
qed

lemma manager_Release_wf: "mgr_wf m \<Longrightarrow> mgr_wf (manager_Release acq m)"
  by (cases "m_pools m (acq_Pool acq)")
     (auto simp: manager_Release_def intro!: mgr_wf_put_same slot_wf_release mgr_wf_slot)

text \<open>Dropping leases keeps the invariant; so does adding one for a pool.\<close>

lemma mgr_wf_prune: "mgr_wf m \<Longrightarrow> mgr_wf (m\<lparr> m_leases := pruneExpiredLocked now (m_leases m) \<rparr>)"
  unfolding mgr_wf_def by (simp add: pruneExpired_leases) blast

lemma Lookup_wf:
  assumes "mgr_wf m" "Lookup sha256 env i s (m_leases m) w = (res, r, w')"
  shows "mgr_wf (m\<lparr> m_leases := r \<rparr>)"
  using mgr_wf_prune [OF assms(1), of "fst (env_Now env w)"]
    Lookup_state [of sha256 env i s "m_leases m" w] assms(2) by simp

lemma Lookup_Some:
  assumes "mgr_wf m" "Lookup sha256 env i s (m_leases m) w = (Some rec, r, w')"
  shows "\<exists>p. m_pools m (lease_Pool rec) = Some p"
  using assms Lookup_result [of sha256 env i s "m_leases m" w rec]
  unfolding mgr_wf_def by fastforce

lemma Issue_wf:
  assumes "mgr_wf m" "Issue sha256 env acq (m_leases m) w = (res, r, w')" "acq_Pool acq \<in> dom (m_pools m)"
  shows "mgr_wf (m\<lparr> m_leases := r \<rparr>)"
proof (cases res)
  case (Inl e)
  then show ?thesis using Issue_error [of sha256 env acq "m_leases m" w e r w'] assms by simp
next
  case (Inr l)
  from assms(2) [unfolded Inr] show ?thesis
  proof (rule Issue_ok)
    fix t i s
    assume r: "r = (pruneExpiredLocked (issue_time env w) (m_leases m))\<lparr> reg_leases :=
       (reg_leases (pruneExpiredLocked (issue_time env w) (m_leases m)))(i \<mapsto>
          lease_record sha256 acq t s (pl_ExpiresAt l)) \<rparr>"
    show "mgr_wf (m\<lparr> m_leases := r \<rparr>)"
      using mgr_wf_prune [OF assms(1), of "issue_time env w"] assms(3)
      unfolding mgr_wf_def r by (simp add: lease_record_def)
  qed
qed

lemma IssueLease_wf:
  assumes "mgr_wf m" "acq_Pool acq \<in> dom (m_pools m)" "IssueLease sha256 env acq m w = (res, m', w')"
  shows "mgr_wf m'"
proof -
  obtain r1 r w1 where i: "Issue sha256 env acq (m_leases m) w = (r1, r, w1)"
    by (metis surj_pair)
  have wf: "mgr_wf (m\<lparr> m_leases := r \<rparr>)" using Issue_wf [OF assms(1) i assms(2)] .
  obtain p where p: "m_pools m (acq_Pool acq) = Some p" using assms(2) by auto
  show ?thesis
  proof (cases "m' = m\<lparr> m_leases := r \<rparr>")
    case False
    then obtain c v e where "m' = put_pool (acq_Pool acq) (setLastURL c v e p) (m\<lparr> m_leases := r \<rparr>)"
      using assms(3) i p by (auto simp: IssueLease_def Let_def split: sum.splits option.splits)
    moreover have "slot_wf (m_specs m) (mgr_gauge m) (acq_Pool acq) (setLastURL c v e p)"
      using mgr_wf_slot [OF assms(1) p] by blast
    ultimately show ?thesis using mgr_wf_put_same [OF wf] p by simp
  qed (use wf in simp)
qed

lemma AcquireForLease_cases:
  assumes wf: "mgr_wf m" and a: "AcquireForLease sha256 env u pw m w = (res, m', w')"
  obtains
    (unknown) now where "fst (Lookup sha256 env u pw (m_leases m) w) = None" "res = Inl ErrPoolUnavailable"
      "m' = m\<lparr> m_leases := pruneExpiredLocked now (m_leases m) \<rparr>"
  | (gone) rec p now where "fst (Lookup sha256 env u pw (m_leases m) w) = Some rec"
      "m_pools m (lease_Pool rec) = Some p"
      "\<And>t. ps_tunnel p = Some t \<Longrightarrow> tun_State t = TunnelStateHot \<Longrightarrow> tun_ContainerID t \<noteq> lease_ContainerID rec"
      "res = Inl ErrPoolUnavailable"
      "m' = put_pool (lease_Pool rec) p (m\<lparr> m_leases := pruneExpiredLocked now (m_leases m) \<rparr>)"
  | (reserved) rec p t at now where "fst (Lookup sha256 env u pw (m_leases m) w) = Some rec"
      "m_pools m (lease_Pool rec) = Some p" "ps_tunnel p = Some t" "tun_State t = TunnelStateHot"
      "tun_ContainerID t = lease_ContainerID rec"
      "res = Inr \<lparr> acq_Tunnel = Some (reserved at t), acq_Pool = lease_Pool rec \<rparr>"
      "m' = put_pool (lease_Pool rec) (p\<lparr> ps_tunnel := Some (reserved at t) \<rparr>)
              (m\<lparr> m_leases := pruneExpiredLocked now (m_leases m) \<rparr>)"
proof -
  define now where "now = fst (env_Now env w)"
  obtain look w1 where l: "Lookup sha256 env u pw (m_leases m) w =
      (look, pruneExpiredLocked now (m_leases m), w1)"
    using Lookup_state [of sha256 env u pw "m_leases m" w] unfolding now_def by (metis prod.collapse)
  show thesis
  proof (cases look)
    case None
    then show thesis using unknown [of now] a l by (simp add: AcquireForLease_def)
  next
    case (Some rec)
    obtain p where p: "m_pools m (lease_Pool rec) = Some p"
      using Lookup_Some [OF wf l [unfolded Some]] by blast
    obtain at w2 where at: "env_Now env w1 = (at, w2)" by (metis surj_pair)
    have lk: "fst (Lookup sha256 env u pw (m_leases m) w) = Some rec" using l Some by simp
    have a': "(res, m', w') = (case acquireContainer (lease_ContainerID rec) at p of
        (Inl e, p) \<Rightarrow> (Inl e, put_pool (lease_Pool rec) p
           (m\<lparr> m_leases := pruneExpiredLocked now (m_leases m) \<rparr>), w2)
      | (Inr t, p) \<Rightarrow> (Inr \<lparr> acq_Tunnel = Some t, acq_Pool = lease_Pool rec \<rparr>,
           put_pool (lease_Pool rec) p (m\<lparr> m_leases := pruneExpiredLocked now (m_leases m) \<rparr>), w2))"
      using a l Some p at by (simp add: AcquireForLease_def Let_def)
    show thesis
    proof (cases rule: acqc.reserve_cases [of p "lease_ContainerID rec" at])
      case (reserved t)
      with a' show thesis by (intro that(3) [OF lk p]) simp_all
    next
      case (refused e)
      have "e = ErrPoolUnavailable"
        using refused(1) by (auto simp: acquireContainer_def Let_def split: option.splits if_splits)
      with a' refused show thesis by (intro that(2) [OF lk p]) simp_all
    qed
  qed
qed

lemma AcquireForLease_wf:
  assumes "mgr_wf m" "AcquireForLease sha256 env u pw m w = (res, m', w')"
  shows "mgr_wf m'"
  using assms
proof (cases rule: AcquireForLease_cases)
  case (unknown now)
  then show ?thesis using mgr_wf_prune [OF assms(1)] by simp
next
  case (gone rec p now)
  then show ?thesis
    using mgr_wf_put_same [OF mgr_wf_prune [OF assms(1)]] mgr_wf_slot [OF assms(1)] by simp
next
  case (reserved rec p t at now)
  then show ?thesis
    using mgr_wf_put_same [OF mgr_wf_prune [OF assms(1)]]
      slot_wf_reserved [OF mgr_wf_slot [OF assms(1)]] by simp
qed

lemma ResolveExcludedProxy_wf:
  assumes "mgr_wf m" "ResolveExcludedProxy lit sha256 env raw m w = (res, m', w')"
  shows "mgr_wf m'"
  using assms Lookup_wf
  by (auto simp: ResolveExcludedProxy_def split: option.splits if_splits prod.splits)

lemma validLease_wf: "mgr_wf m \<Longrightarrow> validLease sha256 env u pw m w = (res, m', w') \<Longrightarrow> mgr_wf m'"
  using Lookup_wf by (auto simp: validLease_def split: prod.splits)

lemma dialLease_wf:
  assumes "mgr_wf m" "dialLease sha256 env dl u pw network address m w = (res, m', w')"
  shows "mgr_wf m'"
proof -
  obtain a m1 w1 where l: "AcquireForLease sha256 env u pw m w = (a, m1, w1)" by (metis surj_pair)
  have wf: "mgr_wf m1" using AcquireForLease_wf [OF assms(1) l] .
  have "m' = m1 \<or> (\<exists>acq. m' = manager_Release acq m1)"
    using assms(2) by (auto simp: dialLease_def l Let_def split: sum.splits if_splits prod.splits)
  then show ?thesis using wf manager_Release_wf by blast
qed

lemma releaseConn_Close_wf:
  "mgr_wf m \<Longrightarrow> releaseConn_Close dl c m w = (err, c', m', w') \<Longrightarrow> mgr_wf m'"
  by (auto simp: releaseConn_Close_def manager_Release_wf split: prod.splits if_splits)

lemma mgr_wf_setTunnel:
  assumes "mgr_wf m" "m_pools m name = Some p" "setTunnel t (sh_metrics (m_shared m)) p = (p', mx)"
    and "\<And>t'. t = Some t' \<Longrightarrow> 0 \<le> tun_InFlight t' \<and> tun_Pool t' = name"
  shows "mgr_wf (put_pool name p' (m\<lparr> m_shared := (m_shared m)\<lparr> sh_metrics := mx \<rparr> \<rparr>))"
  using mgr_wf_put [OF assms(1,2), of "(m_shared m)\<lparr> sh_metrics := mx \<rparr>" p']
    slot_wf_setTunnel [OF mgr_wf_slot [OF assms(1,2)] refl, of t] assms(3,4) by simp

lemma manager_Close_wf:
  "mgr_wf m \<Longrightarrow> manager_Close sp names m w = (m', w') \<Longrightarrow> mgr_wf m'"
proof (induction names arbitrary: m w)
  case (Cons name names)
  show ?case
  proof (cases "\<exists>p t. m_pools m name = Some p \<and> Snapshot p = Some t \<and> tun_ContainerID t \<noteq> ''''")
    case True
    then obtain p t where p: "m_pools m name = Some p" "Snapshot p = Some t" "tun_ContainerID t \<noteq> ''''"
      by blast
    obtain err w1 p' mx where s: "sp_Kill sp (tun_ContainerID t) w = (err, w1)"
      "setTunnel None (sh_metrics (m_shared m)) p = (p', mx)" by (metis surj_pair)
    have "mgr_wf (put_pool name p' (m\<lparr> m_shared := (m_shared m)\<lparr> sh_metrics := mx \<rparr> \<rparr>))"
      using mgr_wf_setTunnel [OF Cons.prems(1) p(1) s(2)] by simp
    then show ?thesis
      using Cons.IH Cons.prems(2) p s by simp
  next
    case False
    then have "manager_Close sp (name # names) m w = manager_Close sp names m w"
      by (auto split: option.splits)
    then show ?thesis
      using Cons by simp
  qed
qed simp

lemma MarkFailed_wf:
  assumes "mgr_wf m" "MarkFailed env name conf m w = (m', w')"
  shows "mgr_wf m'"
proof (cases "m_pools m name")
  case (Some p)
  define q where "q = (case ps_tunnel p of None \<Rightarrow> p
      | Some t \<Rightarrow> if tun_ConfName t = conf
                 then p\<lparr> ps_tunnel := Some (t\<lparr> tun_State := TunnelStateUnhealthy \<rparr>) \<rparr> else p)"
  note sl = mgr_wf_slot [OF assms(1) Some]
  have "slot_wf (m_specs m) (mgr_gauge m) name q"
    using sl slot_wf_InFlight [OF sl] by (auto simp: q_def intro!: slot_wf_tunnel split: option.splits)
  then have "slot_wf (m_specs m) (mgr_gauge m) name (markFailed conf (fst (env_Now env w)) q)"
    by blast
  then show ?thesis
    using mgr_wf_put_same [OF assms(1) Some] assms(2)
    by (auto simp: MarkFailed_def Some q_def [symmetric] Let_def split: prod.splits)
qed (use assms in \<open>simp add: MarkFailed_def\<close>)

lemma views_loop_wf: "mgr_wf m \<Longrightarrow> views_loop now names m = (out, m') \<Longrightarrow> mgr_wf m'"
proof (induction now names m arbitrary: out m' rule: views_loop.induct)
  case (2 now name names m)
  show ?case
  proof (cases "m_pools m name")
    case None
    then show ?thesis using 2 by simp
  next
    case (Some p)
    let ?q = "cleanFailedLocked now (cfg_FailureCacheTTL (m_cfg m)) p"
    have r: "RecentlyFailedCount now (cfg_FailureCacheTTL (m_cfg m)) p = (length (ps_failed ?q), ?q)"
      by (simp add: RecentlyFailedCount_def Let_def)
    have "mgr_wf (put_pool name ?q m)"
      using mgr_wf_put_same [OF "2.prems"(1) Some] mgr_wf_slot [OF "2.prems"(1) Some] by blast
    moreover obtain out1 where "views_loop now names (put_pool name ?q m) = (out1, m')"
      using "2.prems"(2) Some r by (auto simp: Let_def split: prod.splits)
    ultimately show ?thesis using "2.IH"(2) [OF Some r [symmetric] refl refl] by blast
  qed
qed simp

section \<open>Every operation keeps the invariant\<close>

text \<open>
  The steps of the manager: every operation a request handler, a proxy gateway or the shutdown
  can run, with any arguments, any result of the spawner and of the dialer, and any change of the
  world in between.
\<close>

inductive mgr_step ::
  "'w Env \<Rightarrow> 'w Spawner \<Rightarrow> ('u, 'c, 'w) Dialer \<Rightarrow> Manager \<times> 'w \<Rightarrow> Manager \<times> 'w \<Rightarrow> bool"
  for env sp dl where
  step_country: "AcquireForCountry ul env sp country ex fb m w = (res, m', w') \<Longrightarrow>
     mgr_step env sp dl (m, w) (m', w')"
| step_pool: "AcquireForPool env sp pool ex fb m w = (res, m', w') \<Longrightarrow>
     mgr_step env sp dl (m, w) (m', w')"
| step_release: "mgr_step env sp dl (m, w) (manager_Release acq m, w)"
| step_issue: "IssueLease sha256 env acq m w = (lres, m', w') \<Longrightarrow> acq_Pool acq \<in> dom (m_pools m) \<Longrightarrow>
     mgr_step env sp dl (m, w) (m', w')"
| step_exclude: "ResolveExcludedProxy lit sha256 env raw m w = (ures, m', w') \<Longrightarrow>
     mgr_step env sp dl (m, w) (m', w')"
| step_lease: "AcquireForLease sha256 env u pw m w = (res, m', w') \<Longrightarrow>
     mgr_step env sp dl (m, w) (m', w')"
| step_valid: "validLease sha256 env u pw m w = (b, m', w') \<Longrightarrow> mgr_step env sp dl (m, w) (m', w')"
| step_dial: "dialLease sha256 env dl u pw network address m w = (cres, m', w') \<Longrightarrow>
     mgr_step env sp dl (m, w) (m', w')"
| step_conn_close: "releaseConn_Close dl c m w = (err, c', m', w') \<Longrightarrow>
     mgr_step env sp dl (m, w) (m', w')"
| step_close: "manager_Close sp names m w = (m', w') \<Longrightarrow> mgr_step env sp dl (m, w) (m', w')"
| step_mark: "MarkFailed env pool conf m w = (m', w') \<Longrightarrow> mgr_step env sp dl (m, w) (m', w')"
| step_views: "Views env order m w = (views, m', w') \<Longrightarrow> mgr_step env sp dl (m, w) (m', w')"
| step_world: "mgr_step env sp dl (m, w) (m, w')"

lemma mgr_step_wf: "mgr_step env sp dl s s' \<Longrightarrow> mgr_wf (fst s) \<Longrightarrow> mgr_wf (fst s')"
proof (induction rule: mgr_step.induct)
  case (step_country ul country ex fb m w res m' w')
  then show ?case
    by (auto simp: AcquireForCountry_def dest: acquireFromPool_wf split: sum.splits)
next
  case (step_views order m w views m' w')
  then show ?case
    by (auto simp: Views_def dest: views_loop_wf split: prod.splits)
qed (auto simp: AcquireForPool_def manager_Release_wf dest: acquireFromPool_wf IssueLease_wf
      ResolveExcludedProxy_wf AcquireForLease_wf validLease_wf dialLease_wf releaseConn_Close_wf
      manager_Close_wf MarkFailed_wf)

lemma NewManager_wf:
  assumes "specs_wf specs router" "\<And>n spec. specs n = Some spec \<Longrightarrow> spec_Name spec = n"
    "\<And>n. TunnelHotGauge mx n = 0"
  shows "mgr_wf (NewManager cfg specs router mx)"
  using assms
  by (auto simp: mgr_wf_def NewManager_def slot_wf_def newLeaseRegistry_def pool_wf_def NewPoolState_def
      dom_def)

lemma mgr_reach_wf:
  assumes "(mgr_step env sp dl)\<^sup>*\<^sup>* s s'" "mgr_wf (fst s)"
  shows "mgr_wf (fst s')"
  using assms by (induction rule: rtranclp_induct) (auto intro: mgr_step_wf)

section \<open>What a caller gets\<close>

text \<open>
  The tunnel an acquisition may hand out for a pool: the reserved hot tunnel in its slot, unless
  the caller excluded it, or, when there is no such tunnel, a fresh one for a configuration of
  the pool that is not the one of the excluded tunnel.
\<close>

definition granted :: "'w Spawner \<Rightarrow> Config \<Rightarrow> url option \<Rightarrow> PoolState \<Rightarrow> Tunnel \<Rightarrow> bool" where
  "granted sp cfg ex p t \<longleftrightarrow>
     (\<exists>t0 at. ps_tunnel p = Some t0 \<and> tun_State t0 = TunnelStateHot \<and> not_excluded ex t0
        \<and> t = reserved at t0)
     \<or> (\<not> reservable ex p \<and>
        (\<exists>conf at w w' t1. conf \<in> set (spec_Configs (ps_Spec p)) \<and> conf \<notin> excludeConfsFor ex p
           \<and> sp_Spawn sp (cfg_SpawnTimeout cfg) (spawn_request cfg (ps_Spec p) conf) w = (Inr t1, w')
           \<and> t = prepare_tunnel (spec_Name (ps_Spec p)) at t1))"

definition slots :: "Manager \<Rightarrow> string \<Rightarrow> Tunnel option option" where
  "slots m name = map_option ps_tunnel (m_pools m name)"

lemma granted_spawnedI:
  "\<lbrakk> \<not> reservable ex p; conf \<in> set (spec_Configs (ps_Spec p)); conf \<notin> excludeConfsFor ex p;
     sp_Spawn sp (cfg_SpawnTimeout cfg) (spawn_request cfg (ps_Spec p) conf) w = (Inr t1, w') \<rbrakk>
   \<Longrightarrow> granted sp cfg ex p (prepare_tunnel (spec_Name (ps_Spec p)) at t1)"
  unfolding granted_def by blast

lemma acquire_in_success:
  assumes "mgr_wf m" "m_pools m name = Some p" "acquire_in env sp ex name p m w = (Inr acq, m', w')"
  shows "\<exists>t. acq = \<lparr> acq_Tunnel = Some t, acq_Pool = name \<rparr> \<and> granted sp (m_cfg m) ex p t
     \<and> slots m' = (slots m)(name := Some (Some t)) \<and> m_cfg m' = m_cfg m"
proof -
  obtain p' sh' where a: "acquireFromState env sp (m_cfg m) ex p (m_shared m) w = (Inr acq, p', sh', w')"
    and m': "m' = put_pool name p' (m\<lparr> m_shared := sh' \<rparr>)"
    using assms(3) by (auto simp: acquire_in_def split: prod.splits)
  have wf: "pool_wf p" and name: "spec_Name (ps_Spec p) = name"
    using mgr_wf_slot [OF assms(1,2)] by (simp_all add: slot_wf_def)
  have sl: "slots m' = (slots m)(name := Some (ps_tunnel p'))"
    by (auto simp: m' slots_def)
  show ?thesis
    using wf a
  proof (cases rule: acquireFromState_cases)
    case (hot t at)
    then show ?thesis using sl name by (auto simp: granted_def m')
  next
    case (spawned c conf at w1 w2 t)
    have "granted sp (m_cfg m) ex p (prepare_tunnel (spec_Name (ps_Spec p)) at t)"
      using spawned(1,2,3) by (intro granted_spawnedI) (auto simp: candidate_def)
    then show ?thesis using spawned(4,5) sl name by (simp add: m')
  qed simp_all
qed

lemma acquire_in_failure:
  assumes "mgr_wf m" "m_pools m name = Some p" "acquire_in env sp ex name p m w = (Inl e, m', w')"
  shows "(e = ErrPoolExhausted \<or> e = ErrPoolUnavailable) \<and> slots m' = slots m
     \<and> dom (m_pools m') = dom (m_pools m) \<and> m_cfg m' = m_cfg m
     \<and> (\<forall>n. map_option ps_Spec (m_pools m' n) = map_option ps_Spec (m_pools m n))"
proof -
  obtain p' sh' where a: "acquireFromState env sp (m_cfg m) ex p (m_shared m) w = (Inl e, p', sh', w')"
    and m': "m' = put_pool name p' (m\<lparr> m_shared := sh' \<rparr>)"
    using assms(3) by (auto simp: acquire_in_def split: prod.splits)
  have wf: "pool_wf p" using mgr_wf_slot [OF assms(1,2)] by (simp add: slot_wf_def)
  have "(e = ErrPoolExhausted \<or> e = ErrPoolUnavailable) \<and> ps_tunnel p' = ps_tunnel p \<and> ps_Spec p' = ps_Spec p"
    using wf a by (cases rule: acquireFromState_cases) simp_all
  then show ?thesis using assms(2) by (auto simp: m' slots_def)
qed

lemma granted_cong:
  "ps_tunnel p = ps_tunnel q \<Longrightarrow> ps_Spec p = ps_Spec q \<Longrightarrow> granted sp cfg ex p t = granted sp cfg ex q t"
  by (simp add: granted_def reservable_def excludeConfsFor_eq)

lemma granted_hot:
  assumes "granted sp cfg ex p t" "slot_wf specs g name p"
  shows "tun_State t = TunnelStateHot \<and> tun_Pool t = name \<and> 0 < tun_InFlight t"
proof -
  have "0 \<le> tun_InFlight t0 \<and> tun_Pool t0 = name" if "ps_tunnel p = Some t0" for t0
    using that assms(2) by (auto simp: slot_wf_def pool_wf_def)
  then show ?thesis
    using assms by (auto simp: granted_def slot_wf_def)
qed

lemma acquireFromPool_known:
  assumes wf: "mgr_wf m" and p: "m_pools m name = Some p"
    and r: "acquireFromPool env sp name ex fb m w = (res, m', w')"
  obtains
    (own) t where "res = Inr \<lparr> acq_Tunnel = Some t, acq_Pool = name \<rparr>" "granted sp (m_cfg m) ex p t"
      "slots m' = (slots m)(name := Some (Some t))"
  | (other) t fp q where "fb" "fp = spec_FallbackPool (ps_Spec p)" "fp \<noteq> ''''"
      "m_pools m fp = Some q" "res = Inr \<lparr> acq_Tunnel = Some t, acq_Pool = fp \<rparr>"
      "granted sp (m_cfg m) ex q t" "slots m' = (slots m)(fp := Some (Some t))"
  | (none) e where "res = Inl e" "e = ErrPoolExhausted \<or> e = ErrPoolUnavailable" "slots m' = slots m"
proof -
  obtain r1 m1 w1 where a: "acquire_in env sp ex name p m w = (r1, m1, w1)" by (metis surj_pair)
  show thesis
  proof (cases r1)
    case (Inr acq)
    then show thesis
      using r acquire_in_success [OF wf p a [unfolded Inr]]
      by (auto simp: acquireFromPool_def p a intro: own)
  next
    case (Inl e)
    let ?fp = "spec_FallbackPool (ps_Spec p)"
    note f = acquire_in_failure [OF wf p a [unfolded Inl]]
    show thesis
    proof (cases "\<not> fb \<or> ?fp = ''''")
      case True
      then show thesis
        using r f by (auto simp: acquireFromPool_def p a Inl Let_def intro: none)
    next
      case False
      have "m_specs m name = Some (ps_Spec p)" "specs_wf (m_specs m) (m_router m)"
        "dom (m_specs m) = dom (m_pools m)"
        using wf mgr_wf_slot [OF wf p] by (auto simp: mgr_wf_def slot_wf_def)
      then have "?fp \<in> dom (m_pools m)"
        using False unfolding specs_wf_def by metis
      then obtain q q1 where q: "m_pools m ?fp = Some q" "m_pools m1 ?fp = Some q1"
        using f by (metis domD)
      have same: "ps_tunnel q1 = ps_tunnel q" "ps_Spec q1 = ps_Spec q"
        using f q by (auto simp: slots_def fun_eq_iff dest!: spec [of _ ?fp])
      have r': "acquire_in env sp ex ?fp q1 m1 w1 = (res, m', w')"
        using r f False q by (auto simp: acquireFromPool_def p a Inl Let_def)
      have wf1: "mgr_wf m1" using acquire_in_wf [OF wf p a] .
      show thesis
      proof (cases res)
        case (Inr acq)
        obtain t where t: "acq = \<lparr> acq_Tunnel = Some t, acq_Pool = ?fp \<rparr>"
          "granted sp (m_cfg m1) ex q1 t" "slots m' = (slots m1)(?fp := Some (Some t))"
          using acquire_in_success [OF wf1 q(2) r' [unfolded Inr]] by blast
        have "granted sp (m_cfg m) ex q t"
          using granted_cong [OF same, THEN iffD1, OF t(2)] f by simp
        with t Inr f False q(1) show thesis
          by (intro other [of ?fp q t]) simp_all
      next
        case (Inl e')
        then show thesis
          using acquire_in_failure [OF wf1 q(2) r' [unfolded Inl]] f by (auto intro: none)
      qed
    qed
  qed
qed

end
