(* ===== verification/Acquisition.thy ===== *)
theory Acquisition
  imports Manager
begin

text \<open>
  The properties of the manager: what a successful and a failed acquisition mean for the caller
  and for the pools, the invariant in every reachable state, the accounting of the connections
  dialled through leases, the views, and the shutdown.
\<close>

section \<open>A small manager\<close>

text \<open>
  Two pools, \<open>eu\<close> with the fallback \<open>us\<close>, and a spawner whose cells are numbered by the counter
  that is the state of the world.
\<close>

definition demo_spec :: "string \<Rightarrow> string list \<Rightarrow> string \<Rightarrow> PoolSpec" where
  "demo_spec name confs fallback =
     \<lparr> spec_Name = name, spec_Region = '''', spec_Purpose = '''', spec_Configs = confs,
       spec_ExitCountries = Map.empty, spec_FallbackPool = fallback \<rparr>"

definition demo_specmap :: "string \<rightharpoonup> PoolSpec" where
  "demo_specmap =
     [''eu'' \<mapsto> demo_spec ''eu'' [''de-x'', ''fr-y''] ''us'', ''us'' \<mapsto> demo_spec ''us'' [''us-a''] '''']"

definition demo_router :: Router where
  "demo_router = \<lparr> countryToPool = [''de'' \<mapsto> ''eu''], defaultPool = ''us'' \<rparr>"

definition demo_cfg :: Config where
  "demo_cfg =
     \<lparr> cfg_HTTPAddr = '':8000'', cfg_MetricsAddr = '':9091'', cfg_SOCKSAddr = '':1080'',
       cfg_SOCKSPublicAddr = ''127.0.0.1:1080'', cfg_HTTPProxyAddr = '':8080'',
       cfg_HTTPProxyPublicAddr = ''127.0.0.1:8080'', cfg_ProxyLeaseTTL = 900, cfg_PoolsFile = '''',
       cfg_BundleDir = ''wg'', cfg_RoutingFile = '''', cfg_DefaultPool = ''us'', cfg_IdleTimeout = 600,
       cfg_SpawnTimeout = 20, cfg_HealthCheckInterval = 30, cfg_HealthHandshakeMaxAge = 180,
       cfg_FailureCacheTTL = 300, cfg_CellImage = '''', cfg_CellSocksPort = 1080,
       cfg_CellControlPort = 9090, cfg_ParentID = '''', cfg_CellNetwork = '''',
       cfg_CellControlNetwork = '''', cfg_ManagedScope = ''default'', cfg_DockerHost = '''',
       cfg_APIToken = ''t'' \<rparr>"

definition demo_metrics :: Metrics where
  "demo_metrics =
     \<lparr> TunnelHotGauge = (\<lambda>_. 0), TunnelSpawnsTotal = (\<lambda>_ _. 0), TunnelSpawnDuration = (\<lambda>_. []),
       TunnelReapsTotal = (\<lambda>_ _. 0), TunnelAcquireTotal = (\<lambda>_ _. 0) \<rparr>"

definition demo_mgr :: Manager where
  "demo_mgr = NewManager demo_cfg demo_specmap demo_router demo_metrics"

text \<open>A spawner that fails for the configurations in a set.\<close>

definition demo_spawner :: "string set \<Rightarrow> nat Spawner" where
  "demo_spawner bad =
     \<lparr> sp_Spawn = (\<lambda>_ req w.
          (if req_ConfName req \<in> bad then Inl ErrSpawnTimeout
           else Inr (demo_tunnel\<lparr> tun_ContainerID := ''cell-'' @ req_ConfName req,
                       tun_ConfName := req_ConfName req \<rparr>), w + 1)),
       sp_Kill = (\<lambda>_ w. (None, w + 1)), sp_ListChildren = (\<lambda>w. (Inr [], w)) \<rparr>"

lemma demo_specs_wf: "specs_wf demo_specmap demo_router"
proof -
  have "pool = ''eu'' \<or> pool = ''us''" if "Resolve ul demo_router country = Inr pool" for ul country pool
    using that by (auto simp: Resolve_def demo_router_def Let_def split: if_splits option.splits)
  then show ?thesis
    by (auto simp: specs_wf_def demo_specmap_def demo_spec_def split: if_splits)
qed

lemma demo_mgr_wf: "mgr_wf demo_mgr"
  unfolding demo_mgr_def using demo_specs_wf
  by (rule NewManager_wf) (auto simp: demo_specmap_def demo_spec_def demo_metrics_def split: if_splits)

lemmas demo_defs =
  demo_mgr_def NewManager_def demo_specmap_def demo_spec_def demo_router_def demo_cfg_def
  demo_spawner_def demo_env_def demo_metrics_def demo_tunnel_def newLeaseRegistry_def

lemmas acquire_defs =
  acquireFromPool_def acquire_in_def acquireFromState_def spawnFromState_def recordSpawnFailure_def
  prepare_tunnel_def pickConf_def acquire_def setTunnel_def markFailed_def cleanFailedLocked_def
  NewPoolState_def excludeConfsFor_def Snapshot_def put_pool_def poolMutexFor_def

section \<open>Acquiring\<close>

text \<open>C1: a successful acquisition hands out a tunnel of the requested pool or, if the caller allowed
  it, of its fallback pool, never of a third one. The tunnel is hot, belongs to the pool that is
  named in the result, sits in the slot of that pool with a positive in-flight counter, and is
  either the unexcluded tunnel that was there or a fresh spawn of one of the pool's
  configurations other than the one of the excluded tunnel. All other slots are unchanged.\<close>

theorem acquire_serves:
  assumes "mgr_wf m" "acquireFromPool env sp name ex fb m w = (Inr acq, m', w')"
  shows "\<exists>p t target q. m_pools m name = Some p \<and> m_pools m target = Some q
     \<and> acq = \<lparr> acq_Tunnel = Some t, acq_Pool = target \<rparr>
     \<and> (target = name \<or> fb \<and> target = spec_FallbackPool (ps_Spec p))
     \<and> tun_State t = TunnelStateHot \<and> tun_Pool t = target \<and> 0 < tun_InFlight t
     \<and> granted sp (m_cfg m) ex q t
     \<and> slots m' = (slots m)(target := Some (Some t))"
proof -
  obtain p where p: "m_pools m name = Some p"
    using assms(2) by (cases "m_pools m name") (auto simp: acquireFromPool_def)
  show ?thesis
    using assms(1) p assms(2)
  proof (cases rule: acquireFromPool_known)
    case (own t)
    with p granted_hot [OF own(2) mgr_wf_slot [OF assms(1) p]] show ?thesis
      by (intro exI [of _ p] exI [of _ t] exI [of _ name] exI [of _ p]) simp
  next
    case (other t fp q)
    with p granted_hot [OF other(6) mgr_wf_slot [OF assms(1) other(4)]] show ?thesis
      by (intro exI [of _ p] exI [of _ t] exI [of _ fp] exI [of _ q]) simp
  qed simp
qed

lemma demo_acquire_fallback:
  "\<exists>m' w'. acquireFromPool demo_env (demo_spawner {''de-x'', ''fr-y''}) ''eu'' None True demo_mgr 0 =
     (Inr \<lparr> acq_Tunnel = Some (demo_tunnel\<lparr> tun_ContainerID := ''cell-us-a'', tun_ConfName := ''us-a'',
              tun_Pool := ''us'', tun_InFlight := 1, tun_LastUsedAt := 12 \<rparr>), acq_Pool = ''us'' \<rparr>, m', w')"
  by (simp add: demo_defs acquire_defs Let_def numeral_2_eq_2)

theorem acquire_serves_witness:
  "\<exists>t q m' w'.
     acquireFromPool demo_env (demo_spawner {''de-x'', ''fr-y''}) ''eu'' None True demo_mgr 0 =
       (Inr \<lparr> acq_Tunnel = Some t, acq_Pool = ''us'' \<rparr>, m', w')
     \<and> tun_Pool t = ''us'' \<and> m_pools demo_mgr ''us'' = Some q
     \<and> granted (demo_spawner {''de-x'', ''fr-y''}) (m_cfg demo_mgr) None q t"
proof -
  obtain t m' w' where a: "acquireFromPool demo_env (demo_spawner {''de-x'', ''fr-y''}) ''eu'' None True
      demo_mgr 0 = (Inr \<lparr> acq_Tunnel = Some t, acq_Pool = ''us'' \<rparr>, m', w')"
    using demo_acquire_fallback by blast
  show ?thesis using acquire_serves [OF demo_mgr_wf a] a by auto
qed

text \<open>C7: a failed acquisition changes no slot. It reports an unknown pool exactly when the requested
  pool does not exist, and otherwise that the pool is exhausted or unavailable; whatever error the
  spawner reports is turned into one of these.\<close>

theorem acquire_refusal:
  assumes "mgr_wf m" "acquireFromPool env sp name ex fb m w = (Inl e, m', w')"
  shows "slots m' = slots m
     \<and> (if name \<in> dom (m_pools m) then e = ErrPoolExhausted \<or> e = ErrPoolUnavailable
        else e = ErrUnknownPool)"
proof (cases "m_pools m name")
  case None
  then show ?thesis using assms(2) by (auto simp: acquireFromPool_def)
next
  case (Some p)
  show ?thesis
    using assms(1) Some assms(2) by (cases rule: acquireFromPool_known) (use Some in auto)
qed

theorem acquire_refusal_witness:
  "\<exists>m' w'. acquireFromPool demo_env (demo_spawner {''us-a''}) ''us'' None True demo_mgr 0 =
       (Inl ErrPoolUnavailable, m', w') \<and> slots m' = slots demo_mgr"
proof -
  obtain m' w' where a: "acquireFromPool demo_env (demo_spawner {''us-a''}) ''us'' None True demo_mgr 0 =
       (Inl ErrPoolUnavailable, m', w')"
    by (simp add: demo_defs acquire_defs Let_def)
  show ?thesis using acquire_refusal [OF demo_mgr_wf a] a by simp
qed

text \<open>a request by country never fails because of the configuration of the pools: with the routes
  and fallbacks of a loaded configuration, the only errors are that the country resolves to no
  pool, or that the pool is exhausted or unavailable.\<close>

theorem country_never_unknown_pool:
  assumes "mgr_wf m" "AcquireForCountry ul env sp country ex fb m w = (Inl e, m', w')"
  shows "e = ErrPoolExhausted \<or> e = ErrPoolUnavailable
    \<or> (e = ErrInvalidCountry \<and> m' = m \<and> Resolve ul (m_router m) country = Inl e)"
proof (cases "Resolve ul (m_router m) country")
  case (Inl e')
  moreover have "e' = ErrInvalidCountry"
    using Inl by (auto simp: Resolve_def split: option.splits if_splits)
  ultimately show ?thesis using assms(2) by (simp add: AcquireForCountry_def)
next
  case (Inr pool)
  then have "pool \<in> dom (m_pools m)"
    using assms(1) unfolding mgr_wf_def specs_wf_def by metis
  then obtain p where p: "m_pools m pool = Some p" by blast
  have a: "acquireFromPool env sp pool ex fb m w = (Inl e, m', w')"
    using assms(2) Inr by (simp add: AcquireForCountry_def)
  show ?thesis
    using assms(1) p a by (cases rule: acquireFromPool_known) auto
qed

theorem country_never_unknown_pool_witness:
  "\<exists>e m' w'. AcquireForCountry id demo_env (demo_spawner {''us-a''}) ''FR'' None False demo_mgr 0 =
       (Inl e, m', w') \<and> (e = ErrPoolExhausted \<or> e = ErrPoolUnavailable)"
proof -
  have "route_key id ''FR'' = ''fr''" by code_simp
  then have r: "Resolve id (m_router demo_mgr) ''FR'' = Inr ''us''"
    by (simp add: Resolve_def demo_defs)
  then obtain e m' w' where a: "AcquireForCountry id demo_env (demo_spawner {''us-a''}) ''FR'' None False
      demo_mgr 0 = (Inl e, m', w')"
    by (simp add: AcquireForCountry_def demo_defs acquire_defs Let_def)
  show ?thesis using country_never_unknown_pool [OF demo_mgr_wf a] a r by auto
qed

section \<open>What the invariant says\<close>

lemma mgr_wf_facts:
  assumes wf: "mgr_wf m"
  shows "(\<forall>name t. slots m name = Some (Some t) \<longrightarrow> 0 \<le> tun_InFlight t \<and> tun_Pool t = name)
    \<and> (\<forall>name \<in> dom (m_pools m). mgr_gauge m name = (if slots m name = Some None then 0 else 1))
    \<and> (\<forall>i rec. reg_leases (m_leases m) i = Some rec \<longrightarrow> lease_Pool rec \<in> dom (m_pools m))"
proof -
  have "0 \<le> tun_InFlight t \<and> tun_Pool t = name" if "slots m name = Some (Some t)" for name t
    using that mgr_wf_slot [OF wf, of name] by (auto simp: slots_def slot_wf_def pool_wf_def)
  moreover have "mgr_gauge m name = (if slots m name = Some None then 0 else 1)"
    if "name \<in> dom (m_pools m)" for name
    using that mgr_wf_slot [OF wf, of name] by (auto simp: slots_def slot_wf_def)
  moreover have "lease_Pool rec \<in> dom (m_pools m)" if "reg_leases (m_leases m) i = Some rec" for i rec
    using that wf unfolding mgr_wf_def by blast
  ultimately show ?thesis by blast
qed

definition demo_dialer :: "(unit, unit, nat) Dialer" where
  "demo_dialer =
     \<lparr> dl_SOCKS5 = (\<lambda>_ _. Inr ()), dl_hasContext = (\<lambda>_. True),
       dl_DialContext = (\<lambda>_ _ _ w. (Inr (), w)), dl_Close = (\<lambda>_ w. (None, w)) \<rparr>"

section \<open>Leases and connections\<close>

text \<open>C4: a lease only ever opens its own cell. An acquisition with the credentials of a lease
  succeeds exactly when the lookup finds the lease and the slot of its pool still holds the hot
  cell the lease was issued for; the result is that cell, with one more reservation, and no other
  slot changes. Otherwise no slot changes and the pool is reported unavailable.\<close>

theorem lease_opens_its_cell:
  assumes "mgr_wf m" "AcquireForLease sha256 env u pw m w = (res, m', w')"
  shows "case res of
      Inr acq \<Rightarrow> (\<exists>rec t at. fst (Lookup sha256 env u pw (m_leases m) w) = Some rec
         \<and> slots m (lease_Pool rec) = Some (Some t) \<and> tun_State t = TunnelStateHot
         \<and> tun_ContainerID t = lease_ContainerID rec
         \<and> acq = \<lparr> acq_Tunnel = Some (reserved at t), acq_Pool = lease_Pool rec \<rparr>
         \<and> slots m' = (slots m)(lease_Pool rec := Some (Some (reserved at t))))
    | Inl e \<Rightarrow> e = ErrPoolUnavailable \<and> slots m' = slots m
         \<and> (\<nexists>rec t. fst (Lookup sha256 env u pw (m_leases m) w) = Some rec
              \<and> slots m (lease_Pool rec) = Some (Some t) \<and> tun_State t = TunnelStateHot
              \<and> tun_ContainerID t = lease_ContainerID rec)"
  using assms
proof (cases rule: AcquireForLease_cases)
  case (unknown now)
  then show ?thesis by (simp add: slots_def fun_eq_iff)
next
  case (gone rec p now)
  then show ?thesis by (auto simp: slots_def fun_eq_iff)
next
  case (reserved rec p t at now)
  then show ?thesis
    by (auto simp: slots_def fun_eq_iff intro!: exI [of _ rec] exI [of _ t] exI [of _ at])
qed

text \<open>The small manager with a cell in the slot of \<open>eu\<close> and a lease for it.\<close>

definition demo_leased :: Manager where
  "demo_leased =
     demo_mgr\<lparr> m_pools := (m_pools demo_mgr)(''eu'' \<mapsto>
         \<lparr> ps_Spec = demo_spec ''eu'' [''de-x'', ''fr-y''] ''us'', ps_tunnel = Some demo_tunnel,
           ps_failed = [] \<rparr>),
       m_leases := (m_leases demo_mgr)\<lparr> reg_leases := [''id'' \<mapsto>
         \<lparr> lease_Pool = ''eu'', lease_ContainerID = ''c1'', lease_InternalURL = tun_ProxyURL demo_tunnel,
           lease_GatewayAddr = ''10.0.0.2:1080'', lease_SecretDigest = rev ''secret'',
           lease_ExpiresAt = 1000 \<rparr>] \<rparr>,
       m_shared := \<lparr> sh_spawnMu = {}, sh_metrics =
         demo_metrics\<lparr> TunnelHotGauge := (\<lambda>n. if n = ''eu'' then 1 else 0) \<rparr> \<rparr> \<rparr>"

lemma demo_leased_wf: "mgr_wf demo_leased"
  using demo_specs_wf
  by (auto simp: mgr_wf_def demo_leased_def slot_wf_def pool_wf_def NewPoolState_def demo_mgr_def
      NewManager_def demo_specmap_def demo_spec_def demo_tunnel_def split: if_splits)

lemma demo_leased_lookup:
  "\<exists>rec. fst (Lookup rev demo_env ''id'' ''secret'' (m_leases demo_leased) 0) = Some rec
     \<and> lease_Pool rec = ''eu'' \<and> lease_ContainerID rec = ''c1''"
  by (simp add: Lookup_def demo_leased_def pruneExpiredLocked_def demo_env_def Let_def)

lemma demo_leased_slot: "slots demo_leased ''eu'' = Some (Some demo_tunnel)"
  by (simp add: slots_def demo_leased_def)

theorem lease_opens_its_cell_witness:
  "\<exists>acq m' w' at. AcquireForLease rev demo_env ''id'' ''secret'' demo_leased 0 = (Inr acq, m', w')
     \<and> acq = \<lparr> acq_Tunnel = Some (reserved at demo_tunnel), acq_Pool = ''eu'' \<rparr>
     \<and> slots m' = (slots demo_leased)(''eu'' := Some (Some (reserved at demo_tunnel)))"
proof -
  obtain res m' w' where a: "AcquireForLease rev demo_env ''id'' ''secret'' demo_leased 0 = (res, m', w')"
    by (metis surj_pair)
  obtain rec where l: "fst (Lookup rev demo_env ''id'' ''secret'' (m_leases demo_leased) 0) = Some rec"
    "lease_Pool rec = ''eu''" "lease_ContainerID rec = ''c1''"
    using demo_leased_lookup by blast
  have t: "tun_State demo_tunnel = TunnelStateHot" "tun_ContainerID demo_tunnel = ''c1''"
    by (simp_all add: demo_tunnel_def)
  show ?thesis
  proof (cases res)
    case (Inl e)
    then show ?thesis
      using lease_opens_its_cell [OF demo_leased_wf a] l demo_leased_slot t by auto
  next
    case (Inr acq)
    then show ?thesis
      using lease_opens_its_cell [OF demo_leased_wf a] l demo_leased_slot a by auto
  qed
qed

definition inflight :: "Manager \<Rightarrow> string \<Rightarrow> int" where
  "inflight m name = (case slots m name of Some (Some t) \<Rightarrow> tun_InFlight t | _ \<Rightarrow> 0)"

lemma slots_release:
  "slots (manager_Release acq m) =
     (case slots m (acq_Pool acq) of
        Some (Some t) \<Rightarrow>
          (slots m)(acq_Pool acq := Some (Some (if tun_InFlight t \<le> 0 then t
             else t\<lparr> tun_InFlight := tun_InFlight t - 1 \<rparr>)))
      | _ \<Rightarrow> slots m)"
  by (cases "m_pools m (acq_Pool acq)")
     (auto simp: slots_def manager_Release_def release_def fun_eq_iff split: option.splits)

lemma inflight_release:
  assumes "slots m (acq_Pool acq) = Some (Some t)" "0 < tun_InFlight t"
  shows "inflight (manager_Release acq m) = (inflight m)(acq_Pool acq := tun_InFlight t - 1)"
  using assms by (auto simp: inflight_def slots_release fun_eq_iff split: option.splits)

lemma lease_inflight:
  assumes "mgr_wf m" "AcquireForLease sha256 env u pw m w = (Inr acq, m', w')"
  shows "inflight m' = (inflight m)(acq_Pool acq := inflight m (acq_Pool acq) + 1)
    \<and> inflight (manager_Release acq m') = inflight m"
  using assms
proof (cases rule: AcquireForLease_cases)
  case (reserved rec p t at now)
  have t: "slots m (acq_Pool acq) = Some (Some t)"
    using reserved by (simp add: slots_def)
  have m': "slots m' = (slots m)(acq_Pool acq := Some (Some (reserved at t)))"
    using reserved by (auto simp: slots_def fun_eq_iff)
  have pos: "0 \<le> tun_InFlight t"
    using slot_wf_InFlight [OF mgr_wf_slot [OF assms(1)]] reserved by blast
  have i: "inflight m' = (inflight m)(acq_Pool acq := inflight m (acq_Pool acq) + 1)"
    using t m' by (auto simp: inflight_def fun_eq_iff)
  have "inflight (manager_Release acq m') = (inflight m')(acq_Pool acq := tun_InFlight t)"
    using inflight_release [of m' acq "reserved at t"] m' pos by simp
  with i t show ?thesis by (auto simp: inflight_def fun_eq_iff)
qed simp_all

text \<open>connections through a lease are counted exactly once. When dialling through a lease fails,
  at whatever stage, the in-flight counters are as before; when it succeeds, the counter of the
  lease's pool is one higher, the first close of the connection brings it back, and closing again
  changes nothing.\<close>

theorem dial_close_balanced:
  assumes "mgr_wf m" "dialLease sha256 env dl u pw network address m w = (res, m', w')"
  shows "case res of
      Inl e \<Rightarrow> inflight m' = inflight m
    | Inr c \<Rightarrow>
        inflight m' = (inflight m)(acq_Pool (rc_release c) := inflight m (acq_Pool (rc_release c)) + 1)
        \<and> (case releaseConn_Close dl c m' w1 of
             (err, c', m1, w2) \<Rightarrow>
               inflight m1 = inflight m
               \<and> (case releaseConn_Close dl c' m1 w3 of (err', c'', m2, w4) \<Rightarrow> m2 = m1))"
proof -
  obtain a m1 wa where l: "AcquireForLease sha256 env u pw m w = (a, m1, wa)" by (metis surj_pair)
  show ?thesis
  proof (cases a)
    case (Inl e)
    have "slots m1 = slots m"
      using assms(1) l [unfolded Inl]
      by (cases rule: AcquireForLease_cases) (auto simp: slots_def fun_eq_iff)
    then show ?thesis
      using assms(2) l Inl by (auto simp: dialLease_def inflight_def fun_eq_iff)
  next
    case (Inr acq)
    note i = lease_inflight [OF assms(1) l [unfolded Inr]]
    show ?thesis
      using assms(2) l Inr i
      by (auto simp: dialLease_def Let_def releaseConn_Close_def
          split: sum.splits if_splits prod.splits)
  qed
qed

theorem dial_close_balanced_witness:
  "\<exists>c m' w'. dialLease rev demo_env demo_dialer ''id'' ''secret'' ''tcp'' ''example.com:443'' demo_leased 0 =
       (Inr c, m', w')
     \<and> inflight m' ''eu'' = 1
     \<and> inflight (fst (snd (snd (releaseConn_Close demo_dialer c m' 0)))) ''eu'' = 0"
proof -
  obtain c m' w' where d: "dialLease rev demo_env demo_dialer ''id'' ''secret'' ''tcp'' ''example.com:443''
      demo_leased 0 = (Inr c, m', w')" and p: "acq_Pool (rc_release c) = ''eu''"
    by (simp add: dialLease_def AcquireForLease_def Lookup_def demo_leased_def pruneExpiredLocked_def
        demo_env_def demo_dialer_def acquireContainer_def demo_tunnel_def Let_def)
  have "inflight demo_leased ''eu'' = 0"
    by (simp add: inflight_def demo_leased_slot) (simp add: demo_tunnel_def)
  moreover obtain err c' m1 w2 where "releaseConn_Close demo_dialer c m' 0 = (err, c', m1, w2)"
    by (metis surj_pair)
  ultimately show ?thesis
    using dial_close_balanced [OF demo_leased_wf d, where ?w1.0 = 0 and ?w3.0 = 0] d p by simp
qed

section \<open>Shutdown and views\<close>

text \<open>The identifiers of the cells in the slots, in visiting order.\<close>

definition tracked :: "Manager \<Rightarrow> string list \<Rightarrow> string list" where
  "tracked m order =
     concat (map (\<lambda>n. case slots m n of
                        Some (Some t) \<Rightarrow> if tun_ContainerID t = '''' then [] else [tun_ContainerID t]
                      | _ \<Rightarrow> []) order)"

lemma tracked_cong: "(\<And>n. n \<in> set order \<Longrightarrow> slots m n = slots m' n) \<Longrightarrow> tracked m order = tracked m' order"
  unfolding tracked_def by (metis (mono_tags, lifting) map_eq_conv)

lemma manager_Close_spec:
  "distinct order \<Longrightarrow> manager_Close sp order m w = (m', w') \<Longrightarrow>
     w' = fold (\<lambda>c w. snd (sp_Kill sp c w)) (tracked m order) w
     \<and> (\<forall>n. slots m' n =
          (case slots m n of
             Some (Some t) \<Rightarrow> if n \<in> set order \<and> tun_ContainerID t \<noteq> '''' then Some None else slots m n
           | _ \<Rightarrow> slots m n))"
proof (induction order arbitrary: m w)
  case Nil
  then show ?case by (auto simp: tracked_def split: option.splits)
next
  case (Cons name order)
  show ?case
  proof (cases "\<exists>p t. m_pools m name = Some p \<and> ps_tunnel p = Some t \<and> tun_ContainerID t \<noteq> ''''")
    case True
    then obtain p t where p: "m_pools m name = Some p" "ps_tunnel p = Some t" "tun_ContainerID t \<noteq> ''''"
      by blast
    define m1 where "m1 = put_pool name (fst (setTunnel None (sh_metrics (m_shared m)) p))
       (m\<lparr> m_shared := (m_shared m)\<lparr> sh_metrics := snd (setTunnel None (sh_metrics (m_shared m)) p) \<rparr> \<rparr>)"
    have s1: "slots m1 = (slots m)(name := Some None)"
      by (auto simp: m1_def slots_def setTunnel_def fun_eq_iff)
    have step: "manager_Close sp order m1 (snd (sp_Kill sp (tun_ContainerID t) w)) = (m', w')"
      using Cons.prems(2) p by (simp add: Snapshot_def m1_def Let_def case_prod_unfold)
    have "tracked m1 order = tracked m order"
      using Cons.prems(1) s1 by (intro tracked_cong) auto
    moreover have "tracked m (name # order) = tun_ContainerID t # tracked m order"
      using p by (simp add: tracked_def slots_def)
    ultimately show ?thesis
      using Cons.IH [OF _ step] Cons.prems(1) s1 p
      by (auto simp: slots_def split: option.splits)
  next
    case False
    then have "manager_Close sp (name # order) m w = manager_Close sp order m w"
      "tracked m (name # order) = tracked m order"
      by (auto simp: Snapshot_def tracked_def slots_def split: option.splits)
    then show ?thesis
      using Cons.IH [of m w] Cons.prems False by (auto simp: slots_def split: option.splits)
  qed
qed

text \<open>a shutdown kills exactly the cells in the slots of this manager, each once, in the order in
  which it visits the pools, and leaves no slot with a cell that has a container identifier.\<close>

theorem close_kills_tracked:
  assumes "range_order order (m_pools m)" "manager_Close sp order m w = (m', w')"
  shows "w' = fold (\<lambda>c w. snd (sp_Kill sp c w)) (tracked m order) w
     \<and> (\<forall>n t. slots m' n = Some (Some t) \<longrightarrow> tun_ContainerID t = '''')"
proof -
  have d: "distinct order" and dom: "set order = dom (m_pools m)"
    using assms(1) by (auto simp: range_order_def)
  note c = manager_Close_spec [OF d assms(2)]
  have "tun_ContainerID t = ''''" if "slots m' n = Some (Some t)" for n t
  proof -
    have "n \<in> set order" if "slots m n = Some (Some t)" for t
      using that dom by (auto simp: slots_def)
    then show ?thesis
      using that c by (auto split: option.splits if_splits)
  qed
  with c show ?thesis by blast
qed

text \<open>A spawner that logs the cells it kills.\<close>

definition log_spawner :: "string list Spawner" where
  "log_spawner =
     \<lparr> sp_Spawn = (\<lambda>_ _ w. (Inl ErrSpawnFailed, w)), sp_Kill = (\<lambda>c w. (None, w @ [c])),
       sp_ListChildren = (\<lambda>w. (Inr [], w)) \<rparr>"

theorem close_kills_tracked_witness:
  "\<exists>m'. manager_Close log_spawner [''us'', ''eu''] demo_leased [] = (m', [''c1''])
     \<and> slots m' ''eu'' = Some None"
proof -
  have o: "range_order [''us'', ''eu''] (m_pools demo_leased)"
    by (auto simp: range_order_def demo_leased_def demo_mgr_def NewManager_def demo_specmap_def dom_def)
  obtain m' w' where c: "manager_Close log_spawner [''us'', ''eu''] demo_leased [] = (m', w')"
    by (metis surj_pair)
  have "tracked demo_leased [''us'', ''eu''] = [''c1'']"
    by (simp add: tracked_def demo_leased_slot)
       (simp add: slots_def demo_leased_def demo_mgr_def NewManager_def demo_specmap_def
         NewPoolState_def demo_tunnel_def)
  then have "w' = [''c1'']"
    using close_kills_tracked [OF o c] by (simp add: log_spawner_def)
  moreover have "slots m' ''eu'' = Some None"
    using manager_Close_spec [OF _ c] demo_leased_slot by (simp add: demo_tunnel_def)
  ultimately show ?thesis using c by simp
qed

definition pool_view :: "time \<Rightarrow> duration \<Rightarrow> string \<Rightarrow> PoolState \<Rightarrow> PoolView" where
  "pool_view now ttl name p =
     \<lparr> pv_Name = name, pv_Region = spec_Region (ps_Spec p),
       pv_Tunnel = map_option (\<lambda>t. tunnelViewOf t now) (ps_tunnel p),
       pv_FallbackPool = spec_FallbackPool (ps_Spec p),
       pv_ConfCount = length (spec_Configs (ps_Spec p)),
       pv_RecentlyFailed = card {conf. failed_within now ttl p conf} \<rparr>"

lemma failed_count:
  assumes "distinct (map fst (ps_failed p))"
  shows "length (ps_failed (cleanFailedLocked now ttl p)) = card {conf. failed_within now ttl p conf}"
proof -
  let ?q = "cleanFailedLocked now ttl p"
  have "{conf. failed_within now ttl p conf} = dom (map_of (ps_failed ?q))"
    using cleanFailedLocked_banned [OF assms] by (auto simp: dom_def)
  also have "card \<dots> = length (ps_failed ?q)"
    using cleanFailedLocked_distinct [OF assms]
    by (metis dom_map_of_conv_image_fst list.set_map distinct_card length_map)
  finally show ?thesis by simp
qed

lemma views_loop_spec:
  assumes "distinct order" "set order \<subseteq> dom (m_pools m)" "mgr_wf m" "views_loop now order m = (out, m')"
  shows "out = map (\<lambda>n. pool_view now (cfg_FailureCacheTTL (m_cfg m)) n (the (m_pools m n))) order
     \<and> slots m' = slots m"
  using assms
proof (induction order arbitrary: m out)
  case (Cons name order)
  let ?ttl = "cfg_FailureCacheTTL (m_cfg m)"
  obtain p where p: "m_pools m name = Some p" using Cons.prems(2) by auto
  let ?q = "cleanFailedLocked now ?ttl p"
  have d: "distinct (map fst (ps_failed p))"
    using mgr_wf_slot [OF Cons.prems(3) p] by (simp add: slot_wf_def pool_wf_def)
  have wf: "mgr_wf (put_pool name ?q m)"
    using mgr_wf_put_same [OF Cons.prems(3) p] mgr_wf_slot [OF Cons.prems(3) p] by blast
  obtain out1 where rest: "views_loop now order (put_pool name ?q m) = (out1, m')"
    and out: "out = pool_view now ?ttl name p # out1"
    using Cons.prems(4) p failed_count [OF d, of now ?ttl]
    by (auto simp: RecentlyFailedCount_def pool_view_def Snapshot_def Let_def split: prod.splits)
  have s: "slots (put_pool name ?q m) = slots m"
    using p by (auto simp: slots_def fun_eq_iff)
  have "set order \<subseteq> dom (m_pools (put_pool name ?q m))" "distinct order"
    using Cons.prems(1,2) by auto
  note IH = Cons.IH [OF this(2,1) wf rest]
  have "m_pools (put_pool name ?q m) n = m_pools m n" if "n \<in> set order" for n
    using that Cons.prems(1) by auto
  then have "out1 = map (\<lambda>n. pool_view now ?ttl n (the (m_pools m n))) order"
    using IH by simp
  then show ?case using IH s out p by simp
qed simp

text \<open>the operator view of the pools is complete and stable. Whatever the order in which the map
  is visited, the result has exactly one entry per pool, sorted by name, each with the pool's own
  tunnel, its number of configurations, and the number of configurations that failed within the
  lifetime of the failure cache; and taking the view changes no slot.\<close>

theorem views_complete:
  assumes "mgr_wf m" "range_order order (m_pools m)" "Views env order m w = (views, m', w')"
  shows "views = map (\<lambda>n. pool_view (fst (env_Now env w)) (cfg_FailureCacheTTL (m_cfg m)) n
      (the (m_pools m n))) (sort order)
    \<and> sorted (map pv_Name views) \<and> distinct (map pv_Name views)
    \<and> set (map pv_Name views) = dom (m_pools m) \<and> slots m' = slots m"
proof -
  let ?v = "\<lambda>n. pool_view (fst (env_Now env w)) (cfg_FailureCacheTTL (m_cfg m)) n (the (m_pools m n))"
  obtain out where l: "views_loop (fst (env_Now env w)) order m = (out, m')"
    and v: "views = sort_key pv_Name out"
    using assms(3) by (auto simp: Views_def split: prod.splits)
  have o: "distinct order" "set order = dom (m_pools m)"
    using assms(2) by (auto simp: range_order_def)
  have out: "out = map ?v order" "slots m' = slots m"
    using views_loop_spec [OF o(1) _ assms(1) l] o(2) by auto
  have "pv_Name \<circ> ?v = (\<lambda>n. n)" by (auto simp: pool_view_def)
  then have views: "views = map ?v (sort order)"
    unfolding v out(1) sort_key_map by simp
  have names: "map pv_Name views = sort order"
    unfolding views by (simp add: pool_view_def comp_def)
  show ?thesis
    using views names o out(2) by simp
qed

theorem views_complete_witness:
  "map pv_Name (fst (Views demo_env [''us'', ''eu''] demo_leased 0)) = [''eu'', ''us'']"
proof -
  have o: "range_order [''us'', ''eu''] (m_pools demo_leased)"
    by (auto simp: range_order_def demo_leased_def demo_mgr_def NewManager_def demo_specmap_def dom_def)
  obtain views m' w' where v: "Views demo_env [''us'', ''eu''] demo_leased 0 = (views, m', w')"
    by (metis surj_pair)
  have "sort [''us'', ''eu''] = [''eu'', ''us'']" by code_simp
  then show ?thesis
    using views_complete [OF demo_leased_wf o v] v by (simp add: pool_view_def comp_def)
qed

end
