(* ===== verification/Recorder.thy ===== *)
theory Recorder
  imports Go_Prelude "HOL-Library.Word"
begin

text \<open>
  The traffic recorder of a cell (\<^verbatim>\<open>internal/pkg/cellproxy\<close>: \<^verbatim>\<open>recorder.go\<close>, \<^verbatim>\<open>conn.go\<close> and the
  dialer of \<^verbatim>\<open>proxy.go\<close>): per-destination counters with an overflow bucket, the counting
  connection, and the ranked snapshot. The counters are 64-bit integers that wrap around.
\<close>

type_synonym int64 = "64 word"

section \<open>The recorder\<close>

record DestStat =
  ds_Destination :: string
  ds_Requests :: int64
  ds_BytesUp :: int64
  ds_BytesDown :: int64
  ds_Active :: int64

record Stats =
  st_Requests :: int64
  st_BytesUp :: int64
  st_BytesDown :: int64
  st_Active :: int64
  st_DialFailures :: int64
  st_Destinations :: "DestStat list"

text \<open>The map of destinations is an association list with distinct keys.\<close>

record Recorder =
  rec_dests :: "(string \<times> DestStat) list"
  rec_requests :: int64
  rec_bytesUp :: int64
  rec_bytesDown :: int64
  rec_active :: int64
  rec_dialFailures :: int64
  rec_topN :: int

definition maxTrackedDestinations :: nat where
  "maxTrackedDestinations = 2048"

definition overflowDestination :: string where
  "overflowDestination = ''(other)''"

definition NewRecorder :: "int \<Rightarrow> Recorder" where
  "NewRecorder topN =
     (let topN = (if topN \<le> 0 then int maxTrackedDestinations else topN)
      in \<lparr> rec_dests = [], rec_requests = 0, rec_bytesUp = 0, rec_bytesDown = 0, rec_active = 0,
           rec_dialFailures = 0, rec_topN = topN \<rparr>)"

definition new_stat :: "string \<Rightarrow> DestStat" where
  "new_stat dest =
     \<lparr> ds_Destination = dest, ds_Requests = 0, ds_BytesUp = 0, ds_BytesDown = 0, ds_Active = 0 \<rparr>"

text \<open>\<^verbatim>\<open>bucket\<close> returns a pointer into the map: here the entry and the map that holds it.\<close>

definition bucket :: "string \<Rightarrow> (string \<times> DestStat) list \<Rightarrow> DestStat \<times> (string \<times> DestStat) list" where
  "bucket dest dests =
     (case map_of dests dest of
        Some stat \<Rightarrow> (stat, dests)
      | None \<Rightarrow>
          (case (if length dests \<ge> maxTrackedDestinations
                 then (overflowDestination, map_of dests overflowDestination)
                 else (dest, None)) of
             (_, Some stat) \<Rightarrow> (stat, dests)
           | (dest, None) \<Rightarrow> (new_stat dest, AList.update dest (new_stat dest) dests)))"

definition recorder_Open :: "string \<Rightarrow> Recorder \<Rightarrow> string \<times> Recorder" where
  "recorder_Open dest r =
     (let (stat, dests) = bucket dest (rec_dests r);
          stat = stat\<lparr> ds_Requests := ds_Requests stat + 1, ds_Active := ds_Active stat + 1 \<rparr>
      in (ds_Destination stat,
          r\<lparr> rec_dests := AList.update (ds_Destination stat) stat dests,
             rec_requests := rec_requests r + 1, rec_active := rec_active r + 1 \<rparr>))"

definition recorder_Close :: "string \<Rightarrow> Recorder \<Rightarrow> Recorder" where
  "recorder_Close key r =
     (let r = (case map_of (rec_dests r) key of
                 Some stat \<Rightarrow>
                   if 0 <s ds_Active stat
                   then r\<lparr> rec_dests := AList.update key (stat\<lparr> ds_Active := ds_Active stat - 1 \<rparr>)
                            (rec_dests r) \<rparr>
                   else r
               | None \<Rightarrow> r)
      in if 0 <s rec_active r then r\<lparr> rec_active := rec_active r - 1 \<rparr> else r)"

definition recorder_Up :: "string \<Rightarrow> int64 \<Rightarrow> Recorder \<Rightarrow> Recorder" where
  "recorder_Up key n r =
     (let r = (case map_of (rec_dests r) key of
                 Some stat \<Rightarrow> r\<lparr> rec_dests := AList.update key
                                  (stat\<lparr> ds_BytesUp := ds_BytesUp stat + n \<rparr>) (rec_dests r) \<rparr>
               | None \<Rightarrow> r)
      in r\<lparr> rec_bytesUp := rec_bytesUp r + n \<rparr>)"

definition recorder_Down :: "string \<Rightarrow> int64 \<Rightarrow> Recorder \<Rightarrow> Recorder" where
  "recorder_Down key n r =
     (let r = (case map_of (rec_dests r) key of
                 Some stat \<Rightarrow> r\<lparr> rec_dests := AList.update key
                                  (stat\<lparr> ds_BytesDown := ds_BytesDown stat + n \<rparr>) (rec_dests r) \<rparr>
               | None \<Rightarrow> r)
      in r\<lparr> rec_bytesDown := rec_bytesDown r + n \<rparr>)"

definition recorder_DialFailed :: "Recorder \<Rightarrow> Recorder" where
  "recorder_DialFailed r = r\<lparr> rec_dialFailures := rec_dialFailures r + 1 \<rparr>"

text \<open>
  The snapshot lists the entries in the visiting order of the map and sorts them by their byte
  volume, largest first. The sort of the code is not stable; as the visiting order is arbitrary,
  a stable sort covers every result.
\<close>

definition volume :: "DestStat \<Rightarrow> int" where
  "volume d = sint (ds_BytesUp d + ds_BytesDown d)"

definition recorder_Snapshot :: "string list \<Rightarrow> Recorder \<Rightarrow> Stats" where
  "recorder_Snapshot order r =
     (let list = List.map_filter (map_of (rec_dests r)) order;
          list = sort_key (\<lambda>d. - volume d) list;
          list = (if int (length list) > rec_topN r then take (nat (rec_topN r)) list else list)
      in \<lparr> st_Requests = rec_requests r, st_BytesUp = rec_bytesUp r, st_BytesDown = rec_bytesDown r,
           st_Active = rec_active r, st_DialFailures = rec_dialFailures r,
           st_Destinations = list \<rparr>)"

section \<open>Connections\<close>

text \<open>A counting connection: its bucket and whether it has been closed.\<close>

record countingConn =
  cc_key :: string
  cc_closed :: bool

definition newCountingConn :: "string \<Rightarrow> countingConn" where
  "newCountingConn key = \<lparr> cc_key = key, cc_closed = False \<rparr>"

definition conn_Read :: "countingConn \<Rightarrow> int \<Rightarrow> Recorder \<Rightarrow> Recorder" where
  "conn_Read c n r = (if n > 0 then recorder_Down (cc_key c) (word_of_int n) r else r)"

definition conn_Write :: "countingConn \<Rightarrow> int \<Rightarrow> Recorder \<Rightarrow> Recorder" where
  "conn_Write c n r = (if n > 0 then recorder_Up (cc_key c) (word_of_int n) r else r)"

definition conn_Close :: "countingConn \<Rightarrow> Recorder \<Rightarrow> countingConn \<times> Recorder" where
  "conn_Close c r =
     (if cc_closed c then (c, r) else (c\<lparr> cc_closed := True \<rparr>, recorder_Close (cc_key c) r))"

text \<open>The dialer: \<open>ok\<close> tells whether the outbound dial succeeded.\<close>

definition server_dial :: "bool \<Rightarrow> string \<Rightarrow> Recorder \<Rightarrow> countingConn option \<times> Recorder" where
  "server_dial ok addr r =
     (if \<not> ok then (None, recorder_DialFailed r)
      else let (key, r) = recorder_Open addr r in (Some (newCountingConn key), r))"

section \<open>Lemmas on the map of destinations\<close>

definition dest_sum :: "(DestStat \<Rightarrow> int64) \<Rightarrow> (string \<times> DestStat) list \<Rightarrow> int64" where
  "dest_sum f dests = sum_list (map (\<lambda>x. f (snd x)) dests)"

lemma dest_sum_update:
  "dest_sum f (AList.update k v dests) =
     dest_sum f dests + f v - (case map_of dests k of None \<Rightarrow> 0 | Some v0 \<Rightarrow> f v0)"
  by (induction dests) (auto simp: dest_sum_def algebra_simps)

lemma length_update:
  "length (AList.update k v xs) = (if k \<in> fst ` set xs then length xs else length xs + 1)"
  by (induction xs) auto

definition dests_wf :: "(string \<times> DestStat) list \<Rightarrow> bool" where
  "dests_wf dests \<longleftrightarrow>
     distinct (map fst dests) \<and> (\<forall>k d. map_of dests k = Some d \<longrightarrow> ds_Destination d = k)
     \<and> (length dests \<le> maxTrackedDestinations
        \<or> length dests = maxTrackedDestinations + 1 \<and> map_of dests overflowDestination \<noteq> None)"

lemma map_of_None_fst: "map_of xs k = None \<longleftrightarrow> k \<notin> fst ` set xs"
  by (simp add: map_of_eq_None_iff)

lemma dests_wf_update:
  assumes "dests_wf dests" "map_of dests k \<noteq> None" "ds_Destination d = k"
  shows "dests_wf (AList.update k d dests)"
  using assms
  by (auto simp: dests_wf_def distinct_update update_conv' length_update map_of_None_fst)

lemma bucket_cases:
  assumes wf: "dests_wf dests" and b: "bucket dest dests = (stat, dests')"
  obtains
    (old) "map_of dests (ds_Destination stat) = Some stat" "dests' = dests"
  | (new) "map_of dests (ds_Destination stat) = None" "stat = new_stat (ds_Destination stat)"
      "dests' = AList.update (ds_Destination stat) stat dests" "dests_wf dests'"
proof -
  have new_ok: thesis
    if n: "map_of dests k = None" "stat = new_stat k" and d: "dests' = AList.update k stat dests"
      and l: "length dests < maxTrackedDestinations \<or> length dests = maxTrackedDestinations \<and> k = overflowDestination"
    for k
  proof (rule new)
    have k: "ds_Destination stat = k" using n(2) by (simp add: new_stat_def)
    show "map_of dests (ds_Destination stat) = None" "stat = new_stat (ds_Destination stat)"
      "dests' = AList.update (ds_Destination stat) stat dests"
      using n d k by simp_all
    show "dests_wf dests'"
      unfolding dests_wf_def
    proof (intro conjI allI impI)
      show "distinct (map fst dests')"
        using wf d by (simp add: dests_wf_def distinct_update)
      show "ds_Destination d = k'" if "map_of dests' k' = Some d" for k' d
        using that wf k d by (cases "k' = k") (simp_all add: dests_wf_def update_conv')
      have "length dests' = length dests + 1" "map_of dests' k = Some stat"
        using n(1) d by (simp_all add: length_update map_of_None_fst update_conv')
      with l show "length dests' \<le> maxTrackedDestinations \<or>
          length dests' = maxTrackedDestinations + 1 \<and> map_of dests' overflowDestination \<noteq> None"
        by auto
    qed
  qed
  show thesis
  proof (cases "map_of dests dest")
    case (Some d)
    then have "stat = d" "dests' = dests" using b by (simp_all add: bucket_def)
    then show thesis using Some wf by (intro old) (simp_all add: dests_wf_def)
  next
    case None
    show thesis
    proof (cases "length dests \<ge> maxTrackedDestinations")
      case False
      then show thesis
        using b None by (intro new_ok [of dest]) (auto simp: bucket_def)
    next
      case True
      show thesis
      proof (cases "map_of dests overflowDestination")
        case (Some d)
        then have "stat = d" "dests' = dests" using b None True by (simp_all add: bucket_def)
        then show thesis using Some wf by (intro old) (simp_all add: dests_wf_def)
      next
        case none: None
        have "length dests = maxTrackedDestinations"
          using wf none True by (auto simp: dests_wf_def)
        then show thesis
          using b None True none by (intro new_ok [of overflowDestination]) (auto simp: bucket_def)
      qed
    qed
  qed
qed

lemma Open_spec:
  assumes wf: "dests_wf (rec_dests r)" and o: "recorder_Open dest r = (key, r')"
  obtains stat dests where
    "dests = rec_dests r \<or> map_of (rec_dests r) key = None \<and> stat = new_stat key \<and>
       dests = AList.update key stat (rec_dests r)"
    "map_of dests key = Some stat" "dests_wf dests"
    "r' = r\<lparr> rec_dests := AList.update key
               (stat\<lparr> ds_Requests := ds_Requests stat + 1, ds_Active := ds_Active stat + 1 \<rparr>) dests,
             rec_requests := rec_requests r + 1, rec_active := rec_active r + 1 \<rparr>"
proof -
  obtain stat dests where b: "bucket dest (rec_dests r) = (stat, dests)" by (metis surj_pair)
  have k: "key = ds_Destination stat" and r': "r' = r\<lparr> rec_dests := AList.update key
        (stat\<lparr> ds_Requests := ds_Requests stat + 1, ds_Active := ds_Active stat + 1 \<rparr>) dests,
      rec_requests := rec_requests r + 1, rec_active := rec_active r + 1 \<rparr>"
    using o b by (auto simp: recorder_Open_def)
  show thesis
    using wf b
  proof (cases rule: bucket_cases)
    case old
    then show thesis using k wf by (intro that [OF _ _ _ r']) simp_all
  next
    case new
    then show thesis using k by (intro that [OF _ _ _ r']) (simp_all add: update_conv')
  qed
qed

section \<open>The traffic of a cell\<close>

text \<open>
  The events of a cell: a dial that fails or succeeds, reads and writes on a connection, and
  closes, each any number of times and in any order.
\<close>

inductive cell_step ::
  "Recorder \<times> countingConn list \<Rightarrow> Recorder \<times> countingConn list \<Rightarrow> bool" where
  cell_dial: "server_dial ok addr r = (c, r') \<Longrightarrow>
     cell_step (r, cs) (r', cs @ (case c of None \<Rightarrow> [] | Some c \<Rightarrow> [c]))"
| cell_read: "i < length cs \<Longrightarrow> cell_step (r, cs) (conn_Read (cs ! i) n r, cs)"
| cell_write: "i < length cs \<Longrightarrow> cell_step (r, cs) (conn_Write (cs ! i) n r, cs)"
| cell_close: "i < length cs \<Longrightarrow> conn_Close (cs ! i) r = (c, r') \<Longrightarrow> cell_step (r, cs) (r', cs[i := c])"

definition live :: "string \<Rightarrow> countingConn list \<Rightarrow> nat" where
  "live key cs = length (filter (\<lambda>c. cc_key c = key \<and> \<not> cc_closed c) cs)"

definition live_all :: "countingConn list \<Rightarrow> nat" where
  "live_all cs = length (filter (\<lambda>c. \<not> cc_closed c) cs)"

definition cell_inv :: "Recorder \<Rightarrow> countingConn list \<Rightarrow> bool" where
  "cell_inv r cs \<longleftrightarrow>
     dests_wf (rec_dests r)
     \<and> rec_requests r = dest_sum ds_Requests (rec_dests r)
     \<and> rec_bytesUp r = dest_sum ds_BytesUp (rec_dests r)
     \<and> rec_bytesDown r = dest_sum ds_BytesDown (rec_dests r)
     \<and> rec_active r = of_nat (live_all cs)
     \<and> (\<forall>c \<in> set cs. map_of (rec_dests r) (cc_key c) \<noteq> None)
     \<and> (\<forall>k d. map_of (rec_dests r) k = Some d \<longrightarrow> ds_Active d = of_nat (live k cs))"

lemma cell_invD:
  assumes "cell_inv r cs"
  shows "dests_wf (rec_dests r)" "rec_requests r = dest_sum ds_Requests (rec_dests r)"
    "rec_bytesUp r = dest_sum ds_BytesUp (rec_dests r)"
    "rec_bytesDown r = dest_sum ds_BytesDown (rec_dests r)" "rec_active r = of_nat (live_all cs)"
    "c \<in> set cs \<Longrightarrow> \<exists>d. map_of (rec_dests r) (cc_key c) = Some d"
    "map_of (rec_dests r) k = Some d \<Longrightarrow> ds_Active d = of_nat (live k cs)"
  using assms unfolding cell_inv_def by auto

lemma new_stat_zero [simp]:
  "ds_Requests (new_stat k) = 0" "ds_BytesUp (new_stat k) = 0" "ds_BytesDown (new_stat k) = 0"
  "ds_Active (new_stat k) = 0" "ds_Destination (new_stat k) = k"
  by (simp_all add: new_stat_def)

lemma live_none: "(\<And>c. c \<in> set cs \<Longrightarrow> cc_key c \<noteq> k) \<Longrightarrow> live k cs = 0"
  by (simp add: live_def filter_empty_conv)

lemma cell_inv_Open:
  assumes inv: "cell_inv r cs" and o: "recorder_Open addr r = (key, r')"
  shows "cell_inv r' (cs @ [newCountingConn key])"
proof -
  note i = cell_invD [OF inv]
  from i(1) o show ?thesis
  proof (rule Open_spec)
    fix stat dests
    assume d: "dests = rec_dests r \<or> map_of (rec_dests r) key = None \<and> stat = new_stat key \<and>
         dests = AList.update key stat (rec_dests r)"
      and m: "map_of dests key = Some stat" and wf: "dests_wf dests"
      and r': "r' = r\<lparr> rec_dests := AList.update key
               (stat\<lparr> ds_Requests := ds_Requests stat + 1, ds_Active := ds_Active stat + 1 \<rparr>) dests,
             rec_requests := rec_requests r + 1, rec_active := rec_active r + 1 \<rparr>"
    have sums: "dest_sum f dests = dest_sum f (rec_dests r)" if "f (new_stat key) = 0" for f
      using d that by (auto simp: dest_sum_update)
    have act: "ds_Active d = of_nat (live k cs)" if "map_of dests k = Some d" for k d
    proof (cases "dests = rec_dests r")
      case True
      then show ?thesis using that i(7) by simp
    next
      case False
      then have new: "map_of (rec_dests r) key = None" "dests = AList.update key (new_stat key) (rec_dests r)"
        using d by auto
      then have "live key cs = 0" using i(6) by (intro live_none) fastforce
      with that new i(7) show ?thesis by (cases "k = key") (auto simp: update_conv')
    qed
    have keys: "map_of dests k \<noteq> None" if "map_of (rec_dests r) k \<noteq> None" for k
      using that d by (auto simp: update_conv')
    have live: "live k (cs @ [newCountingConn key]) = live k cs + (if k = key then 1 else 0)" for k
      by (simp add: live_def newCountingConn_def)
    have "ds_Destination stat = key" using wf m by (simp add: dests_wf_def)
    then have "dests_wf (rec_dests r')"
      using dests_wf_update [OF wf, of key] m by (simp add: r')
    moreover have "rec_requests r' = dest_sum ds_Requests (rec_dests r')"
      "rec_bytesUp r' = dest_sum ds_BytesUp (rec_dests r')"
      "rec_bytesDown r' = dest_sum ds_BytesDown (rec_dests r')"
      using i(2-4) m by (simp_all add: r' dest_sum_update sums)
    moreover have "rec_active r' = of_nat (live_all (cs @ [newCountingConn key]))"
      using i(5) by (simp add: r' live_all_def newCountingConn_def)
    moreover have "map_of (rec_dests r') (cc_key c) \<noteq> None" if "c \<in> set (cs @ [newCountingConn key])" for c
      using that i(6) keys by (auto simp: r' update_conv' newCountingConn_def)
    moreover have "ds_Active d = of_nat (live k (cs @ [newCountingConn key]))"
      if "map_of (rec_dests r') k = Some d" for k d
      using that act m by (cases "k = key") (auto simp: r' update_conv' live)
    ultimately show ?thesis unfolding cell_inv_def by blast
  qed
qed

text \<open>Counting bytes on a connection changes one byte counter of its bucket and the total.\<close>

lemma cell_inv_Up:
  assumes inv: "cell_inv r cs" and c: "c \<in> set cs"
  shows "cell_inv (recorder_Up (cc_key c) n r) cs"
proof -
  note i = cell_invD [OF inv]
  obtain d where d: "map_of (rec_dests r) (cc_key c) = Some d" using i(6) [OF c] by blast
  have "ds_Destination d = cc_key c" using i(1) d by (simp add: dests_wf_def)
  then have wf: "dests_wf (AList.update (cc_key c) (d\<lparr> ds_BytesUp := ds_BytesUp d + n \<rparr>) (rec_dests r))"
    using d by (intro dests_wf_update i(1)) simp_all
  show ?thesis
    using wf i(2-7) d unfolding cell_inv_def
    by (auto simp: recorder_Up_def dest_sum_update update_conv' Let_def)
qed

lemma cell_inv_Down:
  assumes inv: "cell_inv r cs" and c: "c \<in> set cs"
  shows "cell_inv (recorder_Down (cc_key c) n r) cs"
proof -
  note i = cell_invD [OF inv]
  obtain d where d: "map_of (rec_dests r) (cc_key c) = Some d" using i(6) [OF c] by blast
  have "ds_Destination d = cc_key c" using i(1) d by (simp add: dests_wf_def)
  then have wf: "dests_wf (AList.update (cc_key c) (d\<lparr> ds_BytesDown := ds_BytesDown d + n \<rparr>) (rec_dests r))"
    using d by (intro dests_wf_update i(1)) simp_all
  show ?thesis
    using wf i(2-7) d unfolding cell_inv_def
    by (auto simp: recorder_Down_def dest_sum_update update_conv' Let_def)
qed

lemma of_nat_sless:
  assumes "0 < n" "n < 2 ^ 63"
  shows "0 <s (of_nat n :: int64)"
proof -
  have "sint (of_nat n :: int64) = signed_take_bit 63 (int n)"
    by (simp add: signed_of_nat)
  also have "\<dots> = int n"
    using assms(2) by (intro signed_take_bit_int_eq_self) auto
  finally show ?thesis using assms(1) by (simp add: word_sless_alt)
qed

lemma live_le: "live k cs \<le> length cs" "live_all cs \<le> length cs"
  by (simp_all add: live_def live_all_def)

lemma length_filter_update:
  "i < length xs \<Longrightarrow> \<not> Q x \<Longrightarrow>
   length (filter Q xs) = length (filter Q (xs[i := x])) + (if Q (xs ! i) then 1 else 0)"
proof (induction xs arbitrary: i)
  case (Cons y ys)
  then show ?case by (cases i) auto
qed simp

lemma live_close:
  assumes "i < length cs" "\<not> cc_closed (cs ! i)"
  shows "live k cs = live k (cs[i := (cs ! i)\<lparr> cc_closed := True \<rparr>]) + (if k = cc_key (cs ! i) then 1 else 0)"
    and "live_all cs = live_all (cs[i := (cs ! i)\<lparr> cc_closed := True \<rparr>]) + 1"
  using length_filter_update [OF assms(1), of "\<lambda>c. cc_key c = k \<and> \<not> cc_closed c"]
    length_filter_update [OF assms(1), of "\<lambda>c. \<not> cc_closed c"] assms(2)
  by (auto simp: live_def live_all_def)

lemma cell_inv_Close:
  assumes inv: "cell_inv r cs" and i: "i < length cs" and c: "conn_Close (cs ! i) r = (c, r')"
    and bound: "length cs < 2 ^ 63"
  shows "cell_inv r' (cs[i := c])"
proof (cases "cc_closed (cs ! i)")
  case True
  then show ?thesis using c inv i by (auto simp: conn_Close_def)
next
  case False
  note v = cell_invD [OF inv]
  let ?k = "cc_key (cs ! i)"
  have c': "c = (cs ! i)\<lparr> cc_closed := True \<rparr>" and r': "r' = recorder_Close ?k r"
    using c False by (auto simp: conn_Close_def)
  obtain d where d: "map_of (rec_dests r) ?k = Some d" using v(6) i by force
  note lv = live_close [OF i False, folded c']
  have "0 < live ?k cs" "0 < live_all cs" using lv(1) [of ?k] lv(2) by auto
  moreover have "live ?k cs < 2 ^ 63" "live_all cs < 2 ^ 63"
    using live_le(1) [of ?k cs] live_le(2) [of cs] bound by linarith+
  ultimately have pos: "0 <s ds_Active d" "0 <s rec_active r"
    using of_nat_sless v(5,7) d by auto
  have r': "r' = r\<lparr> rec_dests := AList.update ?k (d\<lparr> ds_Active := ds_Active d - 1 \<rparr>) (rec_dests r),
      rec_active := rec_active r - 1 \<rparr>"
    using pos d by (simp add: r' recorder_Close_def)
  have "ds_Destination d = ?k" using v(1) d by (simp add: dests_wf_def)
  then have "dests_wf (rec_dests r')"
    using d v(1) by (simp add: r' dests_wf_update)
  moreover have "rec_requests r' = dest_sum ds_Requests (rec_dests r')"
    "rec_bytesUp r' = dest_sum ds_BytesUp (rec_dests r')"
    "rec_bytesDown r' = dest_sum ds_BytesDown (rec_dests r')"
    using v(2-4) d by (simp_all add: r' dest_sum_update)
  moreover have "rec_active r' = of_nat (live_all (cs[i := c]))"
    using v(5) lv(2) by (simp add: r')
  moreover have "map_of (rec_dests r') (cc_key x) \<noteq> None" if "x \<in> set (cs[i := c])" for x
  proof -
    have "x = c \<or> x \<in> set cs" using that set_update_subset_insert by fastforce
    then show ?thesis using v(6) c' by (auto simp: r' update_conv')
  qed
  moreover have "ds_Active e = of_nat (live k (cs[i := c]))" if "map_of (rec_dests r') k = Some e" for k e
    using that v(7) d lv(1) [of k] by (cases "k = ?k") (auto simp: r' update_conv')
  ultimately show ?thesis unfolding cell_inv_def by blast
qed

lemma cell_step_length: "cell_step s s' \<Longrightarrow> length (snd s) \<le> length (snd s')"
  by (induction rule: cell_step.induct) auto

lemma cell_step_inv:
  "cell_step s s' \<Longrightarrow> cell_inv (fst s) (snd s) \<Longrightarrow> length (snd s) < 2 ^ 63 \<Longrightarrow> cell_inv (fst s') (snd s')"
proof (induction rule: cell_step.induct)
  case (cell_dial ok addr r c r' cs)
  show ?case
  proof (cases ok)
    case True
    then obtain key where "recorder_Open addr r = (key, r')" "c = Some (newCountingConn key)"
      using cell_dial(1) by (auto simp: server_dial_def split: prod.splits)
    then show ?thesis using cell_inv_Open cell_dial(2) by simp
  next
    case False
    then have "c = None" "r' = recorder_DialFailed r" using cell_dial(1) by (auto simp: server_dial_def)
    then show ?thesis using cell_dial(2) by (simp add: recorder_DialFailed_def cell_inv_def)
  qed
next
  case (cell_read i cs r n)
  then show ?case by (simp add: conn_Read_def cell_inv_Down)
next
  case (cell_write i cs r n)
  then show ?case by (simp add: conn_Write_def cell_inv_Up)
next
  case (cell_close i cs r c r')
  then show ?case using cell_inv_Close by simp
qed

lemma cell_reach_inv:
  assumes "cell_step\<^sup>*\<^sup>* (NewRecorder topN, []) s" "length (snd s) < 2 ^ 63"
  shows "cell_inv (fst s) (snd s)"
  using assms
proof (induction rule: rtranclp_induct)
  case base
  then show ?case
    by (simp add: cell_inv_def NewRecorder_def dests_wf_def dest_sum_def live_all_def Let_def)
next
  case (step s s')
  then have "length (snd s) < 2 ^ 63" using cell_step_length [of s s'] by linarith
  with step show ?case using cell_step_inv by blast
qed

section \<open>The snapshot\<close>

lemma map_filter_order:
  assumes "range_order order m"
  shows "set (List.map_filter m order) = ran m" "length (List.map_filter m order) = card (dom m)"
proof -
  have o: "distinct order" "set order = dom m" using assms by (auto simp: range_order_def)
  show "set (List.map_filter m order) = ran m"
    using o(2) by (force simp: List.map_filter_def ran_def)
  have "filter (\<lambda>k. m k \<noteq> None) order = order"
    using o(2) by (intro filter_True) auto
  then show "length (List.map_filter m order) = card (dom m)"
    using o by (simp add: List.map_filter_def distinct_card [symmetric])
qed

lemma sorted_take_le:
  assumes "sorted (map f xs)" "x \<in> set (take n xs)" "y \<in> set xs - set (take n xs)"
  shows "(f x :: int) \<le> f y"
proof -
  have "y \<in> set (drop n xs)"
    using assms(3) by (metis Diff_iff Un_iff append_take_drop_id set_append)
  moreover have "sorted (map f (take n xs) @ map f (drop n xs))"
    using assms(1) by (metis append_take_drop_id map_append)
  ultimately show ?thesis using assms(2) by (auto simp: sorted_append)
qed

lemma snapshot_list:
  assumes "range_order order (map_of (rec_dests r))" "distinct (map fst (rec_dests r))" "0 < rec_topN r"
  obtains xs where "st_Destinations (recorder_Snapshot order r) = take (nat (rec_topN r)) xs"
    "set xs = ran (map_of (rec_dests r))" "length xs = length (rec_dests r)"
    "sorted (map (\<lambda>d. - volume d) xs)"
proof -
  let ?xs = "sort_key (\<lambda>d. - volume d) (List.map_filter (map_of (rec_dests r)) order)"
  have "card (dom (map_of (rec_dests r))) = length (rec_dests r)"
    using assms(2) by (metis dom_map_of_conv_image_fst list.set_map distinct_card length_map)
  then have "set ?xs = ran (map_of (rec_dests r))" "length ?xs = length (rec_dests r)"
    using map_filter_order [OF assms(1)] by auto
  moreover have "st_Destinations (recorder_Snapshot order r) = take (nat (rec_topN r)) ?xs"
    using assms(3) by (auto simp: recorder_Snapshot_def Let_def)
  ultimately show thesis by (intro that [of ?xs]) (simp_all only: sorted_sort_key)
qed


lemma demo_cell_run:
  "\<exists>r. cell_step\<^sup>*\<^sup>* (NewRecorder 5, []) (r, [\<lparr> cc_key = ''a:1'', cc_closed = False \<rparr>])
     \<and> rec_dests r = [(''a:1'', \<lparr> ds_Destination = ''a:1'', ds_Requests = 1, ds_BytesUp = 7,
          ds_BytesDown = 0, ds_Active = 1 \<rparr>)]"
proof -
  let ?c = "newCountingConn ''a:1''"
  obtain r1 where r1: "server_dial True ''a:1'' (NewRecorder 5) = (Some ?c, r1)"
    and d1: "rec_dests r1 = [(''a:1'', \<lparr> ds_Destination = ''a:1'', ds_Requests = 1, ds_BytesUp = 0,
          ds_BytesDown = 0, ds_Active = 1 \<rparr>)]"
    by (simp add: server_dial_def recorder_Open_def bucket_def NewRecorder_def new_stat_def
        maxTrackedDestinations_def newCountingConn_def Let_def)
  have s1: "cell_step (NewRecorder 5, []) (r1, [?c])"
    using cell_dial [OF r1, of "[]"] by simp
  have s2: "cell_step (r1, [?c]) (conn_Write ?c 7 r1, [?c])"
    using cell_write [of 0 "[?c]" r1 7] by simp
  have "cell_step\<^sup>*\<^sup>* (NewRecorder 5, []) (conn_Write ?c 7 r1, [?c])"
    using r_into_rtranclp [of cell_step, OF s1] s2 by (rule rtranclp.rtrancl_into_rtrancl)
  moreover have "rec_dests (conn_Write ?c 7 r1) = [(''a:1'', \<lparr> ds_Destination = ''a:1'',
      ds_Requests = 1, ds_BytesUp = 7, ds_BytesDown = 0, ds_Active = 1 \<rparr>)]"
    using d1 by (simp add: conn_Write_def recorder_Up_def newCountingConn_def Let_def)
  ultimately show ?thesis by (auto simp: newCountingConn_def)
qed


lemma cell_topN:
  "cell_step\<^sup>*\<^sup>* (NewRecorder topN, []) s \<Longrightarrow> rec_topN (fst s) = (if topN \<le> 0 then 2048 else topN)"
proof (induction rule: rtranclp_induct)
  case base
  then show ?case by (simp add: NewRecorder_def maxTrackedDestinations_def)
next
  case (step s s')
  from step(2) have "rec_topN (fst s') = rec_topN (fst s)"
    by (induction rule: cell_step.induct)
       (auto simp: server_dial_def recorder_Open_def recorder_DialFailed_def conn_Read_def conn_Write_def
          conn_Close_def recorder_Up_def recorder_Down_def recorder_Close_def Let_def
          split: prod.splits if_splits option.splits)
  with step.IH show ?case by simp
qed

text \<open>the snapshot is a bounded ranking. In every reachable state it lists distinct buckets, at
  most as many as configured and all of them if they fit, by falling byte volume, and a bucket
  that is left out has no more volume than any bucket that is listed.\<close>

theorem snapshot_ranked:
  assumes "cell_step\<^sup>*\<^sup>* (NewRecorder topN, []) (r, cs)" "length cs < 2 ^ 63"
    "range_order order (map_of (rec_dests r))"
  shows "int (length (st_Destinations (recorder_Snapshot order r))) =
       min (int (length (rec_dests r))) (if topN \<le> 0 then 2048 else topN)
     \<and> sorted_wrt (\<lambda>a b. volume b \<le> volume a) (st_Destinations (recorder_Snapshot order r))
     \<and> set (st_Destinations (recorder_Snapshot order r)) \<subseteq> ran (map_of (rec_dests r))
     \<and> (\<forall>d \<in> set (st_Destinations (recorder_Snapshot order r)).
          \<forall>e \<in> ran (map_of (rec_dests r)) - set (st_Destinations (recorder_Snapshot order r)).
            volume e \<le> volume d)"
proof -
  have top: "rec_topN r = (if topN \<le> 0 then 2048 else topN)"
    using cell_topN [OF assms(1)] by simp
  then have pos: "0 < rec_topN r" by simp
  have inv: "cell_inv r cs" using cell_reach_inv [OF assms(1)] assms(2) by simp
  then have d: "distinct (map fst (rec_dests r))" by (simp add: cell_inv_def dests_wf_def)
  obtain xs where xs: "st_Destinations (recorder_Snapshot order r) = take (nat (rec_topN r)) xs"
    "set xs = ran (map_of (rec_dests r))" "length xs = length (rec_dests r)"
    "sorted (map (\<lambda>d. - volume d) xs)"
    using snapshot_list [OF assms(3) d pos] by blast
  have "sorted (map (\<lambda>d. - volume d) (take (nat (rec_topN r)) xs))"
    using xs(4) unfolding take_map [symmetric] by (rule sorted_wrt_take)
  then have srt: "sorted_wrt (\<lambda>a b. volume b \<le> volume a) (take (nat (rec_topN r)) xs)"
    by (simp add: sorted_wrt_map)
  have vol: "volume e \<le> volume d"
    if "d \<in> set (take (nat (rec_topN r)) xs)" "e \<in> set xs - set (take (nat (rec_topN r)) xs)" for d e
    using sorted_take_le [OF xs(4) that] by simp
  have len: "int (length (take (nat (rec_topN r)) xs)) = min (int (length (rec_dests r))) (rec_topN r)"
    using xs(3) pos by simp
  show ?thesis
    unfolding top [symmetric] xs(1) xs(2) [symmetric]
    using len srt set_take_subset [of "nat (rec_topN r)" xs] vol by (intro conjI ballI)
qed

theorem snapshot_ranked_witness:
  "\<exists>r cs. cell_step\<^sup>*\<^sup>* (NewRecorder 5, []) (r, cs)
     \<and> int (length (st_Destinations (recorder_Snapshot [''a:1''] r))) = 1"
proof -
  obtain r where run: "cell_step\<^sup>*\<^sup>* (NewRecorder 5, []) (r, [\<lparr> cc_key = ''a:1'', cc_closed = False \<rparr>])"
    and d: "rec_dests r = [(''a:1'', \<lparr> ds_Destination = ''a:1'', ds_Requests = 1, ds_BytesUp = 7,
          ds_BytesDown = 0, ds_Active = 1 \<rparr>)]"
    using demo_cell_run by blast
  have o: "range_order [''a:1''] (map_of (rec_dests r))"
    by (simp add: range_order_def d)
  have "int (length (st_Destinations (recorder_Snapshot [''a:1''] r))) = 1"
    using snapshot_ranked [OF run _ o] d by simp
  with run show ?thesis by blast
qed

end
