(* ===== verification/Cell_Spawner.thy ===== *)
theory Cell_Spawner
  imports Manager Recorder
begin

text \<open>
  The production spawner (\<^verbatim>\<open>spawner.go\<close>) and the client of a cell's control server
  (\<^verbatim>\<open>cellstatus.go\<close>). The Docker daemon is a third-party service: its client is a record of
  functions over the state of the world. The theory models what the spawner asks of it and how it
  reads the answers: building the container, waiting for readiness, killing, discovering children
  and reaping orphans.

  The locale \<open>spawner\<close> states what the manager may rely on; the production spawner is an
  instance of it.
\<close>

section \<open>Formatting\<close>

function dec_digits :: "nat \<Rightarrow> string" where
  "dec_digits n =
     (if n < 10 then [char_of (48 + n)] else dec_digits (n div 10) @ [char_of (48 + n mod 10)])"
  by auto
termination
  by (relation "measure id") auto

declare dec_digits.simps [simp del]

text \<open>\<^verbatim>\<open>fmt.Sprintf\<close> of an integer with \<^verbatim>\<open>%d\<close>.\<close>

definition strconvItoa :: "int \<Rightarrow> string" where
  "strconvItoa n = (if n < 0 then CHR ''-'' # dec_digits (nat (- n)) else dec_digits (nat n))"

definition JoinHostPort :: "string \<Rightarrow> string \<Rightarrow> string" where
  "JoinHostPort host port =
     (if CHR '':'' \<in> set host then ''['' @ host @ '']:'' @ port else host @ '':'' @ port)"

text \<open>\<^verbatim>\<open>filepath.Clean\<close> on slash-separated paths: the components without empty ones and dots.\<close>

fun clean_components :: "bool \<Rightarrow> string list \<Rightarrow> string list \<Rightarrow> string list" where
  "clean_components rooted acc [] = rev acc"
| "clean_components rooted acc (c # cs) =
     (if c = [] \<or> c = ''.'' then clean_components rooted acc cs
      else if c = ''..''
      then (case acc of
              [] \<Rightarrow> clean_components rooted (if rooted then [] else [c]) cs
            | d # ds \<Rightarrow> clean_components rooted (if d = ''..'' then c # acc else ds) cs)
      else clean_components rooted (c # acc) cs)"

definition path_Clean :: "string \<Rightarrow> string" where
  "path_Clean p =
     (let rooted = has_prefix p ''/'';
          s = join_byte CHR ''/'' (clean_components rooted [] (split_byte CHR ''/'' p))
      in if rooted then CHR ''/'' # s else if s = [] then ''.'' else s)"

definition path_Join :: "string \<Rightarrow> string \<Rightarrow> string" where
  "path_Join a b =
     (case filter (\<lambda>e. e \<noteq> []) [a, b] of [] \<Rightarrow> [] | es \<Rightarrow> path_Clean (join_byte CHR ''/'' es))"

section \<open>The control client of a cell\<close>

record Status =
  cs_CellID :: string
  cs_ParentID :: string
  cs_StartedAt :: string
  cs_UptimeSeconds :: duration
  cs_Traffic :: Stats

text \<open>
  The HTTP client as a function of the base URL and the path; a response is its status code and
  its body. Decoding the body of \<^verbatim>\<open>/status\<close> is the parameter \<open>decode\<close>.
\<close>

type_synonym 'w HTTPDoer = "url \<Rightarrow> string \<Rightarrow> 'w \<Rightarrow> (error + nat \<times> string) \<times> 'w"

definition control_Status ::
  "'w HTTPDoer \<Rightarrow> (string \<Rightarrow> error + Status) \<Rightarrow> url option \<Rightarrow> 'w \<Rightarrow> (error + Status) \<times> 'w" where
  "control_Status doer decode base w =
     (case base of
        None \<Rightarrow> (Inl ErrFetchFailed, w)
      | Some u \<Rightarrow>
          (case doer u ''/status'' w of
             (Inl e, w) \<Rightarrow> (Inl e, w)
           | (Inr (code, body), w) \<Rightarrow>
               if code \<noteq> 200 then (Inl ErrFetchFailed, w) else (decode body, w)))"

definition control_Healthy :: "'w HTTPDoer \<Rightarrow> url option \<Rightarrow> 'w \<Rightarrow> bool \<times> 'w" where
  "control_Healthy doer base w =
     (case base of
        None \<Rightarrow> (False, w)
      | Some u \<Rightarrow>
          (case doer u ''/healthz'' w of
             (Inl e, w) \<Rightarrow> (False, w)
           | (Inr (code, body), w) \<Rightarrow> (code = 200, w)))"

section \<open>The Docker client\<close>

text \<open>
  The payloads the spawner builds and the parts of the answers it reads. Ports are TCP ports; the
  networking configuration maps the networks of a cell to their gateway priority; an endpoint is
  its IP address, if it has a valid one.
\<close>

record ContainerConfig =
  con_Image :: string
  con_Env :: "string list"
  con_ExposedPorts :: "int set"
  con_Labels :: "string \<rightharpoonup> string"

record HostConfig =
  hc_AutoRemove :: bool
  hc_CapAdd :: "string list"
  hc_CapDrop :: "string list"
  hc_SecurityOpt :: "string list"
  hc_Init :: bool
  hc_LogType :: string
  hc_LogConfig :: "string \<rightharpoonup> string"
  hc_Sysctls :: "string \<rightharpoonup> string"
  hc_Memory :: int
  hc_NanoCPUs :: int
  hc_PidsLimit :: int
  hc_Devices :: "(string \<times> string \<times> string) list"
  hc_Binds :: "string list"
  hc_NetworkMode :: string
  hc_PortBindings :: "int \<rightharpoonup> string list"

record CreateOptions =
  co_Name :: string
  co_Config :: ContainerConfig
  co_HostConfig :: HostConfig
  co_Networking :: "(string \<rightharpoonup> int) option"

record NetworkSettings =
  ns_Networks :: "string \<rightharpoonup> string option"
  ns_Ports :: "int \<rightharpoonup> (string \<times> string) list"

record Summary =
  sm_ID :: string
  sm_Labels :: "string \<rightharpoonup> string"
  sm_State :: string
  sm_Created :: int
  sm_Networks :: "(string \<rightharpoonup> string option) option"

text \<open>
  \<open>dk_Ticks\<close> is the number of ticks of the readiness poll before a context with the given time
  limit is done, \<open>dk_Logs\<close> the outcome of the log capture, and \<open>dk_DialTCP\<close> whether an address
  accepts a connection.
\<close>

record 'w Docker =
  dk_pullImage :: "string \<Rightarrow> 'w \<Rightarrow> error option \<times> 'w"
  dk_ContainerCreate :: "CreateOptions \<Rightarrow> 'w \<Rightarrow> (error + string) \<times> 'w"
  dk_ContainerStart :: "string \<Rightarrow> 'w \<Rightarrow> error option \<times> 'w"
  dk_Logs :: "string \<Rightarrow> 'w \<Rightarrow> (string \<times> error option) \<times> 'w"
  dk_ContainerStop :: "string \<Rightarrow> 'w \<Rightarrow> error option \<times> 'w"
  dk_ContainerRemove :: "string \<Rightarrow> 'w \<Rightarrow> error option \<times> 'w"
  dk_ContainerInspect :: "string \<Rightarrow> 'w \<Rightarrow> (error + NetworkSettings option) \<times> 'w"
  dk_ContainerList :: "(string \<times> string) list \<Rightarrow> 'w \<Rightarrow> (error + Summary list) \<times> 'w"
  dk_DialTCP :: "string \<Rightarrow> 'w \<Rightarrow> bool \<times> 'w"
  dk_HTTP :: "'w HTTPDoer"
  dk_Ticks :: "duration \<Rightarrow> 'w \<Rightarrow> nat"

definition LabelManaged :: string where "LabelManaged = ''pr0xteus.managed''"
definition LabelPool :: string where "LabelPool = ''pr0xteus.pool''"
definition LabelConf :: string where "LabelConf = ''pr0xteus.conf''"
definition LabelScope :: string where "LabelScope = ''pr0xteus.scope''"
definition LabelParent :: string where "LabelParent = ''pr0xteus.parent.id''"

section \<open>Names, labels and payloads\<close>

definition isAlphaNum :: "char \<Rightarrow> bool" where
  "isAlphaNum c \<longleftrightarrow> is_lower_alpha c \<or> is_upper_alpha c \<or> is_digit c"

definition sanitizeByte :: "char \<Rightarrow> char" where
  "sanitizeByte c = (if isAlphaNum c \<or> c = CHR ''-'' \<or> c = CHR ''_'' then c else CHR ''_'')"

definition sanitize :: "string \<Rightarrow> string" where
  "sanitize s = map sanitizeByte s"

definition buildContainerName :: "string \<Rightarrow> string \<Rightarrow> time \<Rightarrow> string" where
  "buildContainerName pool conf now =
     ''pr0xteus-tunnel-'' @ sanitize pool @ ''-'' @ sanitize conf @ ''-'' @ strconvItoa now"

definition exitCountryFromConf :: "(string \<Rightarrow> string) \<Rightarrow> string \<Rightarrow> string" where
  "exitCountryFromConf uu conf =
     (case index_byte CHR ''-'' conf of
        None \<Rightarrow> ''''
      | Some i \<Rightarrow> if i > 0 then to_upper uu (take i conf) else '''')"

definition buildContainerConfig :: "Config \<Rightarrow> SpawnRequest \<Rightarrow> ContainerConfig" where
  "buildContainerConfig cfg req =
     (let env = [''PR0XTEUS_SOCKS5_PORT='' @ strconvItoa (cfg_CellSocksPort cfg),
                 ''PR0XTEUS_CELL_CONTROL_PORT='' @ strconvItoa (cfg_CellControlPort cfg)];
          labels = [LabelManaged \<mapsto> ''true'', LabelPool \<mapsto> req_Pool req, LabelConf \<mapsto> req_ConfName req,
                    LabelScope \<mapsto> cfg_ManagedScope cfg];
          (env, labels) = (if cfg_ParentID cfg \<noteq> ''''
             then (env @ [''PR0XTEUS_PARENT_ID='' @ cfg_ParentID cfg],
                   labels(LabelParent \<mapsto> cfg_ParentID cfg))
             else (env, labels))
      in \<lparr> con_Image = cfg_CellImage cfg, con_Env = env,
           con_ExposedPorts = {cfg_CellSocksPort cfg, cfg_CellControlPort cfg},
           con_Labels = labels \<rparr>)"

definition cellCapabilities :: "string list" where
  "cellCapabilities = [''NET_ADMIN'', ''DAC_READ_SEARCH'', ''SETGID'', ''SETUID'']"

definition buildHostConfig :: "Config \<Rightarrow> string \<Rightarrow> HostConfig" where
  "buildHostConfig cfg confPath =
     (let hostCfg =
        \<lparr> hc_AutoRemove = True, hc_CapAdd = cellCapabilities, hc_CapDrop = [''ALL''],
          hc_SecurityOpt = [''no-new-privileges:true''], hc_Init = True, hc_LogType = ''json-file'',
          hc_LogConfig = [''max-size'' \<mapsto> ''10m'', ''max-file'' \<mapsto> ''5''],
          hc_Sysctls = [''net.ipv4.conf.all.src_valid_mark'' \<mapsto> ''1'',
            ''net.ipv6.conf.all.disable_ipv6'' \<mapsto> ''1'', ''net.ipv6.conf.default.disable_ipv6'' \<mapsto> ''1''],
          hc_Memory = 128 * 1024 * 1024, hc_NanoCPUs = 500 * 1000 * 1000, hc_PidsLimit = 64,
          hc_Devices = [(''/dev/net/tun'', ''/dev/net/tun'', ''rwm'')],
          hc_Binds = [confPath @ '':/wgconf/wg0.conf:ro''],
          hc_NetworkMode = '''', hc_PortBindings = Map.empty \<rparr>
      in if cfg_CellNetwork cfg \<noteq> ''''
         then (if cfg_CellControlNetwork cfg = ''''
               then hostCfg\<lparr> hc_NetworkMode := cfg_CellNetwork cfg \<rparr> else hostCfg)
         else hostCfg\<lparr> hc_PortBindings := [cfg_CellSocksPort cfg \<mapsto> [''127.0.0.1'']] \<rparr>)"

definition buildNetworkingConfig :: "Config \<Rightarrow> (string \<rightharpoonup> int) option" where
  "buildNetworkingConfig cfg =
     (if cfg_CellNetwork cfg = '''' then None
      else let endpoints = [cfg_CellNetwork cfg \<mapsto> 1]
           in Some (if cfg_CellControlNetwork cfg \<noteq> ''''
                    then endpoints(cfg_CellControlNetwork cfg \<mapsto> 0) else endpoints))"

section \<open>Killing\<close>

text \<open>The message of an error, as far as the spawner inspects it.\<close>

fun error_text :: "error \<Rightarrow> string" where
  "error_text ErrPoolUnavailable = ''tunnel pool unavailable''"
| "error_text ErrPoolExhausted = ''tunnel pool exhausted''"
| "error_text ErrUnknownPool = ''unknown pool''"
| "error_text ErrInvalidCountry = ''invalid country / no pool configured''"
| "error_text ErrSpawnTimeout = ''cell spawn timeout''"
| "error_text ErrSpawnFailed = ''cell spawn failed''"
| "error_text ErrTunnelUnhealthy = ''tunnel unhealthy''"
| "error_text ErrConfigInvalid = ''invalid pr0xteus config''"
| "error_text ErrBundleConfMissing = ''wireguard conf missing from bundle''"
| "error_text ErrNotFound = ''not found''"
| "error_text ErrFetchFailed = ''fetch failed''"
| "error_text (ErrOther m) = m"

definition isNotFound :: "error \<Rightarrow> bool" where
  "isNotFound err \<longleftrightarrow>
     contains (error_text err) ''No such container'' \<or> contains (error_text err) ''is not running''"

definition isRemovalInProgress :: "error \<Rightarrow> bool" where
  "isRemovalInProgress err \<longleftrightarrow> contains (error_text err) ''is already in progress''"

definition cell_Kill :: "'w Docker \<Rightarrow> string \<Rightarrow> 'w \<Rightarrow> error option \<times> 'w" where
  "cell_Kill dk containerID w =
     (case dk_ContainerStop dk containerID w of
        (stopErr, w) \<Rightarrow>
          if (case stopErr of None \<Rightarrow> False | Some e \<Rightarrow> \<not> isNotFound e) then (stopErr, w)
          else case dk_ContainerRemove dk containerID w of
            (rmErr, w) \<Rightarrow>
              if (case rmErr of None \<Rightarrow> False | Some e \<Rightarrow> \<not> isNotFound e \<and> \<not> isRemovalInProgress e)
              then (rmErr, w) else (None, w))"

definition bestEffortKill :: "'w Docker \<Rightarrow> string \<Rightarrow> 'w \<Rightarrow> 'w" where
  "bestEffortKill dk containerID w = snd (cell_Kill dk containerID w)"

section \<open>Spawning\<close>

definition createAndStart ::
  "'w Env \<Rightarrow> 'w Docker \<Rightarrow> Config \<Rightarrow> SpawnRequest \<Rightarrow> 'w \<Rightarrow> (error + string \<times> string) \<times> 'w" where
  "createAndStart env dk cfg req w =
     (let (now, w) = env_Now env w;
          containerName = buildContainerName (req_Pool req) (req_ConfName req) now;
          confPath = path_Join (req_BundleDir req) (req_ConfName req @ ''.conf'');
          (pullErr, w) = (if cfg_CellImage cfg = cellImageForVersion ''dev'' then (None, w)
                          else dk_pullImage dk (cfg_CellImage cfg) w)
      in if pullErr \<noteq> None then (Inl ErrSpawnFailed, w)
         else case dk_ContainerCreate dk
                     \<lparr> co_Name = containerName, co_Config = buildContainerConfig cfg req,
                       co_HostConfig = buildHostConfig cfg confPath,
                       co_Networking = buildNetworkingConfig cfg \<rparr> w of
                (Inl e, w) \<Rightarrow> (Inl ErrSpawnFailed, w)
              | (Inr cid, w) \<Rightarrow>
                  (case dk_ContainerStart dk cid w of
                     (Some e, w) \<Rightarrow> (Inl ErrSpawnFailed, bestEffortKill dk cid w)
                   | (None, w) \<Rightarrow> (Inr (cid, containerName), w)))"

text \<open>The IP address of a cell on a network, if it has a valid one.\<close>

definition endpoint_ip :: "(string \<rightharpoonup> string option) \<Rightarrow> string \<Rightarrow> string option" where
  "endpoint_ip networks net = (case networks net of None \<Rightarrow> None | Some ip \<Rightarrow> ip)"

definition resolveSocksAddr ::
  "'w Docker \<Rightarrow> Config \<Rightarrow> string \<Rightarrow> string \<Rightarrow> 'w \<Rightarrow> (error + string) \<times> 'w" where
  "resolveSocksAddr dk cfg containerID containerName w =
     (if cfg_CellNetwork cfg \<noteq> ''''
      then (Inr (JoinHostPort containerName (strconvItoa (cfg_CellSocksPort cfg))), w)
      else case dk_ContainerInspect dk containerID w of
             (Inl e, w) \<Rightarrow> (Inl e, w)
           | (Inr None, w) \<Rightarrow> (Inl ErrSpawnFailed, w)
           | (Inr (Some ns), w) \<Rightarrow>
               (case ns_Ports ns (cfg_CellSocksPort cfg) of
                  None \<Rightarrow> (Inr '''', w)
                | Some [] \<Rightarrow> (Inr '''', w)
                | Some ((hostIP, hostPort) # _) \<Rightarrow> (Inr (JoinHostPort hostIP hostPort), w)))"

definition control_url :: "Config \<Rightarrow> string \<Rightarrow> url" where
  "control_url cfg ip =
     \<lparr> url_Scheme = ''http'', url_Host = JoinHostPort ip (strconvItoa (cfg_CellControlPort cfg)),
       url_User = None \<rparr>"

definition controlURLFromInspect :: "Config \<Rightarrow> NetworkSettings option \<Rightarrow> url option" where
  "controlURLFromInspect cfg info =
     (case info of
        None \<Rightarrow> None
      | Some ns \<Rightarrow>
          let controlNet = (if cfg_CellControlNetwork cfg = '''' then cfg_CellNetwork cfg
                            else cfg_CellControlNetwork cfg)
          in map_option (control_url cfg) (endpoint_ip (ns_Networks ns) controlNet))"

definition probeCellReady ::
  "'w Docker \<Rightarrow> Config \<Rightarrow> string \<Rightarrow> string \<Rightarrow> 'w \<Rightarrow> (error + bool) \<times> 'w" where
  "probeCellReady dk cfg containerID socksAddr w =
     (if cfg_CellControlNetwork cfg = ''''
      then (case dk_DialTCP dk socksAddr w of (ok, w) \<Rightarrow> (Inr ok, w))
      else case dk_ContainerInspect dk containerID w of
             (Inl e, w) \<Rightarrow> (Inl e, w)
           | (Inr info, w) \<Rightarrow>
               (case controlURLFromInspect cfg info of
                  None \<Rightarrow> (Inr False, w)
                | Some u \<Rightarrow> (case control_Healthy (dk_HTTP dk) (Some u) w of (ok, w) \<Rightarrow> (Inr ok, w))))"

definition resolveGatewayAddr ::
  "'w Docker \<Rightarrow> Config \<Rightarrow> string \<Rightarrow> string \<Rightarrow> 'w \<Rightarrow> (error + string) \<times> 'w" where
  "resolveGatewayAddr dk cfg containerID socksAddr w =
     (if cfg_CellControlNetwork cfg = '''' then (Inr socksAddr, w)
      else case dk_ContainerInspect dk containerID w of
             (Inl e, w) \<Rightarrow> (Inl e, w)
           | (Inr None, w) \<Rightarrow> (Inl ErrSpawnFailed, w)
           | (Inr (Some ns), w) \<Rightarrow>
               (case endpoint_ip (ns_Networks ns) (cfg_CellControlNetwork cfg) of
                  None \<Rightarrow> (Inr '''', w)
                | Some ip \<Rightarrow> (Inr (JoinHostPort ip (strconvItoa (cfg_CellSocksPort cfg))), w)))"

text \<open>The result of \<^verbatim>\<open>readyGateway\<close> is None when the cell is not ready.\<close>

definition readyGateway ::
  "'w Docker \<Rightarrow> Config \<Rightarrow> string \<Rightarrow> string \<Rightarrow> 'w \<Rightarrow> (string \<times> string) option \<times> 'w" where
  "readyGateway dk cfg containerID containerName w =
     (case resolveSocksAddr dk cfg containerID containerName w of
        (Inl e, w) \<Rightarrow> (None, w)
      | (Inr addr, w) \<Rightarrow>
          if addr = '''' then (None, w)
          else case probeCellReady dk cfg containerID addr w of
            (Inl e, w) \<Rightarrow> (None, w)
          | (Inr ready, w) \<Rightarrow>
              if \<not> ready then (None, w)
              else case resolveGatewayAddr dk cfg containerID addr w of
                (Inl e, w) \<Rightarrow> (None, w)
              | (Inr gatewayAddr, w) \<Rightarrow>
                  if gatewayAddr = '''' then (None, w) else (Some (addr, gatewayAddr), w))"

definition new_tunnel ::
  "(string \<Rightarrow> string) \<Rightarrow> string \<Rightarrow> SpawnRequest \<Rightarrow> url \<Rightarrow> string \<Rightarrow> time \<Rightarrow> Tunnel" where
  "new_tunnel uu containerID req proxyURL gatewayAddr now =
     \<lparr> tun_ContainerID = containerID, tun_ConfName = req_ConfName req, tun_ProxyURL = Some proxyURL,
       tun_GatewayAddr = gatewayAddr, tun_State = TunnelStateHot, tun_Pool = req_Pool req,
       tun_ExitCountry = (if req_ExitCountry req = '''' then exitCountryFromConf uu (req_ConfName req)
                          else req_ExitCountry req),
       tun_ExitIP = '''', tun_SpawnedAt = now, tun_HealthyAt = now, tun_LastUsedAt = now,
       tun_LastURL = '''', tun_LastURLExpiresAt = zero_time, tun_InFlight = 0 \<rparr>"

text \<open>
  The readiness poll; the first argument counts the ticks that come before the context is done.
\<close>

fun waitReady ::
  "nat \<Rightarrow> (string \<Rightarrow> string) \<Rightarrow> (string \<Rightarrow> string option) \<Rightarrow> 'w Env \<Rightarrow> 'w Docker \<Rightarrow> Config
     \<Rightarrow> string \<Rightarrow> string \<Rightarrow> SpawnRequest \<Rightarrow> 'w \<Rightarrow> (error + Tunnel) \<times> 'w" where
  "waitReady 0 uu lit env dk cfg containerID containerName req w = (Inl ErrSpawnTimeout, w)"
| "waitReady (Suc n) uu lit env dk cfg containerID containerName req w =
     (case readyGateway dk cfg containerID containerName w of
        (None, w) \<Rightarrow> waitReady n uu lit env dk cfg containerID containerName req w
      | (Some (addr, gatewayAddr), w) \<Rightarrow>
          (case Parse lit (proxySchemeSOCKS5 @ ''://'' @ addr) of
             None \<Rightarrow> (Inl (ErrOther ''parse proxy URL''), w)
           | Some proxyURL \<Rightarrow>
               let (now, w) = env_Now env w
               in (Inr (new_tunnel uu containerID req proxyURL gatewayAddr now), w)))"

text \<open>
  Starting and stopping the log capture brackets the poll; its outcome only extends the message of
  the error.
\<close>

definition cell_Spawn ::
  "(string \<Rightarrow> string) \<Rightarrow> (string \<Rightarrow> string option) \<Rightarrow> 'w Env \<Rightarrow> 'w Docker \<Rightarrow> Config
     \<Rightarrow> duration \<Rightarrow> SpawnRequest \<Rightarrow> 'w \<Rightarrow> (error + Tunnel) \<times> 'w" where
  "cell_Spawn uu lit env dk cfg timeout req w =
     (case createAndStart env dk cfg req w of
        (Inl e, w) \<Rightarrow> (Inl e, w)
      | (Inr (containerID, containerName), w) \<Rightarrow>
          (case waitReady (dk_Ticks dk timeout w) uu lit env dk cfg containerID containerName req w of
             (res, w) \<Rightarrow>
               let ((startupLogs, logsErr), w) = dk_Logs dk containerID w
               in case res of
                    Inl e \<Rightarrow> (Inl e, bestEffortKill dk containerID w)
                  | Inr tunnel \<Rightarrow> (Inr tunnel, w)))"

section \<open>Discovering and reaping\<close>

definition controlURLFromSummary :: "Config \<Rightarrow> Summary \<Rightarrow> url option" where
  "controlURLFromSummary cfg c =
     (if cfg_CellNetwork cfg = '''' then None
      else case sm_Networks c of
        None \<Rightarrow> None
      | Some networks \<Rightarrow>
          let controlNetwork = (if cfg_CellControlNetwork cfg \<noteq> '''' then cfg_CellControlNetwork cfg
                                else cfg_CellNetwork cfg)
          in map_option (control_url cfg) (endpoint_ip networks controlNetwork))"

text \<open>\<^verbatim>\<open>time.Unix\<close> of a number of seconds.\<close>

definition unix_time :: "int \<Rightarrow> time" where
  "unix_time s = s * second"

definition children_filters :: "Config \<Rightarrow> (string \<times> string) list" where
  "children_filters cfg =
     (LabelManaged, ''true'') #
     (if cfg_ParentID cfg \<noteq> '''' then [(LabelParent, cfg_ParentID cfg)]
      else [(LabelScope, cfg_ManagedScope cfg)])"

definition handle_of :: "Config \<Rightarrow> Summary \<Rightarrow> CellHandle" where
  "handle_of cfg c =
     \<lparr> ch_ContainerID = sm_ID c, ch_Pool = map_get (sm_Labels c) LabelPool,
       ch_ConfName = map_get (sm_Labels c) LabelConf, ch_State = sm_State c,
       ch_ControlURL = controlURLFromSummary cfg c, ch_CreatedAt = unix_time (sm_Created c) \<rparr>"

definition cell_ListChildren ::
  "'w Docker \<Rightarrow> Config \<Rightarrow> 'w \<Rightarrow> (error + CellHandle list) \<times> 'w" where
  "cell_ListChildren dk cfg w =
     (case dk_ContainerList dk (children_filters cfg) w of
        (Inl e, w) \<Rightarrow> (Inl e, w)
      | (Inr listed, w) \<Rightarrow> (Inr (map (handle_of cfg) listed), w))"

definition shouldReapState :: "string \<Rightarrow> bool" where
  "shouldReapState st \<longleftrightarrow>
     st \<in> {''running'', ''exited'', ''dead'', ''paused'', ''restarting''}"

definition orphanInFlightGrace :: duration where
  "orphanInFlightGrace = 30 * second"

definition orphan_filters :: "Config \<Rightarrow> (string \<times> string) list" where
  "orphan_filters cfg = [(LabelManaged, ''true''), (LabelScope, cfg_ManagedScope cfg)]"

text \<open>The body of the loop of \<^verbatim>\<open>ReapOrphans\<close>: whether a listed container is reaped.\<close>

definition reapable :: "duration \<Rightarrow> time \<Rightarrow> string set \<Rightarrow> bool \<Rightarrow> Summary \<Rightarrow> bool" where
  "reapable minAge now keepIDs protectInFlight c =
     (if sm_ID c \<in> keepIDs then False
      else if protectInFlight \<and> time_sub now (unix_time (sm_Created c)) < minAge then False
      else if sm_State c \<noteq> ''created'' \<and> \<not> shouldReapState (sm_State c) then False
      else True)"

fun reap_loop ::
  "'w Docker \<Rightarrow> duration \<Rightarrow> time \<Rightarrow> string set \<Rightarrow> bool \<Rightarrow> Summary list \<Rightarrow> nat \<Rightarrow> 'w \<Rightarrow> nat \<times> 'w" where
  "reap_loop dk minAge now keepIDs protectInFlight [] reaped w = (reaped, w)"
| "reap_loop dk minAge now keepIDs protectInFlight (c # cs) reaped w =
     (if \<not> reapable minAge now keepIDs protectInFlight c
      then reap_loop dk minAge now keepIDs protectInFlight cs reaped w
      else reap_loop dk minAge now keepIDs protectInFlight cs (reaped + 1) (bestEffortKill dk (sm_ID c) w))"

definition ReapOrphans ::
  "'w Env \<Rightarrow> 'w Docker \<Rightarrow> Config \<Rightarrow> string set \<Rightarrow> bool \<Rightarrow> 'w \<Rightarrow> (error + nat) \<times> 'w" where
  "ReapOrphans env dk cfg keepIDs protectInFlight w =
     (case dk_ContainerList dk (orphan_filters cfg) w of
        (Inl e, w) \<Rightarrow> (Inl e, w)
      | (Inr listed, w) \<Rightarrow>
          let minAge = cfg_SpawnTimeout cfg + orphanInFlightGrace;
              (now, w) = env_Now env w;
              (reaped, w) = reap_loop dk minAge now keepIDs protectInFlight listed 0 w
          in (Inr reaped, w))"

section \<open>The contract of a spawner\<close>

text \<open>
  What the manager relies on: a tunnel that was spawned runs the requested configuration of the
  requested pool, and it has an address.
\<close>

locale spawner =
  fixes sp :: "'w Spawner"
  assumes spawn_conf: "sp_Spawn sp limit req w = (Inr t, w') \<Longrightarrow> tun_ConfName t = req_ConfName req"
    and spawn_pool: "sp_Spawn sp limit req w = (Inr t, w') \<Longrightarrow> tun_Pool t = req_Pool req"
    and spawn_addr: "sp_Spawn sp limit req w = (Inr t, w') \<Longrightarrow>
          tun_ProxyURL t \<noteq> None \<and> tun_GatewayAddr t \<noteq> ''''"
begin

lemma granted_addr:
  assumes "granted sp cfg ex p t"
    and "\<And>t0. ps_tunnel p = Some t0 \<Longrightarrow> tun_ProxyURL t0 \<noteq> None \<and> tun_GatewayAddr t0 \<noteq> ''''"
  shows "tun_ProxyURL t \<noteq> None \<and> tun_GatewayAddr t \<noteq> ''''"
proof -
  consider (hot) t0 at where "ps_tunnel p = Some t0" "t = reserved at t0"
    | (fresh) limit req w w' t1 name at where
        "sp_Spawn sp limit req w = (Inr t1, w')" "t = prepare_tunnel name at t1"
    using assms(1) unfolding granted_def by blast
  then show ?thesis
  proof cases
    case hot
    then show ?thesis using assms(2) by simp
  next
    case fresh
    then show ?thesis
      using spawn_addr [OF fresh(1)] by (auto simp: prepare_tunnel_def Let_def)
  qed
qed

text \<open>A caller that excludes the tunnel in the slot gets another configuration.\<close>

lemma granted_rotates:
  assumes g: "granted sp cfg ex p t" and t0: "ps_tunnel p = Some t0" "\<not> not_excluded ex t0"
  shows "tun_ConfName t \<noteq> tun_ConfName t0"
proof -
  obtain conf at w w' t1 where conf: "conf \<notin> excludeConfsFor ex p"
    and sp: "sp_Spawn sp (cfg_SpawnTimeout cfg) (spawn_request cfg (ps_Spec p) conf) w = (Inr t1, w')"
    and t: "t = prepare_tunnel (spec_Name (ps_Spec p)) at t1"
    using g t0 unfolding granted_def by (metis option.inject)
  have "tun_ConfName t1 = conf"
    using spawn_conf [OF sp] by (simp add: spawn_request_def)
  then show ?thesis
    using conf t0 by (simp add: t excludeConfsFor_eq)
qed

end

definition CellSpawner ::
  "(string \<Rightarrow> string) \<Rightarrow> (string \<Rightarrow> string option) \<Rightarrow> 'w Env \<Rightarrow> 'w Docker \<Rightarrow> Config \<Rightarrow> 'w Spawner" where
  "CellSpawner uu lit env dk cfg =
     \<lparr> sp_Spawn = cell_Spawn uu lit env dk cfg, sp_Kill = cell_Kill dk,
       sp_ListChildren = cell_ListChildren dk cfg \<rparr>"

text \<open>A cell that was spawned: its container was created and started, and then found ready.\<close>

lemma readyGateway_Some:
  assumes "readyGateway dk cfg cid name w = (Some (addr, gw), w')"
  shows "addr \<noteq> '''' \<and> gw \<noteq> ''''"
  using assms
  by (auto simp: readyGateway_def split: prod.splits sum.splits if_splits)

lemma waitReady_Inr:
  assumes "waitReady n uu lit env dk cfg cid name req w = (Inr t, w')"
  obtains addr u gw now where "t = new_tunnel uu cid req u gw now" "gw \<noteq> ''''"
    "Parse lit (proxySchemeSOCKS5 @ ''://'' @ addr) = Some u"
  using assms
proof (induction n arbitrary: w)
  case (Suc n)
  obtain r w1 where r: "readyGateway dk cfg cid name w = (r, w1)" by (metis surj_pair)
  show ?case
  proof (cases r)
    case None
    then show ?thesis using Suc r by simp
  next
    case (Some ag)
    obtain addr gw where ag: "ag = (addr, gw)" by (metis surj_pair)
    have gw: "gw \<noteq> ''''"
      using readyGateway_Some [of dk cfg cid name w addr gw w1] r Some ag by simp
    obtain now w2 where n: "env_Now env w1 = (now, w2)" by (metis surj_pair)
    show ?thesis
    proof (cases "Parse lit (proxySchemeSOCKS5 @ ''://'' @ addr)")
      case None
      then show ?thesis using Suc.prems(2) r Some ag by simp
    next
      case u: (Some u)
      then have "t = new_tunnel uu cid req u gw now"
        using Suc.prems(2) r Some ag n by simp
      then show ?thesis using gw u by (rule Suc.prems(1))
    qed
  qed
qed simp

text \<open>The three ways a spawn ends, with the effects of each in order.\<close>

lemma cell_Spawn_cases:
  assumes "cell_Spawn uu lit env dk cfg limit req w = (res, w')"
  obtains
    (uncreated) e where "createAndStart env dk cfg req w = (Inl e, w')" "res = Inl e"
  | (unready) cid name w1 e w2 l w3 where "createAndStart env dk cfg req w = (Inr (cid, name), w1)"
      "waitReady (dk_Ticks dk limit w1) uu lit env dk cfg cid name req w1 = (Inl e, w2)"
      "dk_Logs dk cid w2 = (l, w3)" "res = Inl e" "w' = bestEffortKill dk cid w3"
  | (ready) cid name w1 t w2 l where "createAndStart env dk cfg req w = (Inr (cid, name), w1)"
      "waitReady (dk_Ticks dk limit w1) uu lit env dk cfg cid name req w1 = (Inr t, w2)"
      "dk_Logs dk cid w2 = (l, w')" "res = Inr t"
proof -
  obtain c w1 where c: "createAndStart env dk cfg req w = (c, w1)" by (metis surj_pair)
  show thesis
  proof (cases c)
    case (Inl e)
    then have "res = Inl e \<and> w1 = w'" using assms c by (auto simp: cell_Spawn_def)
    then show thesis using Inl c by (intro uncreated) simp_all
  next
    case (Inr cn)
    obtain cid name where cn: "cn = (cid, name)" by (metis surj_pair)
    obtain r w2 where r: "waitReady (dk_Ticks dk limit w1) uu lit env dk cfg cid name req w1 = (r, w2)"
      by (metis surj_pair)
    obtain l w3 where l: "dk_Logs dk cid w2 = (l, w3)" by (metis surj_pair)
    have eq: "(res, w') = (case r of Inl e \<Rightarrow> (Inl e, bestEffortKill dk cid w3) | Inr t \<Rightarrow> (Inr t, w3))"
      using assms by (simp add: cell_Spawn_def c Inr cn r l Let_def eq_commute [of "(res, w')"])
    show thesis
    proof (cases r)
      case (Inl e)
      show thesis by (rule unready [of cid name w1 e w2 l w3]) (use c \<open>c = Inr cn\<close> cn r l eq Inl in simp_all)
    next
      case (Inr t)
      show thesis by (rule ready [of cid name w1 t w2 l]) (use c \<open>c = Inr cn\<close> cn r l eq Inr in simp_all)
    qed
  qed
qed

lemma cell_Spawn_Inr:
  assumes "cell_Spawn uu lit env dk cfg limit req w = (Inr t, w')"
  obtains cid u gw now where "t = new_tunnel uu cid req u gw now" "gw \<noteq> ''''"
  using assms by (cases rule: cell_Spawn_cases) (auto elim: waitReady_Inr)

lemma new_tunnel_simps [simp]:
  "tun_ConfName (new_tunnel uu cid req u gw now) = req_ConfName req"
  "tun_Pool (new_tunnel uu cid req u gw now) = req_Pool req"
  "tun_ProxyURL (new_tunnel uu cid req u gw now) = Some u"
  "tun_GatewayAddr (new_tunnel uu cid req u gw now) = gw"
  "tun_ContainerID (new_tunnel uu cid req u gw now) = cid"
  by (simp_all add: new_tunnel_def)

lemma sp_Spawn_CellSpawner [simp]:
  "sp_Spawn (CellSpawner uu lit env dk cfg) = cell_Spawn uu lit env dk cfg"
  by (simp add: CellSpawner_def)

interpretation cell: spawner "CellSpawner uu lit env dk cfg" for uu lit env dk cfg
  by unfold_locales (auto elim: cell_Spawn_Inr)

end
