(* ===== verification/Cell_Lifecycle.thy ===== *)
theory Cell_Lifecycle
  imports Acquisition Cell_Spawner
begin

text \<open>
  The properties of the cells the spawner runs: what a failed spawn leaves behind, which containers
  the orphan reaper removes, that a spawned cell is found again by its labels, that its name and
  its address are well-formed, and that excluding a tunnel rotates the configuration.
\<close>

section \<open>Names and addresses\<close>

lemma dec_digits_digits: "list_all is_digit (dec_digits n)"
proof (induction n rule: dec_digits.induct)
  case (1 n)
  have "is_digit (char_of (48 + m))" if "m < 10" for m :: nat
    using that by (simp add: is_digit_def char_le_nat)
  then show ?case using 1 by (subst dec_digits.simps) simp
qed

lemma dec_digits_nonempty [simp]: "dec_digits n \<noteq> []"
  by (subst dec_digits.simps) simp

lemma sanitizeByte_cases: "isAlphaNum (sanitizeByte c) \<or> sanitizeByte c \<in> {CHR ''-'', CHR ''_''}"
  by (simp add: sanitizeByte_def)

text \<open>The names Docker accepts: \<^verbatim>\<open>[a-zA-Z0-9][a-zA-Z0-9_.-]*\<close>.\<close>

definition docker_name :: "string \<Rightarrow> bool" where
  "docker_name s \<longleftrightarrow> s \<noteq> [] \<and> isAlphaNum (hd s)
     \<and> list_all (\<lambda>c. isAlphaNum c \<or> c \<in> {CHR ''-'', CHR ''_'', CHR ''.''}) s"

lemma strconvItoa_bytes: "list_all (\<lambda>c. is_digit c \<or> c = CHR ''-'') (strconvItoa n)"
  using dec_digits_digits by (auto simp: strconvItoa_def list_all_iff)

lemma sanitize_bytes: "list_all (\<lambda>c. isAlphaNum c \<or> c \<in> {CHR ''-'', CHR ''_''}) (sanitize s)"
  using sanitizeByte_cases by (auto simp: sanitize_def list_all_iff)

lemma name_bytes:
  "list_all (\<lambda>c. isAlphaNum c \<or> c \<in> {CHR ''-'', CHR ''_''}) (buildContainerName pool conf now)"
proof -
  let ?P = "\<lambda>c. isAlphaNum c \<or> c \<in> {CHR ''-'', CHR ''_''}"
  have "list_all ?P ''pr0xteus-tunnel-''" by code_simp
  moreover have "list_all ?P (strconvItoa now)"
    using strconvItoa_bytes by (rule list.pred_mono_strong) (auto simp: isAlphaNum_def)
  ultimately show ?thesis
    unfolding buildContainerName_def list_all_append using sanitize_bytes by simp
qed

lemma host_byte_alnum: "isAlphaNum c \<Longrightarrow> \<not> shouldEscape EncodeHost c"
  by (simp add: isAlphaNum_def shouldEscape_def is_alnum_def)

lemma name_host_bytes: "list_all (\<lambda>c. \<not> shouldEscape EncodeHost c) (buildContainerName pool conf now)"
proof -
  have "\<not> shouldEscape EncodeHost CHR ''-''" "\<not> shouldEscape EncodeHost CHR ''_''" by code_simp+
  then show ?thesis
    using name_bytes [of pool conf now] host_byte_alnum by (auto simp: list_all_iff)
qed

lemma name_no_colon: "CHR '':'' \<notin> set (buildContainerName pool conf now)"
proof -
  have "\<not> isAlphaNum CHR '':''" by code_simp
  then show ?thesis
    using name_bytes [of pool conf now] by (auto simp: list_all_iff)
qed

lemma name_hd: "\<exists>s. buildContainerName pool conf now = CHR ''p'' # s"
  by (simp add: buildContainerName_def)

lemma socks_host_ok:
  assumes "0 \<le> port"
  shows "host_ok (JoinHostPort (buildContainerName pool conf now) (strconvItoa port))"
proof -
  let ?n = "buildContainerName pool conf now"
  have cut: "cut_byte CHR '':'' (?n @ CHR '':'' # strconvItoa port) = Some (?n, strconvItoa port)"
    using name_no_colon by (rule cut_byte_append)
  show ?thesis
    using assms name_host_bytes [of pool conf now] name_no_colon [of pool conf now]
      name_hd [of pool conf now] dec_digits_digits [of "nat port"] cut
    unfolding host_ok_def JoinHostPort_def by (auto simp: strconvItoa_def)
qed

lemma socks_url_parses:
  assumes "host_ok host"
  shows "Parse lit (proxySchemeSOCKS5 @ ''://'' @ host) =
     Some \<lparr> url_Scheme = proxySchemeSOCKS5, url_Host = host, url_User = None \<rparr>"
proof -
  let ?u = "\<lparr> url_Scheme = proxySchemeSOCKS5, url_Host = host, url_User = None \<rparr>"
  have str: "url_String ?u = proxySchemeSOCKS5 @ ''://'' @ host"
    using escape_id host_bytes(1) [OF assms] by (simp add: url_String_alt)
  have s: "scheme_ok proxySchemeSOCKS5" by code_simp
  have "Parse lit (url_String ?u) = Some ?u" by (rule Parse_String) (simp_all add: s assms)
  then show ?thesis unfolding str .
qed

section \<open>What a spawn does to the containers\<close>

text \<open>
  Documented behaviour of the Docker daemon, for a set \<open>alive\<close> of the containers that exist and are
  not being removed. Containers may disappear at any time (cells are started with automatic
  removal); a container only appears when it is created; after a removal that succeeded, or that
  reported the container as missing or as being removed, it is gone.
\<close>

definition keeps :: "('w \<Rightarrow> 'c set) \<Rightarrow> ('w \<Rightarrow> 'r \<times> 'w) \<Rightarrow> bool" where
  "keeps alive f \<longleftrightarrow> (\<forall>w. alive (snd (f w)) \<subseteq> alive w)"

definition docker_laws :: "'w Env \<Rightarrow> 'w Docker \<Rightarrow> ('w \<Rightarrow> string set) \<Rightarrow> bool" where
  "docker_laws env dk alive \<longleftrightarrow>
     keeps alive (env_Now env) \<and> (\<forall>i. keeps alive (dk_pullImage dk i))
     \<and> (\<forall>opts w. case dk_ContainerCreate dk opts w of
           (Inl e, w') \<Rightarrow> alive w' \<subseteq> alive w
         | (Inr cid, w') \<Rightarrow> alive w' \<subseteq> insert cid (alive w))
     \<and> (\<forall>c. keeps alive (dk_ContainerStart dk c)) \<and> (\<forall>c. keeps alive (dk_Logs dk c))
     \<and> (\<forall>c. keeps alive (dk_ContainerStop dk c)) \<and> (\<forall>c. keeps alive (dk_ContainerInspect dk c))
     \<and> (\<forall>a. keeps alive (dk_DialTCP dk a)) \<and> (\<forall>u path. keeps alive (dk_HTTP dk u path))
     \<and> (\<forall>c w. case dk_ContainerRemove dk c w of
           (None, w') \<Rightarrow> alive w' \<subseteq> alive w - {c}
         | (Some e, w') \<Rightarrow> alive w' \<subseteq> alive w
             \<and> (isNotFound e \<or> isRemovalInProgress e \<longrightarrow> c \<notin> alive w'))"

lemma keepsD: "keeps alive f \<Longrightarrow> f w = (r, w') \<Longrightarrow> alive w' \<subseteq> alive w"
  unfolding keeps_def by (metis snd_conv)

lemma docker_lawsD:
  assumes "docker_laws env dk alive"
  shows "env_Now env w = (n, w') \<Longrightarrow> alive w' \<subseteq> alive w"
    "dk_pullImage dk i w = (e, w') \<Longrightarrow> alive w' \<subseteq> alive w"
    "dk_ContainerCreate dk opts w = (Inl err, w') \<Longrightarrow> alive w' \<subseteq> alive w"
    "dk_ContainerCreate dk opts w = (Inr c, w') \<Longrightarrow> alive w' \<subseteq> insert c (alive w)"
    "dk_ContainerStart dk c w = (e, w') \<Longrightarrow> alive w' \<subseteq> alive w"
    "dk_Logs dk c w = (l, w') \<Longrightarrow> alive w' \<subseteq> alive w"
    "dk_ContainerStop dk c w = (e, w') \<Longrightarrow> alive w' \<subseteq> alive w"
    "dk_ContainerInspect dk c w = (i', w') \<Longrightarrow> alive w' \<subseteq> alive w"
    "dk_DialTCP dk a w = (ok, w') \<Longrightarrow> alive w' \<subseteq> alive w"
    "dk_HTTP dk u path w = (h, w') \<Longrightarrow> alive w' \<subseteq> alive w"
    "dk_ContainerRemove dk c w = (e, w') \<Longrightarrow> alive w' \<subseteq> alive w"
    "dk_ContainerRemove dk c w = (e, w') \<Longrightarrow>
       (case e of None \<Rightarrow> True | Some err \<Rightarrow> isNotFound err \<or> isRemovalInProgress err) \<Longrightarrow> c \<notin> alive w'"
proof -
  note l = assms [unfolded docker_laws_def]
  show "env_Now env w = (n, w') \<Longrightarrow> alive w' \<subseteq> alive w"
    "dk_pullImage dk i w = (e, w') \<Longrightarrow> alive w' \<subseteq> alive w"
    "dk_ContainerStart dk c w = (e, w') \<Longrightarrow> alive w' \<subseteq> alive w"
    "dk_Logs dk c w = (l, w') \<Longrightarrow> alive w' \<subseteq> alive w"
    "dk_ContainerStop dk c w = (e, w') \<Longrightarrow> alive w' \<subseteq> alive w"
    "dk_ContainerInspect dk c w = (i', w') \<Longrightarrow> alive w' \<subseteq> alive w"
    "dk_DialTCP dk a w = (ok, w') \<Longrightarrow> alive w' \<subseteq> alive w"
    "dk_HTTP dk u path w = (h, w') \<Longrightarrow> alive w' \<subseteq> alive w"
    using l by (meson keepsD)+
  have create: "case dk_ContainerCreate dk opts w of
      (Inl e, w') \<Rightarrow> alive w' \<subseteq> alive w | (Inr cid, w') \<Rightarrow> alive w' \<subseteq> insert cid (alive w)"
    using l by meson
  show "dk_ContainerCreate dk opts w = (Inl err, w') \<Longrightarrow> alive w' \<subseteq> alive w"
    "dk_ContainerCreate dk opts w = (Inr c, w') \<Longrightarrow> alive w' \<subseteq> insert c (alive w)"
    using create by simp_all
  have remove: "case dk_ContainerRemove dk c w of
      (None, w') \<Rightarrow> alive w' \<subseteq> alive w - {c}
    | (Some e, w') \<Rightarrow> alive w' \<subseteq> alive w \<and> (isNotFound e \<or> isRemovalInProgress e \<longrightarrow> c \<notin> alive w')"
    using l by meson
  show "dk_ContainerRemove dk c w = (e, w') \<Longrightarrow> alive w' \<subseteq> alive w"
    "dk_ContainerRemove dk c w = (e, w') \<Longrightarrow>
       (case e of None \<Rightarrow> True | Some err \<Rightarrow> isNotFound err \<or> isRemovalInProgress err) \<Longrightarrow> c \<notin> alive w'"
    using remove by (cases e; auto)+
qed

lemma cell_Kill_live:
  assumes l: "docker_laws env dk alive" and k: "cell_Kill dk cid w = (r, w')"
  shows "alive w' \<subseteq> alive w \<and> (r = None \<longrightarrow> cid \<notin> alive w')"
proof -
  obtain e1 w1 where stop: "dk_ContainerStop dk cid w = (e1, w1)" by (metis surj_pair)
  obtain e2 w2 where rm: "dk_ContainerRemove dk cid w1 = (e2, w2)" by (metis surj_pair)
  show ?thesis
    using k stop rm docker_lawsD(7) [OF l stop] docker_lawsD(11) [OF l rm] docker_lawsD(12) [OF l rm]
    by (auto simp: cell_Kill_def split: option.splits if_splits)
qed

lemma control_Healthy_live:
  assumes "docker_laws env dk alive" "control_Healthy (dk_HTTP dk) u w = (ok, w')"
  shows "alive w' \<subseteq> alive w"
  using assms(2) docker_lawsD(10) [OF assms(1)]
  by (auto simp: control_Healthy_def split: option.splits prod.splits sum.splits)

lemma readyGateway_live:
  assumes l: "docker_laws env dk alive" and r: "readyGateway dk cfg cid name w = (r, w')"
  shows "alive w' \<subseteq> alive w"
proof -
  have 1: "alive w' \<subseteq> alive w" if "resolveSocksAddr dk cfg cid name w = (a, w')" for a w w'
    using that docker_lawsD(8) [OF l]
    by (auto simp: resolveSocksAddr_def split: if_splits prod.splits sum.splits option.splits list.splits)
  have 2: "alive w' \<subseteq> alive w" if "probeCellReady dk cfg cid addr w = (a, w')" for a addr w w'
    using that docker_lawsD(8,9) [OF l] control_Healthy_live [OF l]
    by (fastforce simp: probeCellReady_def split: if_splits prod.splits sum.splits option.splits)
  have 3: "alive w' \<subseteq> alive w" if "resolveGatewayAddr dk cfg cid addr w = (a, w')" for a addr w w'
    using that docker_lawsD(8) [OF l]
    by (auto simp: resolveGatewayAddr_def split: if_splits prod.splits sum.splits option.splits)
  show ?thesis
    using r unfolding readyGateway_def
    by (auto split: prod.splits sum.splits if_splits dest!: 1 2 3)
qed

lemma waitReady_live:
  assumes l: "docker_laws env dk alive"
  shows "waitReady n uu lit env dk cfg cid name req w = (r, w') \<Longrightarrow> alive w' \<subseteq> alive w"
proof (induction n arbitrary: w)
  case (Suc n)
  obtain g w1 where g: "readyGateway dk cfg cid name w = (g, w1)" by (metis surj_pair)
  obtain now w2 where n: "env_Now env w1 = (now, w2)" by (metis surj_pair)
  note steps = readyGateway_live [OF l g] docker_lawsD(1) [OF l n]
  show ?case
  proof (cases g)
    case None
    then show ?thesis using Suc g steps by simp blast
  next
    case (Some ag)
    obtain addr gw where ag: "ag = (addr, gw)" by (metis surj_pair)
    show ?thesis
      using Suc.prems g Some ag n steps
      by (cases "Parse lit (proxySchemeSOCKS5 @ ''://'' @ addr)") auto
  qed
qed simp

lemma createAndStart_cases:
  assumes "createAndStart env dk cfg req w = (res, w')"
  obtains
    (nothing) now w0 where "env_Now env w = (now, w0)" "res = Inl ErrSpawnFailed"
      "\<exists>err. dk_pullImage dk (cfg_CellImage cfg) w0 = (Some err, w')"
  | (uncreated) now w0 pull w1 opts err where "env_Now env w = (now, w0)"
      "w1 = w0 \<or> dk_pullImage dk (cfg_CellImage cfg) w0 = (pull, w1)"
      "dk_ContainerCreate dk opts w1 = (Inl err, w')" "res = Inl ErrSpawnFailed"
  | (unstarted) now w0 pull w1 opts cid w2 err w3 where "env_Now env w = (now, w0)"
      "w1 = w0 \<or> dk_pullImage dk (cfg_CellImage cfg) w0 = (pull, w1)"
      "dk_ContainerCreate dk opts w1 = (Inr cid, w2)" "dk_ContainerStart dk cid w2 = (Some err, w3)"
      "res = Inl ErrSpawnFailed" "w' = bestEffortKill dk cid w3"
  | (started) now w0 pull w1 opts cid w2 where "env_Now env w = (now, w0)"
      "w1 = w0 \<or> dk_pullImage dk (cfg_CellImage cfg) w0 = (pull, w1)"
      "opts = \<lparr> co_Name = buildContainerName (req_Pool req) (req_ConfName req) now,
                co_Config = buildContainerConfig cfg req,
                co_HostConfig = buildHostConfig cfg
                  (path_Join (req_BundleDir req) (req_ConfName req @ ''.conf'')),
                co_Networking = buildNetworkingConfig cfg \<rparr>"
      "dk_ContainerCreate dk opts w1 = (Inr cid, w2)" "dk_ContainerStart dk cid w2 = (None, w')"
      "res = Inr (cid, co_Name opts)"
proof -
  obtain now w0 where n: "env_Now env w = (now, w0)" by (metis surj_pair)
  obtain pull w1 where p: "(if cfg_CellImage cfg = cellImageForVersion ''dev'' then (None, w0)
      else dk_pullImage dk (cfg_CellImage cfg) w0) = (pull, w1)" by (metis surj_pair)
  then have p': "w1 = w0 \<or> dk_pullImage dk (cfg_CellImage cfg) w0 = (pull, w1)"
    by (auto split: if_splits)
  define opts where "opts =
    \<lparr> co_Name = buildContainerName (req_Pool req) (req_ConfName req) now,
      co_Config = buildContainerConfig cfg req,
      co_HostConfig = buildHostConfig cfg (path_Join (req_BundleDir req) (req_ConfName req @ ''.conf'')),
      co_Networking = buildNetworkingConfig cfg \<rparr>"
  obtain c w2 where c: "dk_ContainerCreate dk opts w1 = (c, w2)" by (metis surj_pair)
  obtain s w3 where s: "dk_ContainerStart dk (projr c) w2 = (s, w3)" by (metis surj_pair)
  have eq: "(res, w') =
     (if pull \<noteq> None then (Inl ErrSpawnFailed, w1)
      else case c of Inl e \<Rightarrow> (Inl ErrSpawnFailed, w2)
           | Inr cid \<Rightarrow> (case s of Some e \<Rightarrow> (Inl ErrSpawnFailed, bestEffortKill dk cid w3)
                               | None \<Rightarrow> (Inr (cid, co_Name opts), w3)))"
  proof -
    have "createAndStart env dk cfg req w =
       (if pull \<noteq> None then (Inl ErrSpawnFailed, w1)
        else case dk_ContainerCreate dk opts w1 of
               (Inl e, w) \<Rightarrow> (Inl ErrSpawnFailed, w)
             | (Inr cid, w) \<Rightarrow>
                 (case dk_ContainerStart dk cid w of
                    (Some e, w) \<Rightarrow> (Inl ErrSpawnFailed, bestEffortKill dk cid w)
                  | (None, w) \<Rightarrow>
                      (Inr (cid, buildContainerName (req_Pool req) (req_ConfName req) now), w)))"
      by (simp add: createAndStart_def n p opts_def Let_def)
    moreover have "co_Name opts = buildContainerName (req_Pool req) (req_ConfName req) now"
      by (simp add: opts_def)
    ultimately show ?thesis using assms c s by (cases c; cases s) simp_all
  qed
  consider "pull \<noteq> None" | e where "pull = None" "c = Inl e"
    | cid where "pull = None" "c = Inr cid" "s \<noteq> None" | cid where "pull = None" "c = Inr cid" "s = None"
    by (cases pull; cases c; cases s) auto
  then show thesis
  proof cases
    case 1
    show thesis by (rule nothing) (use 1 n p eq in \<open>auto split: if_splits\<close>)
  next
    case (2 e)
    show thesis by (rule uncreated [OF n p']) (use 2 c eq in simp_all)
  next
    case (3 cid)
    show thesis by (rule unstarted [OF n p', of opts cid w2 "the s" w3]) (use 3 c s eq in auto)
  next
    case (4 cid)
    show thesis by (rule started [OF n p' opts_def]) (use 4 c s eq in auto)
  qed
qed

lemma bestEffortKill_live:
  assumes l: "docker_laws env dk alive" and w: "alive w \<subseteq> insert cid A"
    and w': "w' = bestEffortKill dk cid w"
  shows "alive w' \<subseteq> A \<or> (\<exists>cid w0 err. cell_Kill dk cid w0 = (Some err, w') \<and> alive w' \<subseteq> insert cid A)"
proof -
  obtain k where k: "cell_Kill dk cid w = (k, w')"
    using w' by (metis bestEffortKill_def prod.collapse)
  have sub: "alive w' \<subseteq> insert cid A" using cell_Kill_live [OF l k] w by blast
  show ?thesis
  proof (cases k)
    case None
    then show ?thesis using cell_Kill_live [OF l k] sub by blast
  next
    case (Some err)
    then show ?thesis using k sub by blast
  qed
qed

lemma createAndStart_live:
  assumes l: "docker_laws env dk alive" and r: "createAndStart env dk cfg req w = (res, w')"
  shows "case res of
      Inl e \<Rightarrow> alive w' \<subseteq> alive w
        \<or> (\<exists>cid w0 err. cell_Kill dk cid w0 = (Some err, w') \<and> alive w' \<subseteq> insert cid (alive w))
    | Inr (cid, name) \<Rightarrow> alive w' \<subseteq> insert cid (alive w)"
  using r
proof (cases rule: createAndStart_cases)
  case (nothing now w0)
  then show ?thesis using docker_lawsD(1,2) [OF l] by (fastforce split: sum.splits)
next
  case (uncreated now w0 pull w1 opts err)
  have "alive w1 \<subseteq> alive w"
    using uncreated(2) docker_lawsD(1) [OF l uncreated(1)] docker_lawsD(2) [OF l] by blast
  then show ?thesis using uncreated(4) docker_lawsD(3) [OF l uncreated(3)] by auto
next
  case (unstarted now w0 pull w1 opts cid w2 err w3)
  have "alive w1 \<subseteq> alive w"
    using unstarted(2) docker_lawsD(1) [OF l unstarted(1)] docker_lawsD(2) [OF l] by blast
  then have w3: "alive w3 \<subseteq> insert cid (alive w)"
    using docker_lawsD(4) [OF l unstarted(3)] docker_lawsD(5) [OF l unstarted(4)] by blast
  show ?thesis
    using unstarted(5) bestEffortKill_live [OF l w3 unstarted(6)] by simp
next
  case (started now w0 pull w1 opts cid w2)
  have "alive w1 \<subseteq> alive w"
    using started(2) docker_lawsD(1) [OF l started(1)] docker_lawsD(2) [OF l] by blast
  then show ?thesis
    using started(6) docker_lawsD(4) [OF l started(4)] docker_lawsD(5) [OF l started(5)] by auto
qed


text \<open>
  A daemon whose state is the list of its containers, every container it creates being \<open>c1\<close>; its
  cells accept connections or never do.
\<close>

definition demo_docker :: "bool \<Rightarrow> string list Docker" where
  "demo_docker ok =
     \<lparr> dk_pullImage = (\<lambda>_ w. (None, w)), dk_ContainerCreate = (\<lambda>_ w. (Inr ''c1'', ''c1'' # w)),
       dk_ContainerStart = (\<lambda>_ w. (None, w)), dk_Logs = (\<lambda>_ w. (('''', None), w)),
       dk_ContainerStop = (\<lambda>_ w. (None, w)), dk_ContainerRemove = (\<lambda>c w. (None, filter ((\<noteq>) c) w)),
       dk_ContainerInspect = (\<lambda>_ w. (Inr None, w)), dk_ContainerList = (\<lambda>_ w. (Inr [], w)),
       dk_DialTCP = (\<lambda>_ w. (ok, w)), dk_HTTP = (\<lambda>_ _ w. (Inl ErrFetchFailed, w)),
       dk_Ticks = (\<lambda>_ _. 2) \<rparr>"

definition demo_clock :: "'w Env" where
  "demo_clock = \<lparr> env_Now = (\<lambda>w. (7, w)), env_IntN = (\<lambda>w. (0, w)), env_RandRead = (\<lambda>_ w. (Inr [], w)) \<rparr>"

definition demo_cell_cfg :: Config where
  "demo_cell_cfg = demo_cfg\<lparr> cfg_CellNetwork := ''cells'' \<rparr>"

definition demo_req :: SpawnRequest where
  "demo_req = \<lparr> req_Pool = ''eu'', req_ConfName = ''de-x'', req_ExitCountry = '''', req_BundleDir = ''wg'' \<rparr>"

lemma demo_clock_simps [simp]: "env_Now demo_clock w = (7, w)" "env_IntN demo_clock w = (0, w)"
  by (simp_all add: demo_clock_def)

lemma demo_docker_laws: "docker_laws demo_clock (demo_docker ok) set"
  by (auto simp: docker_laws_def keeps_def demo_docker_def demo_clock_def)

lemmas spawn_defs =
  cell_Spawn_def createAndStart_def readyGateway_def resolveSocksAddr_def probeCellReady_def
  resolveGatewayAddr_def bestEffortKill_def cell_Kill_def demo_docker_def demo_clock_def
  demo_cell_cfg_def demo_cfg_def

lemma demo_spawn_fails:
  "cell_Spawn id (\<lambda>_. None) demo_clock (demo_docker False) demo_cell_cfg 20 demo_req [''c0''] =
     (Inl ErrSpawnTimeout, [''c0''])"
  by (simp add: spawn_defs JoinHostPort_def numeral_2_eq_2)


section \<open>How a spawn ends\<close>

lemma readyGateway_network:
  assumes "cfg_CellNetwork cfg \<noteq> ''''" "readyGateway dk cfg cid name w = (Some (addr, gw), w')"
  shows "addr = JoinHostPort name (strconvItoa (cfg_CellSocksPort cfg))"
  using assms
  by (auto simp: readyGateway_def resolveSocksAddr_def split: prod.splits sum.splits if_splits)

lemma waitReady_network:
  assumes net: "cfg_CellNetwork cfg \<noteq> ''''" and port: "0 \<le> cfg_CellSocksPort cfg"
    and name: "name = buildContainerName pool conf now"
  shows "waitReady n uu lit env dk cfg cid name req w = (res, w') \<Longrightarrow>
    (case res of Inl e \<Rightarrow> e = ErrSpawnTimeout
     | Inr t \<Rightarrow> tun_ProxyURL t = Some \<lparr> url_Scheme = proxySchemeSOCKS5,
         url_Host = JoinHostPort name (strconvItoa (cfg_CellSocksPort cfg)), url_User = None \<rparr>)"
proof (induction n arbitrary: w)
  case 0
  then show ?case by auto
next
  case (Suc n)
  obtain g w1 where g: "readyGateway dk cfg cid name w = (g, w1)" by (metis surj_pair)
  obtain at w2 where at: "env_Now env w1 = (at, w2)" by (metis surj_pair)
  show ?case
  proof (cases g)
    case None
    then show ?thesis using Suc.prems g by (intro Suc.IH [of w1]) simp
  next
    case (Some ag)
    obtain addr gw where ag: "ag = (addr, gw)" by (metis surj_pair)
    then have addr: "addr = JoinHostPort name (strconvItoa (cfg_CellSocksPort cfg))"
      using readyGateway_network [OF net] g Some by simp
    have "host_ok addr" unfolding addr name using port by (rule socks_host_ok)
    from Suc.prems have "res = Inr (new_tunnel uu cid req
        \<lparr> url_Scheme = proxySchemeSOCKS5, url_Host = addr, url_User = None \<rparr> gw at)"
      using socks_url_parses [OF \<open>host_ok addr\<close>, of lit] by (auto simp: g Some ag at)
    then show ?thesis by (simp add: addr)
  qed
qed

text \<open>on a cell network, a spawn fails with no error but the failure and the timeout of a spawn,
  so the address of a ready cell always parses. The tunnel of a spawn that succeeds has the
  SOCKS5 URL whose host is the name of its container and whose port is the configured one.\<close>

theorem spawn_outcome:
  assumes "cfg_CellNetwork cfg \<noteq> ''''" "0 \<le> cfg_CellSocksPort cfg"
    and "cell_Spawn uu lit env dk cfg limit req w = (res, w')"
  shows "case res of
      Inl e \<Rightarrow> e = ErrSpawnFailed \<or> e = ErrSpawnTimeout
    | Inr t \<Rightarrow> \<exists>now. tun_ProxyURL t = Some \<lparr> url_Scheme = proxySchemeSOCKS5,
        url_Host = JoinHostPort (buildContainerName (req_Pool req) (req_ConfName req) now)
                     (strconvItoa (cfg_CellSocksPort cfg)), url_User = None \<rparr>"
proof -
  have name: "\<exists>now. name = buildContainerName (req_Pool req) (req_ConfName req) now"
    if "createAndStart env dk cfg req w = (Inr (cid, name), w1)" for cid name w1
    using that by (cases rule: createAndStart_cases) auto
  from assms(3) show ?thesis
  proof (cases rule: cell_Spawn_cases)
    case (uncreated e)
    from uncreated(1) have "e = ErrSpawnFailed" by (cases rule: createAndStart_cases) auto
    then show ?thesis using uncreated(2) by simp
  next
    case (unready cid name w1 e w2 l w3)
    then show ?thesis
      using name [OF unready(1)] waitReady_network [OF assms(1,2) _ unready(2)] by auto
  next
    case (ready cid name w1 t w2 l)
    then show ?thesis
      using name [OF ready(1)] waitReady_network [OF assms(1,2) _ ready(2)] by auto
  qed
qed

theorem spawn_outcome_witness:
  "cell_Spawn id (\<lambda>_. None) demo_clock (demo_docker False) demo_cell_cfg 20 demo_req [''c0''] =
     (Inl ErrSpawnTimeout, [''c0''])
   \<and> ErrSpawnTimeout \<in> {ErrSpawnFailed, ErrSpawnTimeout}"
  using spawn_outcome [OF _ _ demo_spawn_fails] demo_spawn_fails
  by (simp add: demo_cell_cfg_def demo_cfg_def)

text \<open>C11: whatever bytes the names of the pool and of the configuration have, the name of a cell's
  container is one that Docker accepts.\<close>

theorem container_name_valid: "docker_name (buildContainerName pool conf now)"
proof -
  have "isAlphaNum CHR ''p''" by code_simp
  then show ?thesis
    using name_hd [of pool conf now] list.pred_mono_strong [OF name_bytes [of pool conf now]]
    by (force simp: docker_name_def)
qed

section \<open>Finding cells again\<close>

lemma label_names [simp]:
  "LabelManaged \<noteq> LabelPool" "LabelManaged \<noteq> LabelConf" "LabelManaged \<noteq> LabelScope"
  "LabelManaged \<noteq> LabelParent" "LabelPool \<noteq> LabelConf" "LabelPool \<noteq> LabelScope"
  "LabelPool \<noteq> LabelParent" "LabelConf \<noteq> LabelScope" "LabelConf \<noteq> LabelParent"
  "LabelScope \<noteq> LabelParent"
  by code_simp+

lemma cell_labels:
  "con_Labels (buildContainerConfig cfg req) LabelManaged = Some ''true''"
  "con_Labels (buildContainerConfig cfg req) LabelPool = Some (req_Pool req)"
  "con_Labels (buildContainerConfig cfg req) LabelConf = Some (req_ConfName req)"
  "con_Labels (buildContainerConfig cfg req) LabelScope = Some (cfg_ManagedScope cfg)"
  "cfg_ParentID cfg \<noteq> '''' \<Longrightarrow>
     con_Labels (buildContainerConfig cfg req) LabelParent = Some (cfg_ParentID cfg)"
  by (simp_all add: buildContainerConfig_def Let_def)

text \<open>a cell is found again by its labels. The labels a spawn puts on its container match every
  filter of the listing of children and of the listing of orphans of the same configuration, and
  the handle made from them names the pool and the configuration of the spawn request.\<close>

theorem spawned_cell_found:
  assumes "sm_Labels c = con_Labels (buildContainerConfig cfg req)"
  shows "list_all (\<lambda>(k, v). sm_Labels c k = Some v) (children_filters cfg @ orphan_filters cfg)
     \<and> ch_Pool (handle_of cfg c) = req_Pool req \<and> ch_ConfName (handle_of cfg c) = req_ConfName req"
  using cell_labels [of cfg req]
  by (simp add: assms children_filters_def orphan_filters_def handle_of_def map_get_def)

definition demo_summary :: Summary where
  "demo_summary =
     \<lparr> sm_ID = ''c1'', sm_Labels = con_Labels (buildContainerConfig demo_cell_cfg demo_req),
       sm_State = ''running'', sm_Created = 100, sm_Networks = None \<rparr>"

theorem spawned_cell_found_witness:
  "ch_Pool (handle_of demo_cell_cfg demo_summary) = ''eu''
   \<and> ch_ConfName (handle_of demo_cell_cfg demo_summary) = ''de-x''"
  using spawned_cell_found [of demo_summary demo_cell_cfg demo_req]
  by (simp add: demo_summary_def demo_req_def)

section \<open>Orphans\<close>

lemma reap_loop_eq:
  "reap_loop dk minAge now keep prot cs n w =
     (n + length (filter (reapable minAge now keep prot) cs),
      fold (bestEffortKill dk) (map sm_ID (filter (reapable minAge now keep prot) cs)) w)"
  by (induction cs arbitrary: n w) simp_all


text \<open>A daemon that lists one tracked cell, one that is still being spawned and one orphan.\<close>

definition demo_listing :: "string list Docker" where
  "demo_listing = (demo_docker True)\<lparr> dk_ContainerList := (\<lambda>_ w. (Inr
     [demo_summary, demo_summary\<lparr> sm_ID := ''c2'', sm_Created := 999 \<rparr>, demo_summary\<lparr> sm_ID := ''c3'' \<rparr>], w)) \<rparr>"

definition demo_late :: "'w Env" where
  "demo_late = demo_clock\<lparr> env_Now := (\<lambda>w. (1000 * second, w)) \<rparr>"

lemma demo_reap:
  "ReapOrphans demo_late demo_listing demo_cell_cfg {''c1''} True [''c1'', ''c2'', ''c3''] =
     (Inr 1, [''c1'', ''c2''])"
  by (simp add: ReapOrphans_def demo_late_def demo_listing_def spawn_defs demo_summary_def
      reapable_def unix_time_def orphanInFlightGrace_def shouldReapState_def go_simps second_def)


section \<open>Rotation\<close>

text \<open>with the production spawner, a caller that excludes the proxy in the slot of a pool and
  insists on the pool gets a tunnel of another configuration, with an address.\<close>

theorem exclusion_rotates:
  assumes "mgr_wf m" "m_pools m name = Some p" "ps_tunnel p = Some t0" "\<not> not_excluded ex t0"
    and "acquireFromPool env (CellSpawner uu lit env dk cfg) name ex False m w = (Inr acq, m', w')"
  shows "\<exists>t. acq_Tunnel acq = Some t \<and> tun_ConfName t \<noteq> tun_ConfName t0
     \<and> tun_ProxyURL t \<noteq> None \<and> tun_GatewayAddr t \<noteq> ''''"
  using assms(1,2,5)
proof (cases rule: acquireFromPool_known)
  case (own t)
  have "tun_ProxyURL t \<noteq> None \<and> tun_GatewayAddr t \<noteq> ''''"
  proof -
    obtain limit req w w' t1 n at where
      "cell_Spawn uu lit env dk cfg limit req w = (Inr t1, w')" "t = prepare_tunnel n at t1"
      using own(2) assms(3,4) unfolding granted_def sp_Spawn_CellSpawner by (metis option.inject)
    then show ?thesis
      by (auto elim!: cell_Spawn_Inr simp: prepare_tunnel_def Let_def)
  qed
  then show ?thesis
    using own(1) cell.granted_rotates [OF own(2) assms(3,4)] by simp
next
  case (other t fp q)
  then show ?thesis by simp
qed simp

lemma demo_spawn_ok:
  "cell_Spawn id (\<lambda>_. None) demo_clock (demo_docker True) demo_cell_cfg limit req w =
     (Inr (new_tunnel id ''c1'' req
        \<lparr> url_Scheme = proxySchemeSOCKS5, url_Host = JoinHostPort
            (buildContainerName (req_Pool req) (req_ConfName req) 7) (strconvItoa 1080), url_User = None \<rparr>
        (JoinHostPort (buildContainerName (req_Pool req) (req_ConfName req) 7) (strconvItoa 1080)) 7),
      ''c1'' # w)"
proof -
  let ?a = "JoinHostPort (buildContainerName (req_Pool req) (req_ConfName req) 7) (strconvItoa 1080)"
  have "host_ok ?a" by (rule socks_host_ok) simp
  from socks_url_parses [OF this, of "\<lambda>_. None"] show ?thesis
    by (simp add: spawn_defs numeral_2_eq_2) (simp add: JoinHostPort_def)
qed

theorem exclusion_rotates_witness:
  "\<exists>t acq m' w'. acquireFromPool demo_clock
       (CellSpawner id (\<lambda>_. None) demo_clock (demo_docker True) demo_cell_cfg)
       ''eu'' (tun_ProxyURL demo_tunnel) False demo_leased [] = (Inr acq, m', w')
     \<and> acq_Tunnel acq = Some t \<and> tun_ConfName t \<noteq> ''fr-y''"
proof -
  let ?p = "\<lparr> ps_Spec = demo_spec ''eu'' [''de-x'', ''fr-y''] ''us'', ps_tunnel = Some demo_tunnel,
              ps_failed = [] \<rparr>"
  obtain acq m' w' where a: "acquireFromPool demo_clock
      (CellSpawner id (\<lambda>_. None) demo_clock (demo_docker True) demo_cell_cfg)
      ''eu'' (tun_ProxyURL demo_tunnel) False demo_leased [] = (Inr acq, m', w')"
    by (simp add: acquire_defs demo_leased_def demo_spawn_ok demo_tunnel_def
        demo_spec_def Let_def sameURL_def)
  have "m_pools demo_leased ''eu'' = Some ?p" by (simp add: demo_leased_def)
  from exclusion_rotates [OF demo_leased_wf this _ _ a, of demo_tunnel] show ?thesis
    using a by (auto simp: demo_tunnel_def not_excluded_def sameURL_def)
qed

end
