(* ===== verification/Reaper.thy ===== *)
theory Reaper
  imports Cell_Lifecycle
begin

text \<open>
  The reaper (\<^verbatim>\<open>reaper.go\<close>) and the operator's view of the cells (\<^verbatim>\<open>cells.go\<close>, the part on the
  manager): the idle, health and orphan passes, listing cells and destroying one.

  A pass of the reaper walks the map of pools; the order is an argument. The passes share the
  contract of the locale \<open>pool_pass\<close>: visiting a pool keeps the invariant and touches no other
  pool. The theory describes a pass that runs by itself; the interleaving with the other
  operations is the subject of a later theory.
\<close>

section \<open>Killing a tunnel\<close>

text \<open>The two critical sections of \<^verbatim>\<open>killTunnel\<close>, before and after the call of the spawner.\<close>

definition mark_reaping :: "string \<Rightarrow> PoolState \<Rightarrow> PoolState" where
  "mark_reaping containerID p =
     (case ps_tunnel p of
        None \<Rightarrow> p
      | Some cur \<Rightarrow>
          if tun_ContainerID cur = containerID
          then p\<lparr> ps_tunnel := Some (cur\<lparr> tun_State := TunnelStateReaping \<rparr>) \<rparr> else p)"

definition clear_slot :: "string \<Rightarrow> PoolState \<Rightarrow> Manager \<Rightarrow> Manager" where
  "clear_slot name p m =
     (let sh = m_shared m; (p, mx) = setTunnel None (sh_metrics sh) p
      in put_pool name p (m\<lparr> m_shared := sh\<lparr> sh_metrics := mx \<rparr> \<rparr>))"

definition count_reap :: "string \<Rightarrow> string \<Rightarrow> Manager \<Rightarrow> Manager" where
  "count_reap pool reason m =
     m\<lparr> m_shared := (m_shared m)\<lparr> sh_metrics := (sh_metrics (m_shared m))
          \<lparr> TunnelReapsTotal := inc_label (TunnelReapsTotal (sh_metrics (m_shared m))) pool reason \<rparr> \<rparr> \<rparr>"

definition killTunnel ::
  "'w Spawner \<Rightarrow> string \<Rightarrow> PoolState \<Rightarrow> Tunnel \<Rightarrow> string \<Rightarrow> Manager \<Rightarrow> 'w \<Rightarrow> Manager \<times> 'w" where
  "killTunnel sp pool p t reason m w =
     (let p = mark_reaping (tun_ContainerID t) p;
          m = put_pool pool p m;
          (err, w) = sp_Kill sp (tun_ContainerID t) w;
          m = clear_slot pool p m
      in (count_reap pool reason m, w))"

section \<open>Probing the cells\<close>

text \<open>A map of control URLs; a failed listing is the nil map, which reads as empty.\<close>

definition childControlURLs :: "'w Spawner \<Rightarrow> 'w \<Rightarrow> (string \<rightharpoonup> url) \<times> 'w" where
  "childControlURLs sp w =
     (case sp_ListChildren sp w of
        (Inl e, w) \<Rightarrow> (Map.empty, w)
      | (Inr handles, w) \<Rightarrow>
          (fold (\<lambda>h urls. case ch_ControlURL h of None \<Rightarrow> urls
                          | Some u \<Rightarrow> urls(ch_ContainerID h \<mapsto> u)) handles Map.empty, w))"

definition probeHealthy ::
  "'w Env \<Rightarrow> 'w HTTPDoer \<Rightarrow> Config \<Rightarrow> Tunnel \<Rightarrow> url option \<Rightarrow> 'w \<Rightarrow> bool \<times> 'w" where
  "probeHealthy env doer cfg t controlURL w =
     (if controlURL \<noteq> None then control_Healthy doer controlURL w
      else let (now, w) = env_Now env w
           in (time_sub now (tun_HealthyAt t) \<le> cfg_HealthHandshakeMaxAge cfg, w))"

definition hasLiveConnections ::
  "'w HTTPDoer \<Rightarrow> (string \<Rightarrow> error + Status) \<Rightarrow> url option \<Rightarrow> 'w \<Rightarrow> bool \<times> 'w" where
  "hasLiveConnections doer decode controlURL w =
     (if controlURL = None then (False, w)
      else case control_Status doer decode controlURL w of
             (Inl e, w) \<Rightarrow> (False, w)
           | (Inr status, w) \<Rightarrow> (0 <s st_Active (cs_Traffic status), w))"

section \<open>The passes\<close>

fun pool_pass_run ::
  "(string \<Rightarrow> Manager \<Rightarrow> 'w \<Rightarrow> Manager \<times> 'w) \<Rightarrow> string list \<Rightarrow> Manager \<Rightarrow> 'w \<Rightarrow> Manager \<times> 'w" where
  "pool_pass_run visit [] m w = (m, w)"
| "pool_pass_run visit (name # names) m w =
     (let (m, w) = visit name m w in pool_pass_run visit names m w)"

definition idle_visit ::
  "'w Spawner \<Rightarrow> 'w HTTPDoer \<Rightarrow> (string \<Rightarrow> error + Status) \<Rightarrow> Config \<Rightarrow> time \<Rightarrow> (string \<rightharpoonup> url)
     \<Rightarrow> string \<Rightarrow> Manager \<Rightarrow> 'w \<Rightarrow> Manager \<times> 'w" where
  "idle_visit sp doer decode cfg now controlURLs name m w =
     (case m_pools m name of
        None \<Rightarrow> (m, w)
      | Some p \<Rightarrow>
          (case Snapshot p of
             None \<Rightarrow> (m, w)
           | Some t \<Rightarrow>
               if time_sub now (tun_LastUsedAt t) < cfg_IdleTimeout cfg then (m, w)
               else if tun_InFlight t > 0 then (m, w)
               else case hasLiveConnections doer decode (controlURLs (tun_ContainerID t)) w of
                      (alive, w) \<Rightarrow> if alive then (m, w) else killTunnel sp name p t ''idle'' m w))"

definition reapIdle ::
  "'w Env \<Rightarrow> 'w Spawner \<Rightarrow> 'w HTTPDoer \<Rightarrow> (string \<Rightarrow> error + Status) \<Rightarrow> Config \<Rightarrow> string list
     \<Rightarrow> Manager \<Rightarrow> 'w \<Rightarrow> Manager \<times> 'w" where
  "reapIdle env sp doer decode cfg order m w =
     (let (now, w) = env_Now env w;
          (controlURLs, w) = childControlURLs sp w
      in pool_pass_run (idle_visit sp doer decode cfg now controlURLs) order m w)"

definition health_visit ::
  "'w Env \<Rightarrow> 'w Spawner \<Rightarrow> 'w HTTPDoer \<Rightarrow> Config \<Rightarrow> (string \<rightharpoonup> url)
     \<Rightarrow> string \<Rightarrow> Manager \<Rightarrow> 'w \<Rightarrow> Manager \<times> 'w" where
  "health_visit env sp doer cfg controlURLs name m w =
     (case m_pools m name of
        None \<Rightarrow> (m, w)
      | Some p \<Rightarrow>
          (case Snapshot p of
             None \<Rightarrow> (m, w)
           | Some t \<Rightarrow>
               if tun_State t \<noteq> TunnelStateHot then (m, w)
               else case probeHealthy env doer cfg t (controlURLs (tun_ContainerID t)) w of
                 (healthy, w) \<Rightarrow>
                   if healthy
                   then (case ps_tunnel p of
                           None \<Rightarrow> (m, w)
                         | Some cur \<Rightarrow>
                             if tun_ContainerID cur = tun_ContainerID t
                             then let (now, w) = env_Now env w
                                  in (put_pool name (p\<lparr> ps_tunnel := Some (cur\<lparr> tun_HealthyAt := now \<rparr>) \<rparr>) m, w)
                             else (m, w))
                   else let (now, w) = env_Now env w;
                            p = markFailed (tun_ConfName t) now p
                        in killTunnel sp name p t ''unhealthy'' m w))"

definition checkHealth ::
  "'w Env \<Rightarrow> 'w Spawner \<Rightarrow> 'w HTTPDoer \<Rightarrow> Config \<Rightarrow> string list \<Rightarrow> Manager \<Rightarrow> 'w \<Rightarrow> Manager \<times> 'w" where
  "checkHealth env sp doer cfg order m w =
     (let (controlURLs, w) = childControlURLs sp w
      in pool_pass_run (health_visit env sp doer cfg controlURLs) order m w)"

text \<open>
  The orphan pass only runs with the production spawner, here an optional Docker client; an error
  of the listing is only logged.
\<close>

definition keep_ids :: "string list \<Rightarrow> Manager \<Rightarrow> string set" where
  "keep_ids order m =
     set (filter ((\<noteq>) '''') (map tun_ContainerID (List.map_filter (\<lambda>name.
            case m_pools m name of None \<Rightarrow> None | Some p \<Rightarrow> Snapshot p) order)))"

definition reapOrphans ::
  "'w Env \<Rightarrow> 'w Docker option \<Rightarrow> Config \<Rightarrow> string list \<Rightarrow> Manager \<Rightarrow> 'w \<Rightarrow> 'w" where
  "reapOrphans env gs cfg order m w =
     (case gs of
        None \<Rightarrow> w
      | Some dk \<Rightarrow> snd (ReapOrphans env dk cfg (keep_ids order m) True w))"

section \<open>Cells\<close>

record CellView =
  cv_ContainerID :: string
  cv_ParentID :: string
  cv_Pool :: string
  cv_ConfName :: string
  cv_State :: string
  cv_ExitCountry :: string
  cv_CreatedAt :: time
  cv_UptimeSeconds :: duration
  cv_Traffic :: "Stats option"
  cv_StatusError :: string

definition exitCountryFor :: "(string \<Rightarrow> string) \<Rightarrow> Manager \<Rightarrow> string \<Rightarrow> string \<Rightarrow> string" where
  "exitCountryFor uu m pool conf =
     (case m_specs m pool of
        None \<Rightarrow> exitCountryFromConf uu conf
      | Some spec \<Rightarrow>
          let country = map_get (spec_ExitCountries spec) conf
          in if country \<noteq> '''' then country else exitCountryFromConf uu conf)"

definition cellView ::
  "(string \<Rightarrow> string) \<Rightarrow> 'w HTTPDoer \<Rightarrow> (string \<Rightarrow> error + Status) \<Rightarrow> Manager \<Rightarrow> CellHandle \<Rightarrow> 'w
     \<Rightarrow> CellView \<times> 'w" where
  "cellView uu doer decode m h w =
     (let view = \<lparr> cv_ContainerID = ch_ContainerID h, cv_ParentID = '''', cv_Pool = ch_Pool h,
                   cv_ConfName = ch_ConfName h, cv_State = ch_State h,
                   cv_ExitCountry = exitCountryFor uu m (ch_Pool h) (ch_ConfName h),
                   cv_CreatedAt = ch_CreatedAt h, cv_UptimeSeconds = 0, cv_Traffic = None,
                   cv_StatusError = '''' \<rparr>
      in if ch_ControlURL h = None then (view, w)
         else case control_Status doer decode (ch_ControlURL h) w of
                (Inl e, w) \<Rightarrow> (view\<lparr> cv_StatusError := error_text e \<rparr>, w)
              | (Inr status, w) \<Rightarrow>
                  (view\<lparr> cv_ParentID := cs_ParentID status, cv_UptimeSeconds := cs_UptimeSeconds status,
                         cv_Traffic := Some (cs_Traffic status) \<rparr>, w))"

fun cell_views ::
  "(string \<Rightarrow> string) \<Rightarrow> 'w HTTPDoer \<Rightarrow> (string \<Rightarrow> error + Status) \<Rightarrow> Manager \<Rightarrow> CellHandle list \<Rightarrow> 'w
     \<Rightarrow> CellView list \<times> 'w" where
  "cell_views uu doer decode m [] w = ([], w)"
| "cell_views uu doer decode m (h # hs) w =
     (let (v, w) = cellView uu doer decode m h w;
          (vs, w) = cell_views uu doer decode m hs w
      in (v # vs, w))"

definition Cells ::
  "(string \<Rightarrow> string) \<Rightarrow> 'w Spawner \<Rightarrow> 'w HTTPDoer \<Rightarrow> (string \<Rightarrow> error + Status) \<Rightarrow> Manager \<Rightarrow> 'w
     \<Rightarrow> (error + CellView list) \<times> 'w" where
  "Cells uu sp doer decode m w =
     (case sp_ListChildren sp w of
        (Inl e, w) \<Rightarrow> (Inl e, w)
      | (Inr handles, w) \<Rightarrow>
          let (views, w) = cell_views uu doer decode m handles w
          in (Inr (sort_key cv_ContainerID views), w))"

definition CellByID ::
  "(string \<Rightarrow> string) \<Rightarrow> 'w Spawner \<Rightarrow> 'w HTTPDoer \<Rightarrow> (string \<Rightarrow> error + Status) \<Rightarrow> string \<Rightarrow> Manager \<Rightarrow> 'w
     \<Rightarrow> (error + CellView option) \<times> 'w" where
  "CellByID uu sp doer decode containerID m w =
     (case sp_ListChildren sp w of
        (Inl e, w) \<Rightarrow> (Inl e, w)
      | (Inr handles, w) \<Rightarrow>
          (case find (\<lambda>h. ch_ContainerID h = containerID) handles of
             None \<Rightarrow> (Inr None, w)
           | Some h \<Rightarrow> (case cellView uu doer decode m h w of (v, w) \<Rightarrow> (Inr (Some v), w))))"

definition containsCell :: "CellHandle list \<Rightarrow> string \<Rightarrow> bool" where
  "containsCell handles containerID \<longleftrightarrow> list_ex (\<lambda>h. ch_ContainerID h = containerID) handles"

fun stateForContainer :: "string list \<Rightarrow> Manager \<Rightarrow> string \<Rightarrow> (string \<times> PoolState) option" where
  "stateForContainer [] m containerID = None"
| "stateForContainer (name # names) m containerID =
     (case m_pools m name of
        None \<Rightarrow> stateForContainer names m containerID
      | Some p \<Rightarrow>
          (case Snapshot p of
             None \<Rightarrow> stateForContainer names m containerID
           | Some t \<Rightarrow> if tun_ContainerID t = containerID then Some (name, p)
                       else stateForContainer names m containerID))"

definition DestroyCell ::
  "'w Spawner \<Rightarrow> string list \<Rightarrow> string \<Rightarrow> Manager \<Rightarrow> 'w \<Rightarrow> error option \<times> Manager \<times> 'w" where
  "DestroyCell sp order containerID m w =
     (case sp_ListChildren sp w of
        (Inl e, w) \<Rightarrow> (Some e, m, w)
      | (Inr handles, w) \<Rightarrow>
          if \<not> containsCell handles containerID then (Some ErrNotFound, m, w)
          else let (killErr, w) = sp_Kill sp containerID w;
                   m = (case stateForContainer order m containerID of
                          None \<Rightarrow> m
                        | Some (name, p) \<Rightarrow> clear_slot name p m)
               in (killErr, m, w))"

section \<open>The contract of a pass\<close>

text \<open>
  Visiting a pool keeps the invariant, the pool's specification and everything about the other
  pools and the leases.
\<close>

locale pool_pass =
  fixes visit :: "string \<Rightarrow> Manager \<Rightarrow> 'w \<Rightarrow> Manager \<times> 'w"
  assumes visit_wf: "mgr_wf m \<Longrightarrow> mgr_wf (fst (visit name m w))"
    and visit_other: "n \<noteq> name \<Longrightarrow> m_pools (fst (visit name m w)) n = m_pools m n"
    and visit_leases: "m_leases (fst (visit name m w)) = m_leases m"
begin

lemma run_wf: "mgr_wf m \<Longrightarrow> mgr_wf (fst (pool_pass_run visit names m w))"
  by (induction names arbitrary: m w) (simp_all add: visit_wf case_prod_unfold Let_def)

lemma run_leases: "m_leases (fst (pool_pass_run visit names m w)) = m_leases m"
  by (induction names arbitrary: m w) (simp_all add: visit_leases case_prod_unfold Let_def)

lemma run_other: "n \<notin> set names \<Longrightarrow> m_pools (fst (pool_pass_run visit names m w)) n = m_pools m n"
  by (induction names arbitrary: m w) (simp_all add: visit_other case_prod_unfold Let_def)

text \<open>In a pass over distinct names, what happens to a pool is what its one visit does.\<close>

lemma run_at:
  assumes "distinct names" "n \<in> set names" "mgr_wf m"
  shows "\<exists>m1 w1. mgr_wf m1 \<and> m_pools m1 n = m_pools m n
     \<and> m_pools (fst (pool_pass_run visit names m w)) n = m_pools (fst (visit n m1 w1)) n"
  using assms
proof (induction names arbitrary: m w)
  case (Cons a names)
  obtain m1 w1 where v: "visit a m w = (m1, w1)" by (metis surj_pair)
  have wf: "mgr_wf m1" using visit_wf [OF Cons.prems(3), of a w] by (simp add: v)
  show ?case
  proof (cases "n = a")
    case True
    then have "m_pools (fst (pool_pass_run visit names m1 w1)) n = m_pools m1 n"
      using Cons.prems(1) by (intro run_other) simp
    then show ?thesis using Cons.prems(3) True v by (intro exI [of _ m] exI [of _ w]) simp
  next
    case False
    then have "m_pools m1 n = m_pools m n" using visit_other [of n a m w] by (simp add: v)
    then show ?thesis using Cons.IH [of m1 w1] Cons.prems False wf v by simp
  qed
qed simp

end

section \<open>What the passes keep\<close>

lemma mark_reaping_clear [simp]: "(mark_reaping c p)\<lparr> ps_tunnel := None \<rparr> = p\<lparr> ps_tunnel := None \<rparr>"
  by (simp add: mark_reaping_def split: option.splits)

lemma mark_reaping_Spec [simp]: "ps_Spec (mark_reaping c p) = ps_Spec p"
  by (simp add: mark_reaping_def split: option.splits)

lemma slot_wf_mark_reaping: "slot_wf specs g name p \<Longrightarrow> slot_wf specs g name (mark_reaping c p)"
  by (auto simp: mark_reaping_def slot_wf_InFlight intro!: slot_wf_tunnel split: option.splits)

lemma clear_slot_simps [simp]:
  "m_pools (clear_slot name p m) = (m_pools m)(name \<mapsto> p\<lparr> ps_tunnel := None \<rparr>)"
  "m_leases (clear_slot name p m) = m_leases m" "m_cfg (clear_slot name p m) = m_cfg m"
  "m_specs (clear_slot name p m) = m_specs m"
  "TunnelReapsTotal (sh_metrics (m_shared (clear_slot name p m))) = TunnelReapsTotal (sh_metrics (m_shared m))"
  by (simp_all add: clear_slot_def setTunnel_def Let_def)

lemma count_reap_simps [simp]:
  "m_pools (count_reap pool reason m) = m_pools m" "m_leases (count_reap pool reason m) = m_leases m"
  "mgr_wf (count_reap pool reason m) = mgr_wf m"
  by (simp_all add: count_reap_def mgr_wf_def)

lemma clear_slot_wf:
  assumes "mgr_wf m" "m_pools m name = Some p"
  shows "mgr_wf (clear_slot name p m)"
  using mgr_wf_setTunnel [OF assms, of None] by (auto simp: clear_slot_def setTunnel_def Let_def)

lemma killTunnel_simps [simp]:
  "m_pools (fst (killTunnel sp name p t reason m w)) = (m_pools m)(name \<mapsto> p\<lparr> ps_tunnel := None \<rparr>)"
  "m_leases (fst (killTunnel sp name p t reason m w)) = m_leases m"
  "snd (killTunnel sp name p t reason m w) = snd (sp_Kill sp (tun_ContainerID t) w)"
  by (simp_all add: killTunnel_def Let_def case_prod_unfold)

lemma killTunnel_wf:
  assumes "mgr_wf m" "m_pools m name = Some q" "slot_wf (m_specs m) (mgr_gauge m) name p"
  shows "mgr_wf (fst (killTunnel sp name p t reason m w))"
proof -
  let ?p = "mark_reaping (tun_ContainerID t) p"
  have "mgr_wf (put_pool name ?p m)"
    using assms slot_wf_mark_reaping by (intro mgr_wf_put_same) auto
  then show ?thesis
    by (simp add: killTunnel_def Let_def case_prod_unfold clear_slot_wf)
qed

text \<open>What a visit of the idle pass does, by cases.\<close>

lemma idle_visit_cases:
  obtains
    (untouched) "fst (idle_visit sp doer decode cfg now urls name m w) = m"
      "\<And>p t. m_pools m name = Some p \<Longrightarrow> ps_tunnel p = Some t \<Longrightarrow>
         time_sub now (tun_LastUsedAt t) < cfg_IdleTimeout cfg \<or> 0 < tun_InFlight t
         \<or> fst (hasLiveConnections doer decode (urls (tun_ContainerID t)) w)"
  | (killed) p t w1 where "m_pools m name = Some p" "ps_tunnel p = Some t"
      "cfg_IdleTimeout cfg \<le> time_sub now (tun_LastUsedAt t)" "tun_InFlight t \<le> 0"
      "hasLiveConnections doer decode (urls (tun_ContainerID t)) w = (False, w1)"
      "idle_visit sp doer decode cfg now urls name m w = killTunnel sp name p t ''idle'' m w1"
proof (cases "\<exists>p t. m_pools m name = Some p \<and> ps_tunnel p = Some t
    \<and> cfg_IdleTimeout cfg \<le> time_sub now (tun_LastUsedAt t) \<and> tun_InFlight t \<le> 0
    \<and> \<not> fst (hasLiveConnections doer decode (urls (tun_ContainerID t)) w)")
  case True
  then obtain p t where a: "m_pools m name = Some p" "ps_tunnel p = Some t"
      "cfg_IdleTimeout cfg \<le> time_sub now (tun_LastUsedAt t)" "tun_InFlight t \<le> 0"
      "\<not> fst (hasLiveConnections doer decode (urls (tun_ContainerID t)) w)"
    by blast
  then obtain w1 where l: "hasLiveConnections doer decode (urls (tun_ContainerID t)) w = (False, w1)"
    by (metis prod.collapse)
  show thesis
    by (rule killed [OF a(1-4) l]) (use a l in \<open>simp add: idle_visit_def Snapshot_def\<close>)
next
  case False
  show thesis
  proof (rule untouched)
    show "fst (idle_visit sp doer decode cfg now urls name m w) = m"
      using False by (auto simp: idle_visit_def Snapshot_def not_le case_prod_unfold split: option.splits)
  qed (use False in force)
qed

lemma health_visit_cases:
  obtains
    (untouched) "fst (health_visit env sp doer cfg urls name m w) = m"
      "\<And>p t. m_pools m name = Some p \<Longrightarrow> ps_tunnel p = Some t \<Longrightarrow> tun_State t \<noteq> TunnelStateHot"
  | (healthy) p t w1 now w2 where "m_pools m name = Some p" "ps_tunnel p = Some t"
      "tun_State t = TunnelStateHot"
      "probeHealthy env doer cfg t (urls (tun_ContainerID t)) w = (True, w1)" "env_Now env w1 = (now, w2)"
      "health_visit env sp doer cfg urls name m w =
         (put_pool name (p\<lparr> ps_tunnel := Some (t\<lparr> tun_HealthyAt := now \<rparr>) \<rparr>) m, w2)"
  | (killed) p t w1 now w2 where "m_pools m name = Some p" "ps_tunnel p = Some t"
      "tun_State t = TunnelStateHot"
      "probeHealthy env doer cfg t (urls (tun_ContainerID t)) w = (False, w1)" "env_Now env w1 = (now, w2)"
      "health_visit env sp doer cfg urls name m w =
         killTunnel sp name (markFailed (tun_ConfName t) now p) t ''unhealthy'' m w2"
proof (cases "\<exists>p t. m_pools m name = Some p \<and> ps_tunnel p = Some t \<and> tun_State t = TunnelStateHot")
  case True
  then obtain p t where a: "m_pools m name = Some p" "ps_tunnel p = Some t" "tun_State t = TunnelStateHot"
    by blast
  obtain b w1 where b: "probeHealthy env doer cfg t (urls (tun_ContainerID t)) w = (b, w1)"
    by (metis surj_pair)
  obtain now w2 where n: "env_Now env w1 = (now, w2)" by (metis surj_pair)
  show thesis
  proof (cases b)
    case True
    show thesis
      by (rule healthy [OF a _ n]) (use a b n True in \<open>simp_all add: health_visit_def Snapshot_def\<close>)
  next
    case False
    show thesis
      by (rule killed [OF a _ n]) (use a b n False in \<open>simp_all add: health_visit_def Snapshot_def\<close>)
  qed
next
  case False
  show thesis
    by (rule untouched)
      (use False in \<open>auto simp: health_visit_def Snapshot_def split: option.splits\<close>)
qed

interpretation idle: pool_pass "idle_visit sp doer decode cfg now urls" for sp doer decode cfg now urls
proof
  fix m name n w
  let ?v = "fst (idle_visit sp doer decode cfg now urls name m w)"
  show "mgr_wf m \<Longrightarrow> mgr_wf ?v"
    by (cases rule: idle_visit_cases [of sp doer decode cfg now urls name m w])
      (simp_all add: killTunnel_wf mgr_wf_slot)
  show "n \<noteq> name \<Longrightarrow> m_pools ?v n = m_pools m n" "m_leases ?v = m_leases m"
    by (cases rule: idle_visit_cases [of sp doer decode cfg now urls name m w], simp_all)+
qed

interpretation health: pool_pass "health_visit env sp doer cfg urls" for env sp doer cfg urls
proof
  fix m name n w
  let ?v = "fst (health_visit env sp doer cfg urls name m w)"
  show "mgr_wf m \<Longrightarrow> mgr_wf ?v"
  proof (cases rule: health_visit_cases [of env sp doer cfg urls name m w])
    case (healthy p t w1 now w2)
    assume "mgr_wf m"
    then show ?thesis
      using healthy mgr_wf_slot [OF \<open>mgr_wf m\<close> healthy(1)]
      by (auto intro!: mgr_wf_put_same slot_wf_tunnel simp: slot_wf_InFlight)
  next
    case (killed p t w1 now w2)
    assume "mgr_wf m"
    then show ?thesis
      using killed mgr_wf_slot [OF \<open>mgr_wf m\<close> killed(1)] by (auto intro!: killTunnel_wf)
  qed simp
  show "n \<noteq> name \<Longrightarrow> m_pools ?v n = m_pools m n" "m_leases ?v = m_leases m"
    by (cases rule: health_visit_cases [of env sp doer cfg urls name m w], simp_all)+
qed

section \<open>Idle and unhealthy tunnels\<close>

lemma pass_slot:
  assumes "pool_pass visit" "mgr_wf m" "range_order order (m_pools m)" "m_pools m name = Some p"
    and "pool_pass_run visit order m w = (m', w')"
  shows "\<exists>m1 w1. mgr_wf m1 \<and> m_pools m1 name = Some p \<and> m_pools m' name = m_pools (fst (visit name m1 w1)) name"
proof -
  have "distinct order" "name \<in> set order"
    using assms(3,4) range_order_mem [OF assms(3)] by (auto simp: range_order_def)
  from pool_pass.run_at [OF assms(1) this assms(2), of w] show ?thesis
    using assms(4,5) by simp
qed

text \<open>an idle pass clears the slot of a tunnel only when nobody used it for the idle timeout, no
  request is in flight on it and its cell, asked at its current control address, reports no live
  connection; otherwise the tunnel stays as it is. It clears the slot whenever all three hold.\<close>

theorem idle_pass_safe:
  assumes "mgr_wf m" "range_order order (m_pools m)" "m_pools m name = Some p" "ps_tunnel p = Some t"
    and "env_Now env w = (now, w1)" "childControlURLs sp w1 = (urls, w2)"
    and "reapIdle env sp doer decode cfg order m w = (m', w')"
  shows "\<exists>w3. slots m' name =
     (if cfg_IdleTimeout cfg \<le> time_sub now (tun_LastUsedAt t) \<and> tun_InFlight t = 0
         \<and> \<not> fst (hasLiveConnections doer decode (urls (tun_ContainerID t)) w3)
      then Some None else Some (Some t))"
proof -
  let ?visit = "idle_visit sp doer decode cfg now urls"
  have "pool_pass_run ?visit order m w2 = (m', w')"
    using assms(5-7) by (simp add: reapIdle_def)
  from pass_slot [OF idle.pool_pass_axioms assms(1-3) this] obtain m1 w3 where
    m1: "mgr_wf m1" "m_pools m1 name = Some p" "m_pools m' name = m_pools (fst (?visit name m1 w3)) name"
    by blast
  have "0 \<le> tun_InFlight t"
    using mgr_wf_slot [OF assms(1,3)] assms(4) by (rule slot_wf_InFlight)
  then have "slots m' name =
     (if cfg_IdleTimeout cfg \<le> time_sub now (tun_LastUsedAt t) \<and> tun_InFlight t = 0
         \<and> \<not> fst (hasLiveConnections doer decode (urls (tun_ContainerID t)) w3)
      then Some None else Some (Some t))"
    using m1 assms(4)
    by (cases rule: idle_visit_cases [of sp doer decode cfg now urls name m1 w3])
      (fastforce simp: slots_def)+
  then show ?thesis by blast
qed

text \<open>a health pass leaves a tunnel that is not hot alone, confirms the time of a hot tunnel whose
  probe succeeds, and clears the slot of a hot tunnel whose probe fails, whose configuration then
  rests: it is not picked again within the lifetime of the failure cache.\<close>

theorem health_pass:
  assumes "mgr_wf m" "range_order order (m_pools m)" "m_pools m name = Some p" "ps_tunnel p = Some t"
    and "childControlURLs sp w = (urls, w1)" "checkHealth env sp doer cfg order m w = (m', w')"
  shows "\<exists>w2 healthy w3 now w4 p'. probeHealthy env doer cfg t (urls (tun_ContainerID t)) w2 = (healthy, w3)
     \<and> env_Now env w3 = (now, w4) \<and> m_pools m' name = Some p'
     \<and> (if tun_State t \<noteq> TunnelStateHot then p' = p
        else if healthy then p' = p\<lparr> ps_tunnel := Some (t\<lparr> tun_HealthyAt := now \<rparr>) \<rparr>
        else ps_tunnel p' = None
          \<and> (\<forall>ttl later. 0 \<le> ttl \<and> now \<le> later \<and> later \<le> now + ttl \<and> ttl \<le> max_duration \<longrightarrow>
                failed_within later ttl p' (tun_ConfName t)))"
proof -
  let ?visit = "health_visit env sp doer cfg urls"
  have "pool_pass_run ?visit order m w1 = (m', w')"
    using assms(5,6) by (simp add: checkHealth_def)
  from pass_slot [OF health.pool_pass_axioms assms(1-3) this] obtain m1 w2 where
    m1: "m_pools m1 name = Some p" "m_pools m' name = m_pools (fst (?visit name m1 w2)) name"
    by blast
  obtain healthy w3 now w4 where h: "probeHealthy env doer cfg t (urls (tun_ContainerID t)) w2 = (healthy, w3)"
    "env_Now env w3 = (now, w4)" by (metis surj_pair)
  have rest: "failed_within later ttl ((markFailed conf now p)\<lparr> ps_tunnel := None \<rparr>) conf"
    if "0 \<le> ttl" "now \<le> later" "later \<le> now + ttl" "ttl \<le> max_duration" for later ttl conf now
    using that by (auto simp: failed_within_def markFailed_def go_simps AList.update_conv')
  show ?thesis
  proof (cases rule: health_visit_cases [of env sp doer cfg urls name m1 w2])
    case untouched
    then have st: "m_pools m' name = Some p \<and> tun_State t \<noteq> TunnelStateHot" using m1 assms(4) by simp
    show ?thesis
      by (rule exI [of _ w2], rule exI [of _ healthy], rule exI [of _ w3],
          rule exI [of _ now], rule exI [of _ w4], rule exI [of _ p]) (use h st in simp)
  next
    case (healthy p1 t1 w5 now1 w6)
    have "p1 = p" "t1 = t" using healthy(1,2) m1(1) assms(4) by simp_all
    then have st: "m_pools m' name = Some (p\<lparr> ps_tunnel := Some (t\<lparr> tun_HealthyAt := now1 \<rparr>) \<rparr>)"
      using m1(2) healthy(6) by simp
    show ?thesis
      by (rule exI [of _ w2], rule exI [of _ True], rule exI [of _ w5],
          rule exI [of _ now1], rule exI [of _ w6], rule exI, intro conjI)
        (use healthy(3-5) \<open>t1 = t\<close> st in simp_all)
  next
    case (killed p1 t1 w5 now1 w6)
    have eq: "p1 = p" "t1 = t" using killed(1,2) m1(1) assms(4) by simp_all
    define p' where "p' = (markFailed (tun_ConfName t) now1 p)\<lparr> ps_tunnel := None \<rparr>"
    have st: "m_pools m' name = Some p'" "ps_tunnel p' = None"
      using m1(2) killed(6) by (simp_all add: eq p'_def)
    have rests: "\<forall>ttl later. 0 \<le> ttl \<and> now1 \<le> later \<and> later \<le> now1 + ttl \<and> ttl \<le> max_duration \<longrightarrow>
        failed_within later ttl p' (tun_ConfName t)"
      using rest by (simp add: p'_def)
    show ?thesis
      by (rule exI [of _ w2], rule exI [of _ False], rule exI [of _ w5],
          rule exI [of _ now1], rule exI [of _ w6], rule exI [of _ p'])
        (use killed(3-5) \<open>t1 = t\<close> st rests in simp)
  qed
qed

text \<open>
  The manager of the demonstration with a hot tunnel, one pool idle for long and one listed cell
  without a control address.
\<close>

definition demo_handles :: "CellHandle list" where
  "demo_handles = [\<lparr> ch_ContainerID = ''c1'', ch_Pool = ''eu'', ch_ConfName = ''fr-y'',
     ch_State = ''running'', ch_ControlURL = None, ch_CreatedAt = 0 \<rparr>]"

definition demo_reap_spawner :: "string list Spawner" where
  "demo_reap_spawner =
     \<lparr> sp_Spawn = (\<lambda>_ _ w. (Inl ErrSpawnFailed, w)), sp_Kill = (\<lambda>c w. (None, filter ((\<noteq>) c) w)),
       sp_ListChildren = (\<lambda>w. (Inr demo_handles, w)) \<rparr>"

lemma demo_leased_order: "range_order [''eu'', ''us''] (m_pools demo_leased)"
  by (auto simp: range_order_def demo_leased_def demo_defs dom_def split: if_splits)

lemma demo_leased_pool:
  "m_pools demo_leased ''eu'' = Some \<lparr> ps_Spec = demo_spec ''eu'' [''de-x'', ''fr-y''] ''us'',
     ps_tunnel = Some demo_tunnel, ps_failed = [] \<rparr>"
  by (simp add: demo_leased_def)

lemma demo_urls: "childControlURLs demo_reap_spawner w = (Map.empty, w)"
  by (simp add: childControlURLs_def demo_reap_spawner_def demo_handles_def)

abbreviation demo_doer :: "string list HTTPDoer" where
  "demo_doer \<equiv> \<lambda>_ _ w. (Inl ErrFetchFailed, w)"

theorem idle_pass_safe_witness:
  "\<exists>m' w'. reapIdle demo_late demo_reap_spawner demo_doer (\<lambda>_. Inl ErrFetchFailed) demo_cfg
       [''eu'', ''us''] demo_leased [''c1''] = (m', w')
     \<and> slots m' ''eu'' = Some None"
proof -
  obtain m' w' where r: "reapIdle demo_late demo_reap_spawner demo_doer (\<lambda>_. Inl ErrFetchFailed) demo_cfg
      [''eu'', ''us''] demo_leased [''c1''] = (m', w')" by (metis surj_pair)
  from idle_pass_safe [OF demo_leased_wf demo_leased_order demo_leased_pool _ _ demo_urls r]
  have "slots m' ''eu'' = Some None"
    by (simp add: demo_late_def hasLiveConnections_def demo_tunnel_def demo_cfg_def go_simps second_def)
  then show ?thesis using r by blast
qed

theorem health_pass_witness:
  "\<exists>m' w' p'. checkHealth demo_late demo_reap_spawner demo_doer demo_cfg
       [''eu'', ''us''] demo_leased [''c1''] = (m', w')
     \<and> m_pools m' ''eu'' = Some p' \<and> ps_tunnel p' = None"
proof -
  obtain m' w' where r: "checkHealth demo_late demo_reap_spawner demo_doer demo_cfg
      [''eu'', ''us''] demo_leased [''c1''] = (m', w')" by (metis surj_pair)
  from health_pass [OF demo_leased_wf demo_leased_order demo_leased_pool _ demo_urls r]
  have "\<exists>p'. m_pools m' ''eu'' = Some p' \<and> ps_tunnel p' = None"
    by (auto simp: demo_late_def probeHealthy_def demo_tunnel_def demo_cfg_def go_simps second_def)
  then show ?thesis using r by blast
qed

section \<open>Orphans and cells\<close>

lemma keep_ids_iff:
  assumes "range_order order (m_pools m)"
  shows "c \<in> keep_ids order m \<longleftrightarrow>
     c \<noteq> '''' \<and> (\<exists>name p t. m_pools m name = Some p \<and> ps_tunnel p = Some t \<and> tun_ContainerID t = c)"
proof -
  have "c \<in> keep_ids order m \<longleftrightarrow> c \<noteq> '''' \<and> (\<exists>name \<in> set order. \<exists>t.
      (case m_pools m name of None \<Rightarrow> None | Some p \<Rightarrow> ps_tunnel p) = Some t \<and> tun_ContainerID t = c)"
    unfolding keep_ids_def map_filter_def Snapshot_def by force
  then show ?thesis
    using range_order_mem [OF assms] by (auto split: option.splits) (metis option.inject)+
qed

text \<open>the orphan pass of the reaper never kills a cell that is in the slot of a pool: what it does
  to the daemon after listing and reading the clock is a sequence of kills, none of them of a
  tracked container, and none of a container younger than the longest spawn.\<close>

theorem orphan_pass_spares:
  assumes "range_order order (m_pools m)" "reapOrphans env (Some dk) cfg order m w = w'"
    and "dk_ContainerList dk (orphan_filters cfg) w = (r, w0)" "env_Now env w0 = (now, w1)"
  shows "case r of
      Inl e \<Rightarrow> w' = w0
    | Inr listed \<Rightarrow> \<exists>victims. w' = fold (bestEffortKill dk) (map sm_ID victims) w1
        \<and> set victims \<subseteq> set listed
        \<and> list_all (\<lambda>c. \<nexists>name p t. m_pools m name = Some p \<and> ps_tunnel p = Some t
             \<and> tun_ContainerID t = sm_ID c \<and> sm_ID c \<noteq> []) victims
        \<and> list_all (\<lambda>c. cfg_SpawnTimeout cfg + orphanInFlightGrace
             \<le> time_sub now (unix_time (sm_Created c))) victims"
proof (cases r)
  case (Inl e)
  then show ?thesis using assms(2,3) by (simp add: reapOrphans_def ReapOrphans_def)
next
  case (Inr listed)
  let ?v = "filter (reapable (cfg_SpawnTimeout cfg + orphanInFlightGrace) now (keep_ids order m) True) listed"
  have w': "w' = fold (bestEffortKill dk) (map sm_ID ?v) w1"
    using assms(2-4) Inr by (simp add: reapOrphans_def ReapOrphans_def reap_loop_eq Let_def)
  have v: "sm_ID c \<notin> keep_ids order m"
    "cfg_SpawnTimeout cfg + orphanInFlightGrace \<le> time_sub now (unix_time (sm_Created c))"
    if "c \<in> set ?v" for c
    using that by (auto simp: reapable_def split: if_splits)
  moreover have "list_all (\<lambda>c. \<nexists>name p t. m_pools m name = Some p \<and> ps_tunnel p = Some t
      \<and> tun_ContainerID t = sm_ID c \<and> sm_ID c \<noteq> []) ?v"
    using v(1) keep_ids_iff [OF assms(1)] unfolding list_all_iff by metis
  moreover have "list_all (\<lambda>c. cfg_SpawnTimeout cfg + orphanInFlightGrace
      \<le> time_sub now (unix_time (sm_Created c))) ?v"
    using v(2) unfolding list_all_iff by blast
  moreover have "set ?v \<subseteq> set listed" by auto
  ultimately have "\<exists>victims. w' = fold (bestEffortKill dk) (map sm_ID victims) w1
        \<and> set victims \<subseteq> set listed
        \<and> list_all (\<lambda>c. \<nexists>name p t. m_pools m name = Some p \<and> ps_tunnel p = Some t
             \<and> tun_ContainerID t = sm_ID c \<and> sm_ID c \<noteq> []) victims
        \<and> list_all (\<lambda>c. cfg_SpawnTimeout cfg + orphanInFlightGrace
             \<le> time_sub now (unix_time (sm_Created c))) victims"
    using w' by blast
  then show ?thesis using Inr by simp
qed

theorem orphan_pass_spares_witness:
  "\<exists>(victims :: Summary list) w1. reapOrphans demo_late (Some demo_listing) demo_cell_cfg [''eu'', ''us'']
        demo_leased [''c1'', ''c2'', ''c3''] = [''c1'', ''c2'']
     \<and> [''c1'', ''c2''] = fold (bestEffortKill demo_listing) (map sm_ID victims) w1"
proof -
  have k: "keep_ids [''eu'', ''us''] demo_leased = {''c1''}"
    by (auto simp: keep_ids_def map_filter_def Snapshot_def demo_leased_def demo_defs NewPoolState_def)
  have r: "reapOrphans demo_late (Some demo_listing) demo_cell_cfg [''eu'', ''us'']
        demo_leased [''c1'', ''c2'', ''c3''] = [''c1'', ''c2'']"
    by (simp add: reapOrphans_def k demo_reap)
  have "dk_ContainerList demo_listing (orphan_filters demo_cell_cfg) [''c1'', ''c2'', ''c3''] =
      (Inr [demo_summary, demo_summary\<lparr> sm_ID := ''c2'', sm_Created := 999 \<rparr>, demo_summary\<lparr> sm_ID := ''c3'' \<rparr>],
       [''c1'', ''c2'', ''c3''])"
    by (simp add: demo_listing_def)
  from orphan_pass_spares [OF demo_leased_order r this, of "1000 * second"]
  have "\<exists>(victims :: Summary list) w1. [''c1'', ''c2''] = fold (bestEffortKill demo_listing) (map sm_ID victims) w1"
    by (auto simp: demo_late_def)
  then show ?thesis using r by blast
qed

lemma stateForContainer_Some:
  "stateForContainer names m c = Some (name, p) \<Longrightarrow>
   name \<in> set names \<and> m_pools m name = Some p \<and> (\<exists>t. ps_tunnel p = Some t \<and> tun_ContainerID t = c)"
  by (induction names) (auto simp: Snapshot_def split: option.splits if_splits)

lemma stateForContainer_None:
  "stateForContainer names m c = None \<Longrightarrow> name \<in> set names \<Longrightarrow> m_pools m name = Some p \<Longrightarrow>
   ps_tunnel p = Some t \<Longrightarrow> tun_ContainerID t \<noteq> c"
  by (induction names) (auto simp: Snapshot_def split: option.splits if_splits)

definition slots_distinct :: "Manager \<Rightarrow> bool" where
  "slots_distinct m \<longleftrightarrow> (\<forall>n n' t t'. slots m n = Some (Some t) \<and> slots m n' = Some (Some t')
     \<and> tun_ContainerID t = tun_ContainerID t' \<longrightarrow> n = n')"

definition without_cell :: "string \<Rightarrow> Tunnel option \<Rightarrow> Tunnel option" where
  "without_cell c slot = (case slot of None \<Rightarrow> None | Some t \<Rightarrow> if tun_ContainerID t = c then None else Some t)"

lemma clear_holder_slots:
  assumes "slots_distinct m" "range_order order (m_pools m)"
  shows "slots (case stateForContainer order m c of None \<Rightarrow> m | Some (name, p) \<Rightarrow> clear_slot name p m) n =
     map_option (without_cell c) (slots m n)"
proof (cases "stateForContainer order m c")
  case None
  have "without_cell c (ps_tunnel p) = ps_tunnel p" if "m_pools m n = Some p" for p
    using stateForContainer_None [OF None, of n p] that range_order_mem [OF assms(2)]
    by (auto simp: without_cell_def split: option.splits)
  then show ?thesis using None by (cases "m_pools m n") (simp_all add: slots_def)
next
  case (Some np)
  obtain name p where np: "np = (name, p)" by (metis surj_pair)
  obtain t where t: "m_pools m name = Some p" "ps_tunnel p = Some t" "tun_ContainerID t = c"
    using stateForContainer_Some Some np by blast
  have "without_cell c (ps_tunnel q) = ps_tunnel q" if "m_pools m n = Some q" "n \<noteq> name" for q
  proof (cases "ps_tunnel q")
    case (Some t')
    have "tun_ContainerID t' \<noteq> c"
      using assms(1) t that Some unfolding slots_distinct_def slots_def by fastforce
    then show ?thesis using Some by (simp add: without_cell_def)
  qed (simp add: without_cell_def)
  then show ?thesis
    using Some np t by (cases "n = name"; cases "m_pools m n") (simp_all add: slots_def without_cell_def)
qed

text \<open>destroying a cell kills it if and only if the daemon lists it as a child, and clears the slot
  that holds it even when the kill fails; no other slot changes. An unlisted cell is reported as
  not found and a failed listing as its error, and then nothing changes.\<close>

theorem destroy_cell:
  assumes "slots_distinct m" "range_order order (m_pools m)"
    and "sp_ListChildren sp w = (listing, w1)" "DestroyCell sp order c m w = (r, m', w')"
  shows "case listing of
      Inl e \<Rightarrow> r = Some e \<and> m' = m \<and> w' = w1
    | Inr handles \<Rightarrow>
        if c \<notin> ch_ContainerID ` set handles then r = Some ErrNotFound \<and> m' = m \<and> w' = w1
        else (r, w') = sp_Kill sp c w1 \<and> slots m' = (\<lambda>n. map_option (without_cell c) (slots m n))"
proof (cases listing)
  case (Inl e)
  then show ?thesis using assms(3,4) by (auto simp: DestroyCell_def)
next
  case (Inr handles)
  have listed: "containsCell handles c \<longleftrightarrow> c \<in> ch_ContainerID ` set handles"
    by (auto simp: containsCell_def list_ex_iff)
  obtain k w2 where k: "sp_Kill sp c w1 = (k, w2)" by (metis surj_pair)
  show ?thesis
  proof (cases "containsCell handles c")
    case True
    then have "r = k" "w' = w2"
      "m' = (case stateForContainer order m c of None \<Rightarrow> m | Some (name, p) \<Rightarrow> clear_slot name p m)"
      using assms(3,4) Inr k by (simp_all add: DestroyCell_def)
    then show ?thesis
      using Inr True k listed clear_holder_slots [OF assms(1,2)] by (simp add: fun_eq_iff)
  next
    case False
    then show ?thesis using assms(3,4) Inr listed by (auto simp: DestroyCell_def)
  qed
qed

lemma demo_leased_distinct: "slots_distinct demo_leased"
  by (auto simp: slots_distinct_def slots_def demo_leased_def demo_defs NewPoolState_def split: if_splits)

theorem destroy_cell_witness:
  "\<exists>m'. DestroyCell demo_reap_spawner [''eu'', ''us''] ''c1'' demo_leased [''c1''] = (None, m', [])
     \<and> slots m' ''eu'' = Some None \<and> slots m' ''us'' = Some None"
proof -
  have l: "sp_ListChildren demo_reap_spawner [''c1''] = (Inr demo_handles, [''c1''])"
    by (simp add: demo_reap_spawner_def)
  obtain r m' w' where d: "DestroyCell demo_reap_spawner [''eu'', ''us''] ''c1'' demo_leased [''c1''] = (r, m', w')"
    by (metis surj_pair)
  from destroy_cell [OF demo_leased_distinct demo_leased_order l d]
  have "r = None" "w' = []" "slots m' = (\<lambda>n. map_option (without_cell ''c1'') (slots demo_leased n))"
    by (simp_all add: demo_handles_def demo_reap_spawner_def)
  moreover have "slots demo_leased ''us'' = Some None"
    by (simp add: slots_def demo_leased_def demo_defs NewPoolState_def)
  ultimately show ?thesis
    using d demo_leased_slot by (auto simp: without_cell_def demo_tunnel_def)
qed

section \<open>Every reachable state\<close>

text \<open>
  The steps of the controller: the operations of the manager, the passes of the reaper and the
  destruction of a cell.
\<close>

inductive ctl_step ::
  "'w Env \<Rightarrow> 'w Spawner \<Rightarrow> ('u, 'c, 'w) Dialer \<Rightarrow> Manager \<times> 'w \<Rightarrow> Manager \<times> 'w \<Rightarrow> bool"
  for env sp dl where
  step_manager: "mgr_step env sp dl s s' \<Longrightarrow> ctl_step env sp dl s s'"
| step_idle: "reapIdle env sp doer decode cfg order m w = (m', w') \<Longrightarrow> ctl_step env sp dl (m, w) (m', w')"
| step_health: "checkHealth env sp doer cfg order m w = (m', w') \<Longrightarrow> ctl_step env sp dl (m, w) (m', w')"
| step_orphans: "reapOrphans env gs cfg order m w = w' \<Longrightarrow> ctl_step env sp dl (m, w) (m, w')"
| step_destroy: "DestroyCell sp order c m w = (r, m', w') \<Longrightarrow> ctl_step env sp dl (m, w) (m', w')"

lemma DestroyCell_wf: "mgr_wf m \<Longrightarrow> DestroyCell sp order c m w = (r, m', w') \<Longrightarrow> mgr_wf m'"
  by (auto simp: DestroyCell_def Let_def split: prod.splits sum.splits if_splits option.splits
      intro!: clear_slot_wf dest!: stateForContainer_Some)

lemma ctl_step_wf: "ctl_step env sp dl s s' \<Longrightarrow> mgr_wf (fst s) \<Longrightarrow> mgr_wf (fst s')"
proof (induction rule: ctl_step.induct)
  case (step_idle doer decode cfg order m w m' w')
  obtain now w1 urls w2 where e: "env_Now env w = (now, w1)" "childControlURLs sp w1 = (urls, w2)"
    by (metis surj_pair)
  show ?case
    using step_idle idle.run_wf [of m sp doer decode cfg now urls order w2] by (simp add: reapIdle_def e)
next
  case (step_health doer cfg order m w m' w')
  obtain urls w1 where e: "childControlURLs sp w = (urls, w1)" by (metis surj_pair)
  show ?case
    using step_health health.run_wf [of m env sp doer cfg urls order w1] by (simp add: checkHealth_def e)
qed (auto intro: mgr_step_wf DestroyCell_wf)

lemma ctl_reach_wf: "(ctl_step env sp dl)\<^sup>*\<^sup>* s s' \<Longrightarrow> mgr_wf (fst s) \<Longrightarrow> mgr_wf (fst s')"
  by (induction rule: rtranclp_induct) (auto intro: ctl_step_wf)

text \<open>C2: in every state the controller can reach from its start, by any sequence of the operations of
  the manager, passes of the reaper and destructions of cells, with any arguments and whatever
  the spawner, the cells and the dialer answer, the invariant holds. In particular no in-flight
  counter is negative, the hot-tunnel gauge of a pool is one exactly when its slot is occupied, a
  tunnel sits in the slot of the pool it belongs to, and every lease belongs to a configured
  pool.\<close>

theorem reachable_invariant:
  assumes "specs_wf specs router" "\<forall>n spec. specs n = Some spec \<longrightarrow> spec_Name spec = n"
    "\<forall>n. TunnelHotGauge mx n = 0"
    "(ctl_step env sp dl)\<^sup>*\<^sup>* (NewManager cfg specs router mx, w) (m, w')"
  shows "mgr_wf m
    \<and> (\<forall>name t. slots m name = Some (Some t) \<longrightarrow> 0 \<le> tun_InFlight t \<and> tun_Pool t = name)
    \<and> (\<forall>name \<in> dom (m_pools m). mgr_gauge m name = (if slots m name = Some None then 0 else 1))
    \<and> (\<forall>i rec. reg_leases (m_leases m) i = Some rec \<longrightarrow> lease_Pool rec \<in> dom (m_pools m))"
proof -
  have "mgr_wf (NewManager cfg specs router mx)"
    using assms(1-3) by (intro NewManager_wf) auto
  then have "mgr_wf m" using ctl_reach_wf [OF assms(4)] by simp
  then show ?thesis using mgr_wf_facts by blast
qed

theorem reachable_invariant_witness:
  "\<exists>m w'. (ctl_step demo_env (demo_spawner {}) demo_dialer)\<^sup>*\<^sup>* (demo_mgr, 0) (m, w')
     \<and> mgr_wf m \<and> mgr_gauge m ''eu'' = 1"
proof -
  obtain t m w' where a: "AcquireForPool demo_env (demo_spawner {}) ''eu'' None False demo_mgr 0 =
      (Inr t, m, w')" and e: "slots m ''eu'' \<noteq> Some None" "m_pools m ''eu'' \<noteq> None"
    by (simp add: AcquireForPool_def demo_defs acquire_defs slots_def Let_def)
  have r: "(ctl_step demo_env (demo_spawner {}) demo_dialer)\<^sup>*\<^sup>* (demo_mgr, 0) (m, w')"
    by (rule r_into_rtranclp, rule step_manager, rule step_pool, rule a)
  have "\<forall>n spec. demo_specmap n = Some spec \<longrightarrow> spec_Name spec = n" "\<forall>n. TunnelHotGauge demo_metrics n = 0"
    by (auto simp: demo_specmap_def demo_spec_def demo_metrics_def split: if_splits)
  note inv = reachable_invariant [OF demo_specs_wf this r [unfolded demo_mgr_def]]
  have eu: "''eu'' \<in> dom (m_pools m)" using e(2) by auto
  have "\<forall>name \<in> dom (m_pools m). mgr_gauge m name = (if slots m name = Some None then 0 else 1)"
    using inv by blast
  from bspec [OF this eu] e(1) have "mgr_gauge m ''eu'' = 1" by simp
  moreover have "mgr_wf m" using inv by blast
  ultimately show ?thesis using r by blast
qed

end
