(* ===== verification/Interleaving.thy ===== *)
theory Interleaving
  imports Reaper
begin

text \<open>
  The concurrency of one pool: any number of requests acquiring a tunnel, with the spawn mutex of
  the pool, beside the reaper and the marking of failures. A step is one critical section of the
  pool's mutex, one operation on the spawn mutex, or the return of the spawner; the steps of
  different requests interleave freely. The bodies of the steps are the operations of the
  sequential theories.

  The theory shows that the spawn mutex is exclusive, that a herd of requests on a cold pool spawns
  one cell, that the requests come to an end, and two runs in which the accounting of the pool goes
  wrong because \<^verbatim>\<open>release\<close> and \<^verbatim>\<open>killTunnel\<close> act on whatever tunnel the slot holds at the time.
\<close>

section \<open>States and steps\<close>

text \<open>
  Where a request is in \<^verbatim>\<open>acquireFromState\<close> and \<^verbatim>\<open>spawnFromState\<close>: before the first attempt, waiting
  for the spawn mutex, holding it before the second attempt, before reading the exclusions, before
  the choice of a configuration, and in the call of the spawner; then it holds a tunnel until its
  release, or it was refused.
\<close>

datatype request =
    Begin "url option"
  | Waiting "url option"
  | Inside "url option"
  | Cold "url option"
  | Picking "string set"
  | Spawning string
  | Holding Tunnel
  | Refused error
  | Finished

text \<open>Where the reaper is: at rest, with a snapshot it decided to kill, or past the first section.\<close>

datatype reaper = Resting | Decided Tunnel | Killing Tunnel

text \<open>\<open>cn_spawns\<close> counts the tunnels published so far.\<close>

record conc =
  cn_pool :: PoolState
  cn_owner :: "nat option"
  cn_req :: "nat \<Rightarrow> request"
  cn_reaper :: reaper
  cn_spawns :: nat

definition goto :: "nat \<Rightarrow> request \<Rightarrow> conc \<Rightarrow> conc" where
  "goto i r s = s\<lparr> cn_req := (cn_req s)(i := r) \<rparr>"

definition publish :: "Tunnel \<Rightarrow> PoolState \<Rightarrow> PoolState" where
  "publish t p = p\<lparr> ps_tunnel := Some t \<rparr>"

inductive request_step :: "nat \<Rightarrow> duration \<Rightarrow> conc \<Rightarrow> conc \<Rightarrow> bool" for n ttl where
  first_hot: "\<lbrakk> i < n; cn_req s i = Begin ex; acquire ex now (cn_pool s) = (Inr t, p') \<rbrakk>
     \<Longrightarrow> request_step n ttl s (goto i (Holding t) (s\<lparr> cn_pool := p' \<rparr>))"
| first_cold: "\<lbrakk> i < n; cn_req s i = Begin ex; acquire ex now (cn_pool s) = (Inl e, p') \<rbrakk>
     \<Longrightarrow> request_step n ttl s (goto i (Waiting ex) (s\<lparr> cn_pool := p' \<rparr>))"
| lock: "\<lbrakk> i < n; cn_req s i = Waiting ex; cn_owner s = None \<rbrakk>
     \<Longrightarrow> request_step n ttl s (goto i (Inside ex) (s\<lparr> cn_owner := Some i \<rparr>))"
| second_hot: "\<lbrakk> i < n; cn_req s i = Inside ex; acquire ex now (cn_pool s) = (Inr t, p') \<rbrakk>
     \<Longrightarrow> request_step n ttl s (goto i (Holding t) (s\<lparr> cn_pool := p', cn_owner := None \<rparr>))"
| second_cold: "\<lbrakk> i < n; cn_req s i = Inside ex; acquire ex now (cn_pool s) = (Inl e, p') \<rbrakk>
     \<Longrightarrow> request_step n ttl s (goto i (Cold ex) (s\<lparr> cn_pool := p' \<rparr>))"
| exclusions: "\<lbrakk> i < n; cn_req s i = Cold ex \<rbrakk>
     \<Longrightarrow> request_step n ttl s (goto i (Picking (excludeConfsFor ex (cn_pool s))) s)"
| pick: "\<lbrakk> i < n; cn_req s i = Picking xs; pickConf r now xs ttl (cn_pool s) = (Inr conf, p') \<rbrakk>
     \<Longrightarrow> request_step n ttl s (goto i (Spawning conf) (s\<lparr> cn_pool := p' \<rparr>))"
| exhausted: "\<lbrakk> i < n; cn_req s i = Picking xs; pickConf r now xs ttl (cn_pool s) = (Inl e, p') \<rbrakk>
     \<Longrightarrow> request_step n ttl s (goto i (Refused e) (s\<lparr> cn_pool := p', cn_owner := None \<rparr>))"
| spawn_fails: "\<lbrakk> i < n; cn_req s i = Spawning conf \<rbrakk>
     \<Longrightarrow> request_step n ttl s (goto i (Refused ErrPoolUnavailable)
          (s\<lparr> cn_pool := markFailed conf now (cn_pool s), cn_owner := None \<rparr>))"
| spawn_returns: "\<lbrakk> i < n; cn_req s i = Spawning conf;
       t = prepare_tunnel (spec_Name (ps_Spec (cn_pool s))) now t0 \<rbrakk>
     \<Longrightarrow> request_step n ttl s (goto i (Holding t)
          (s\<lparr> cn_pool := publish t (cn_pool s), cn_owner := None, cn_spawns := cn_spawns s + 1 \<rparr>))"
| request_done: "\<lbrakk> i < n; cn_req s i = Holding t \<rbrakk>
     \<Longrightarrow> request_step n ttl s (goto i Finished (s\<lparr> cn_pool := release (cn_pool s) \<rparr>))"

text \<open>
  The other threads of the controller that touch the pool: the reaper, which decides on a snapshot,
  marks the tunnel, and after the kill clears the slot, and the marking of a failed configuration.
\<close>

inductive conc_step :: "nat \<Rightarrow> duration \<Rightarrow> conc \<Rightarrow> conc \<Rightarrow> bool" for n ttl where
  request: "request_step n ttl s s' \<Longrightarrow> conc_step n ttl s s'"
| reap_decide: "\<lbrakk> cn_reaper s = Resting; Snapshot (cn_pool s) = Some t \<rbrakk>
     \<Longrightarrow> conc_step n ttl s (s\<lparr> cn_reaper := Decided t \<rparr>)"
| reap_mark: "cn_reaper s = Decided t
     \<Longrightarrow> conc_step n ttl s (s\<lparr> cn_reaper := Killing t,
          cn_pool := mark_reaping (tun_ContainerID t) (cn_pool s) \<rparr>)"
| reap_clear: "cn_reaper s = Killing t
     \<Longrightarrow> conc_step n ttl s (s\<lparr> cn_reaper := Resting, cn_pool := (cn_pool s)\<lparr> ps_tunnel := None \<rparr> \<rparr>)"
| conf_failed: "conc_step n ttl s (s\<lparr> cn_pool := markFailed conf now (cn_pool s) \<rparr>)"
| tunnel_unhealthy: "ps_tunnel (cn_pool s) = Some t
     \<Longrightarrow> conc_step n ttl s (s\<lparr> cn_pool :=
          publish (t\<lparr> tun_State := TunnelStateUnhealthy \<rparr>) (cn_pool s) \<rparr>)"

text \<open>A pool before its first request: every request is about to begin.\<close>

definition conc_init :: "PoolState \<Rightarrow> (nat \<Rightarrow> url option) \<Rightarrow> conc" where
  "conc_init p ex =
     \<lparr> cn_pool = p, cn_owner = None, cn_req = (\<lambda>i. Begin (ex i)), cn_reaper = Resting, cn_spawns = 0 \<rparr>"

lemma goto_simps [simp]:
  "cn_pool (goto i r s) = cn_pool s" "cn_owner (goto i r s) = cn_owner s"
  "cn_req (goto i r s) = (cn_req s)(i := r)" "cn_reaper (goto i r s) = cn_reaper s"
  "cn_spawns (goto i r s) = cn_spawns s"
  by (simp_all add: goto_def)

lemma publish_simps [simp]:
  "ps_tunnel (publish t p) = Some t" "ps_Spec (publish t p) = ps_Spec p" "ps_failed (publish t p) = ps_failed p"
  by (simp_all add: publish_def)

section \<open>The spawn mutex\<close>

fun in_section :: "request \<Rightarrow> bool" where
  "in_section (Inside ex) = True"
| "in_section (Cold ex) = True"
| "in_section (Picking xs) = True"
| "in_section (Spawning conf) = True"
| "in_section _ = False"

definition sect_ok :: "(nat \<Rightarrow> request) \<Rightarrow> nat option \<Rightarrow> bool" where
  "sect_ok req own \<longleftrightarrow> (\<forall>i. in_section (req i) \<longleftrightarrow> own = Some i)"

abbreviation owner_ok :: "conc \<Rightarrow> bool" where
  "owner_ok s \<equiv> sect_ok (cn_req s) (cn_owner s)"

lemma sect_ok_move:
  "sect_ok req own \<Longrightarrow> in_section r = in_section (req i) \<Longrightarrow> sect_ok (req(i := r)) own"
  by (simp add: sect_ok_def)

lemma sect_ok_enter: "sect_ok req None \<Longrightarrow> in_section r \<Longrightarrow> sect_ok (req(i := r)) (Some i)"
  by (simp add: sect_ok_def)

lemma sect_ok_leave:
  "sect_ok req own \<Longrightarrow> in_section (req i) \<Longrightarrow> \<not> in_section r \<Longrightarrow> sect_ok (req(i := r)) None"
  by (simp add: sect_ok_def)

lemma request_step_owner: "request_step n ttl s s' \<Longrightarrow> owner_ok s \<Longrightarrow> owner_ok s'"
  by (induction rule: request_step.induct)
    (simp_all add: sect_ok_move sect_ok_enter sect_ok_leave)

lemma conc_step_owner: "conc_step n ttl s s' \<Longrightarrow> owner_ok s \<Longrightarrow> owner_ok s'"
  by (induction rule: conc_step.induct) (simp_all add: request_step_owner)

lemma conc_reach_owner: "(conc_step n ttl)\<^sup>*\<^sup>* s s' \<Longrightarrow> owner_ok s \<Longrightarrow> owner_ok s'"
  by (induction rule: rtranclp_induct) (auto intro: conc_step_owner)

lemma owner_ok_init [simp]: "owner_ok (conc_init p ex)"
  by (simp add: sect_ok_def conc_init_def)

text \<open>C12: under any interleaving of requests, the reaper and failure reports, at most one request is
  between taking the spawn mutex of the pool and leaving it, so at most one spawn is in flight for
  a pool; and the mutex is held exactly while a request is there.\<close>

theorem spawn_mutex:
  assumes "(conc_step n ttl)\<^sup>*\<^sup>* (conc_init p ex) s"
  shows "(\<forall>i j. in_section (cn_req s i) \<and> in_section (cn_req s j) \<longrightarrow> i = j)
     \<and> (cn_owner s = None \<longleftrightarrow> (\<forall>i. \<not> in_section (cn_req s i)))"
proof -
  have "owner_ok s" using conc_reach_owner [OF assms] by simp
  then show ?thesis unfolding sect_ok_def by (metis not_Some_eq option.inject)
qed

section \<open>A herd of requests\<close>

fun holding :: "request \<Rightarrow> bool" where
  "holding (Holding t) = True"
| "holding _ = False"

fun past_check :: "request \<Rightarrow> bool" where
  "past_check (Cold ex) = True"
| "past_check (Picking xs) = True"
| "past_check (Spawning conf) = True"
| "past_check _ = False"

fun no_exclusion :: "request \<Rightarrow> bool" where
  "no_exclusion (Begin ex) \<longleftrightarrow> ex = None"
| "no_exclusion (Waiting ex) \<longleftrightarrow> ex = None"
| "no_exclusion (Inside ex) \<longleftrightarrow> ex = None"
| "no_exclusion (Cold ex) \<longleftrightarrow> ex = None"
| "no_exclusion _ \<longleftrightarrow> True"

definition holders :: "nat \<Rightarrow> (nat \<Rightarrow> request) \<Rightarrow> int" where
  "holders n req = (\<Sum>i<n. of_bool (holding (req i)))"

lemma sum_upd:
  fixes f :: "request \<Rightarrow> 'a :: comm_monoid_add" and n :: nat
  assumes "i < n"
  shows "(\<Sum>j<n. f ((req(i := r)) j)) + f (req i) = (\<Sum>j<n. f (req j)) + f r"
proof -
  have eq: "(\<Sum>j \<in> {..<n} - {i}. f ((req(i := r)) j)) = (\<Sum>j \<in> {..<n} - {i}. f (req j))"
    by (rule sum.cong) auto
  show ?thesis
    using assms eq sum.remove [OF finite_lessThan, of i n "\<lambda>j. f ((req(i := r)) j)"]
      sum.remove [OF finite_lessThan, of i n "\<lambda>j. f (req j)"]
    by (simp add: ac_simps)
qed

lemma holders_upd:
  "i < n \<Longrightarrow> holders n (req(i := r)) = holders n req + of_bool (holding r) - of_bool (holding (req i))"
  using sum_upd [of i n "\<lambda>r. of_bool (holding r) :: int" req r] by (simp add: holders_def)

lemma holders_none: "(\<And>i. \<not> holding (req i)) \<Longrightarrow> holders n req = 0"
  by (simp add: holders_def)

text \<open>The pool of a herd: cold, or hot with a counter that counts the requests holding the tunnel.\<close>

definition herd_cold :: "nat \<Rightarrow> PoolState \<Rightarrow> (nat \<Rightarrow> request) \<Rightarrow> bool" where
  "herd_cold k p req \<longleftrightarrow>
     k = 0 \<and> ps_tunnel p = None \<and> (\<forall>i. no_exclusion (req i) \<and> \<not> holding (req i))"

definition herd_hot :: "nat \<Rightarrow> nat \<Rightarrow> PoolState \<Rightarrow> (nat \<Rightarrow> request) \<Rightarrow> bool" where
  "herd_hot n k p req \<longleftrightarrow>
     k = 1 \<and> (\<forall>i. no_exclusion (req i) \<and> \<not> past_check (req i))
     \<and> (\<exists>t. ps_tunnel p = Some t \<and> tun_State t = TunnelStateHot \<and> tun_InFlight t = holders n req
          \<and> (\<forall>i t'. req i = Holding t' \<longrightarrow> tun_ContainerID t' = tun_ContainerID t))"

lemma herd_cold_upd:
  "herd_cold k p req \<Longrightarrow> no_exclusion r \<Longrightarrow> \<not> holding r \<Longrightarrow> ps_tunnel p' = ps_tunnel p \<Longrightarrow>
   herd_cold k p' (req(i := r))"
  by (simp add: herd_cold_def)

lemma herd_hot_upd:
  assumes "k = 1" "i < n" "no_exclusion r" "\<not> past_check r"
    "\<And>j. j \<noteq> i \<Longrightarrow> no_exclusion (req j) \<and> \<not> past_check (req j)"
    "ps_tunnel p = Some t" "tun_State t = TunnelStateHot"
    "tun_InFlight t = holders n req + of_bool (holding r) - of_bool (holding (req i))"
    "\<And>t'. r = Holding t' \<Longrightarrow> tun_ContainerID t' = tun_ContainerID t"
    "\<And>j t'. j \<noteq> i \<Longrightarrow> req j = Holding t' \<Longrightarrow> tun_ContainerID t' = tun_ContainerID t"
  shows "herd_hot n k p (req(i := r))"
proof -
  have "tun_InFlight t = holders n (req(i := r))" using assms(2,8) by (simp add: holders_upd)
  moreover have "no_exclusion ((req(i := r)) j) \<and> \<not> past_check ((req(i := r)) j)" for j
    using assms(3,4) assms(5) [of j] by (cases "j = i") simp_all
  moreover have "(req(i := r)) j = Holding t' \<Longrightarrow> tun_ContainerID t' = tun_ContainerID t" for j t'
    using assms(9) [of t'] assms(10) [of j t'] by (cases "j = i") simp_all
  ultimately show ?thesis using assms(1,6,7) unfolding herd_hot_def by blast
qed

lemma acquire_cold: "ps_tunnel p = None \<Longrightarrow> acquire ex now p = (Inl ErrPoolUnavailable, p)"
  by (simp add: acquire_def)

lemma acquire_hot:
  "ps_tunnel p = Some t \<Longrightarrow> tun_State t = TunnelStateHot \<Longrightarrow>
   acquire None now p = (Inr (reserved now t), p\<lparr> ps_tunnel := Some (reserved now t) \<rparr>)"
  by (rule acq.reserve_admitted) (simp_all add: not_excluded_def)

lemma pickConf_tunnel: "pickConf r now xs ttl p = (res, p') \<Longrightarrow> ps_tunnel p' = ps_tunnel p"
  by (auto simp: pickConf_def cleanFailedLocked_def Let_def split: if_splits)

lemma sect_ok_unique: "sect_ok req own \<Longrightarrow> in_section (req i) \<Longrightarrow> in_section (req j) \<Longrightarrow> i = j"
  unfolding sect_ok_def by (metis option.inject)

lemma past_in_section: "past_check r \<Longrightarrow> in_section r"
  by (cases r) simp_all

lemma herd_cold_step:
  assumes "request_step n ttl s s'" "owner_ok s" "herd_cold (cn_spawns s) (cn_pool s) (cn_req s)"
  shows "herd_cold (cn_spawns s') (cn_pool s') (cn_req s') \<or> herd_hot n (cn_spawns s') (cn_pool s') (cn_req s')"
  using assms
proof (induction rule: request_step.induct)
  case (first_hot i s ex now t p')
  then show ?case by (simp add: herd_cold_def acquire_cold)
next
  case (first_cold i s ex now e p')
  then have "no_exclusion (Begin ex)" by (metis herd_cold_def)
  then show ?case using first_cold by (simp add: herd_cold_def acquire_cold)
next
  case (lock i s ex)
  then have "no_exclusion (Waiting ex)" by (metis herd_cold_def)
  then show ?case using lock by (simp add: herd_cold_def)
next
  case (second_hot i s ex now t p')
  then show ?case by (simp add: herd_cold_def acquire_cold)
next
  case (second_cold i s ex now e p')
  then have "no_exclusion (Inside ex)" by (metis herd_cold_def)
  then show ?case using second_cold by (simp add: herd_cold_def acquire_cold)
next
  case (spawn_returns i s conf t now t0)
  have other: "\<not> past_check (cn_req s j)" if "j \<noteq> i" for j
    using sect_ok_unique [OF spawn_returns(4), of i j] spawn_returns(2) past_in_section that by auto
  have none: "no_exclusion (cn_req s j)" "\<not> holding (cn_req s j)" for j
    using spawn_returns(5) by (simp_all add: herd_cold_def)
  have "cn_req s j \<noteq> Holding t'" for t' j using none(2) [of j] by auto
  then have "herd_hot n 1 (publish t (cn_pool s)) ((cn_req s)(i := Holding t))"
    using spawn_returns(1,3) none other
    by (intro herd_hot_upd [where t = t]) (auto simp: holders_none)
  moreover have "cn_spawns s = 0" using spawn_returns(5) by (simp add: herd_cold_def)
  ultimately show ?case by (simp del: fun_upd_apply)
next
  case (request_done i s t)
  then have "\<not> holding (Holding t)" by (metis herd_cold_def)
  then show ?case by simp
next
  case (pick i s xs r now conf p')
  show ?case
    using pick(5) pickConf_tunnel [OF pick(3)] herd_cold_upd [of _ _ _ "Spawning conf"]
    by (simp del: fun_upd_apply)
next
  case (exhausted i s xs r now e p')
  show ?case
    using exhausted(5) pickConf_tunnel [OF exhausted(3)] herd_cold_upd [of _ _ _ "Refused e"]
    by (simp del: fun_upd_apply)
qed (simp_all add: herd_cold_upd markFailed_def del: fun_upd_apply)

lemma herd_hot_step:
  assumes "request_step n ttl s s'" "owner_ok s" "herd_hot n (cn_spawns s) (cn_pool s) (cn_req s)"
  shows "herd_hot n (cn_spawns s') (cn_pool s') (cn_req s')"
proof -
  obtain t0 where t0: "ps_tunnel (cn_pool s) = Some t0" "tun_State t0 = TunnelStateHot"
      "tun_InFlight t0 = holders n (cn_req s)"
      "\<And>i t'. cn_req s i = Holding t' \<Longrightarrow> tun_ContainerID t' = tun_ContainerID t0"
    and k: "cn_spawns s = 1" and none: "\<And>i. no_exclusion (cn_req s i)" "\<And>i. \<not> past_check (cn_req s i)"
    using assms(3) by (auto simp: herd_hot_def)
  show ?thesis
    using assms(1) t0 k none
  proof (induction rule: request_step.induct)
    case (first_hot i s ex now t p')
    then have "no_exclusion (Begin ex)" by metis
    then show ?case
      using first_hot unfolding goto_simps by (intro herd_hot_upd [where t = t]) (auto simp: acquire_hot)
  next
    case (first_cold i s ex now e p')
    then have "no_exclusion (Begin ex)" by metis
    then show ?case using first_cold by (simp add: acquire_hot)
  next
    case (lock i s ex)
    then have "no_exclusion (Waiting ex)" by metis
    then show ?case using lock unfolding goto_simps by (intro herd_hot_upd [where t = t0]) auto
  next
    case (second_hot i s ex now t p')
    then have "no_exclusion (Inside ex)" by metis
    then show ?case
      using second_hot unfolding goto_simps by (intro herd_hot_upd [where t = t]) (auto simp: acquire_hot)
  next
    case (second_cold i s ex now e p')
    then have "no_exclusion (Inside ex)" by metis
    then show ?case using second_cold by (simp add: acquire_hot)
  next
    case (request_done i s t)
    have "0 < holders n (cn_req s)"
      unfolding holders_def using request_done(1,2) by (intro sum_pos2 [of _ i]) auto
    then show ?case
      using request_done unfolding goto_simps
      by (intro herd_hot_upd [where t = "t0\<lparr> tun_InFlight := tun_InFlight t0 - 1 \<rparr>"])
        (auto simp: release_def)
  next
    case (exclusions i s ex)
    then have "\<not> past_check (Cold ex)" by metis
    then show ?case by simp
  next
    case (pick i s xs r now conf p')
    then have "\<not> past_check (Picking xs)" by metis
    then show ?case by simp
  next
    case (exhausted i s xs r now e p')
    then have "\<not> past_check (Picking xs)" by metis
    then show ?case by simp
  next
    case (spawn_fails i s conf now)
    then have "\<not> past_check (Spawning conf)" by metis
    then show ?case by simp
  next
    case (spawn_returns i s conf t now t0)
    then have "\<not> past_check (Spawning conf)" by metis
    then show ?case by simp
  qed
qed

lemma herd_reach:
  assumes "(request_step n ttl)\<^sup>*\<^sup>* s s'" "owner_ok s" "herd_cold (cn_spawns s) (cn_pool s) (cn_req s)"
  shows "owner_ok s' \<and> (herd_cold (cn_spawns s') (cn_pool s') (cn_req s')
    \<or> herd_hot n (cn_spawns s') (cn_pool s') (cn_req s'))"
  using assms
proof (induction rule: rtranclp_induct)
  case (step s1 s2)
  then show ?case
    using request_step_owner [OF step(2)] herd_cold_step [OF step(2)] herd_hot_step [OF step(2)] by blast
qed simp


section \<open>Requests come to an end\<close>

fun rank :: "request \<Rightarrow> nat" where
  "rank (Begin ex) = 7"
| "rank (Waiting ex) = 6"
| "rank (Inside ex) = 5"
| "rank (Cold ex) = 4"
| "rank (Picking xs) = 3"
| "rank (Spawning conf) = 2"
| "rank (Holding t) = 1"
| "rank (Refused e) = 0"
| "rank Finished = 0"

definition work :: "nat \<Rightarrow> (nat \<Rightarrow> request) \<Rightarrow> nat" where
  "work n req = (\<Sum>i<n. rank (req i))"

lemma work_upd: "i < n \<Longrightarrow> rank r < rank (req i) \<Longrightarrow> work n (req(i := r)) < work n req"
  using sum_upd [of i n rank req r] by (simp add: work_def)

lemma request_step_work: "request_step n ttl s s' \<Longrightarrow> work n (cn_req s') < work n (cn_req s)"
  by (induction rule: request_step.induct) (simp_all add: work_upd del: fun_upd_apply)

lemma request_run_work: "(request_step n ttl ^^ k) s s' \<Longrightarrow> k + work n (cn_req s') \<le> work n (cn_req s)"
proof (induction k arbitrary: s')
  case (Suc k)
  then obtain s1 where "(request_step n ttl ^^ k) s s1" "request_step n ttl s1 s'" by auto
  then show ?case using Suc.IH [of s1] request_step_work [of n ttl s1 s'] by simp
qed simp

definition owner_below :: "nat \<Rightarrow> conc \<Rightarrow> bool" where
  "owner_below n s \<longleftrightarrow> (\<forall>j. cn_owner s = Some j \<longrightarrow> j < n)"

lemma request_step_below: "request_step n ttl s s' \<Longrightarrow> owner_below n s \<Longrightarrow> owner_below n s'"
  by (induction rule: request_step.induct) (simp_all add: owner_below_def)

lemma step_possible:
  assumes "i < n" "rank (cn_req s i) \<noteq> 0" "\<And>ex. cn_req s i = Waiting ex \<Longrightarrow> cn_owner s = None"
  shows "\<exists>s'. request_step n ttl s s'"
proof (cases "cn_req s i")
  case (Begin ex)
  show ?thesis
    using first_hot [OF assms(1) Begin] first_cold [OF assms(1) Begin]
    by (cases "acquire ex 0 (cn_pool s)"; cases "fst (acquire ex 0 (cn_pool s))") fastforce+
next
  case (Inside ex)
  show ?thesis
    using second_hot [OF assms(1) Inside] second_cold [OF assms(1) Inside]
    by (cases "acquire ex 0 (cn_pool s)"; cases "fst (acquire ex 0 (cn_pool s))") fastforce+
next
  case (Picking xs)
  show ?thesis
    using pick [OF assms(1) Picking] exhausted [OF assms(1) Picking]
    by (cases "pickConf 0 0 xs ttl (cn_pool s)"; cases "fst (pickConf 0 0 xs ttl (cn_pool s))") fastforce+
next
  case (Waiting ex)
  show ?thesis using lock [OF assms(1) Waiting assms(3) [OF Waiting]] by blast
next
  case (Cold ex)
  show ?thesis using exclusions [OF assms(1) Cold] by blast
next
  case (Spawning conf)
  show ?thesis using spawn_fails [OF assms(1) Spawning] by blast
next
  case (Holding t)
  show ?thesis using request_done [OF assms(1) Holding] by blast
qed (use assms(2) in simp_all)

lemma request_progress:
  assumes "owner_ok s" "owner_below n s" "i < n" "rank (cn_req s i) \<noteq> 0"
  shows "\<exists>s'. request_step n ttl s s'"
proof (cases "cn_owner s")
  case None
  then show ?thesis using step_possible [OF assms(3,4)] by blast
next
  case (Some j)
  have j: "j < n" "in_section (cn_req s j)"
    using assms(1,2) Some by (simp_all add: owner_below_def sect_ok_def)
  have "rank (cn_req s j) \<noteq> 0" "\<And>ex. cn_req s j \<noteq> Waiting ex"
    using j(2) by (cases "cn_req s j"; simp)+
  then show ?thesis using step_possible [OF j(1), of s] by blast
qed

lemma request_run_inv:
  "(request_step n ttl ^^ k) s s' \<Longrightarrow> owner_ok s \<Longrightarrow> owner_below n s \<Longrightarrow> owner_ok s' \<and> owner_below n s'"
  by (induction k arbitrary: s') (auto intro: request_step_owner request_step_below)

text \<open>C14: the requests on a pool come to an end. However they interleave and whatever they exclude,
  \<open>n\<close> requests take at most \<open>7 n\<close> steps together, and a state in which none of them can move is one
  in which every request was refused or has released its tunnel; so no request waits for the spawn
  mutex forever.\<close>

theorem requests_complete:
  assumes "(request_step n ttl ^^ k) (conc_init p ex) s"
  shows "k \<le> 7 * n
     \<and> ((\<nexists>s'. request_step n ttl s s') \<longleftrightarrow>
          (\<forall>i<n. cn_req s i = Finished \<or> (\<exists>e. cn_req s i = Refused e)))"
proof
  have "work n (cn_req (conc_init p ex)) = 7 * n" by (simp add: work_def conc_init_def)
  then show "k \<le> 7 * n" using request_run_work [OF assms] by simp
  have inv: "owner_ok s" "owner_below n s"
    using request_run_inv [OF assms owner_ok_init] by (simp_all add: owner_below_def conc_init_def)
  have ended: "rank r = 0 \<longleftrightarrow> r = Finished \<or> (\<exists>e. r = Refused e)" for r by (cases r) simp_all
  have "(\<nexists>s'. request_step n ttl s s') \<longleftrightarrow> (\<forall>i<n. rank (cn_req s i) = 0)"
  proof
    assume "\<nexists>s'. request_step n ttl s s'"
    then show "\<forall>i<n. rank (cn_req s i) = 0" using request_progress [OF inv] by blast
  next
    assume z: "\<forall>i<n. rank (cn_req s i) = 0"
    then have "work n (cn_req s) = 0" by (simp add: work_def)
    then show "\<nexists>s'. request_step n ttl s s'" using request_step_work by fastforce
  qed
  then show "(\<nexists>s'. request_step n ttl s s') \<longleftrightarrow>
      (\<forall>i<n. cn_req s i = Finished \<or> (\<exists>e. cn_req s i = Refused e))"
    by (simp add: ended)
qed

section \<open>Runs\<close>

lemma goto_goto [simp]: "goto i r (goto i r' s) = goto i r s"
  by (simp add: goto_def)

lemma goto_commute [simp]:
  "(goto i r s)\<lparr> cn_pool := p \<rparr> = goto i r (s\<lparr> cn_pool := p \<rparr>)"
  "(goto i r s)\<lparr> cn_owner := own \<rparr> = goto i r (s\<lparr> cn_owner := own \<rparr>)"
  "(goto i r s)\<lparr> cn_spawns := k \<rparr> = goto i r (s\<lparr> cn_spawns := k \<rparr>)"
  by (simp_all add: goto_def)

lemma acquire_refuses:
  assumes "\<And>t. ps_tunnel p = Some t \<Longrightarrow> tun_State t \<noteq> TunnelStateHot"
  shows "\<exists>e. acquire ex now p = (Inl e, p)"
  using assms by (cases rule: acq.reserve_cases [of p ex now]) auto

text \<open>A request that finds no hot tunnel and a free mutex can run alone until it has spawned.\<close>

lemma respawn:
  assumes i: "i < n" "cn_req s i = Begin None" and free: "cn_owner s = None"
    and cold: "\<And>t. ps_tunnel (cn_pool s) = Some t \<Longrightarrow> tun_State t \<noteq> TunnelStateHot"
    and conf: "pickConf r at {} ttl (cn_pool s) = (Inr conf, p')"
    and t: "t = prepare_tunnel (spec_Name (ps_Spec p')) now t0"
  shows "(request_step n ttl)\<^sup>*\<^sup>* s
     (goto i (Holding t) (s\<lparr> cn_pool := publish t p', cn_owner := None, cn_spawns := cn_spawns s + 1 \<rparr>))"
proof -
  obtain e where e: "acquire None now (cn_pool s) = (Inl e, cn_pool s)"
    using acquire_refuses cold by blast
  let ?in = "s\<lparr> cn_owner := Some i \<rparr>" and ?sp = "s\<lparr> cn_owner := Some i, cn_pool := p' \<rparr>"
  note step = converse_rtranclp_into_rtranclp [of "request_step n ttl"]
  have 1: "request_step n ttl s (goto i (Waiting None) s)"
    using first_cold [OF i e] by simp
  have 2: "request_step n ttl (goto i (Waiting None) s) (goto i (Inside None) ?in)"
    using lock [of i n "goto i (Waiting None) s" None] i free by simp
  have 3: "request_step n ttl (goto i (Inside None) ?in) (goto i (Cold None) ?in)"
    using second_cold [of i n "goto i (Inside None) ?in" None now e "cn_pool s"] i e by simp
  have 4: "request_step n ttl (goto i (Cold None) ?in) (goto i (Picking {}) ?in)"
    using exclusions [of i n "goto i (Cold None) ?in" None] i by (simp add: excludeConfsFor_def)
  have 5: "request_step n ttl (goto i (Picking {}) ?in) (goto i (Spawning conf) ?sp)"
    using pick [of i n "goto i (Picking {}) ?in" "{}" r at ttl conf p'] i conf by simp
  have 6: "request_step n ttl (goto i (Spawning conf) ?sp)
      (goto i (Holding t) (s\<lparr> cn_pool := publish t p', cn_owner := None, cn_spawns := cn_spawns s + 1 \<rparr>))"
    using spawn_returns [of i n "goto i (Spawning conf) ?sp" conf t now t0] i t free by simp
  show ?thesis
    by (rule step [OF 1 step [OF 2 step [OF 3 step [OF 4 step [OF 5 step [OF 6 rtranclp.rtrancl_refl]]]]]])
qed

definition demo_cold :: PoolState where
  "demo_cold = NewPoolState (demo_spec ''eu'' [''de-x'', ''fr-y''] ''us'')"

definition fresh :: Tunnel where
  "fresh = prepare_tunnel ''eu'' 200 (demo_tunnel\<lparr> tun_ContainerID := ''c2'', tun_ConfName := ''de-x'' \<rparr>)"

lemma demo_pick:
  "pickConf 0 0 {} 300 demo_cold = (Inr ''de-x'', demo_cold)"
  "pickConf 0 0 {} 300 (demo_cold\<lparr> ps_tunnel := slot \<rparr>) = (Inr ''de-x'', demo_cold\<lparr> ps_tunnel := slot \<rparr>)"
  by (simp_all add: pickConf_def demo_cold_def NewPoolState_def demo_spec_def cleanFailedLocked_def)

lemma fresh_eq:
  "fresh = prepare_tunnel (spec_Name (ps_Spec (demo_cold\<lparr> ps_tunnel := slot \<rparr>))) 200
     (demo_tunnel\<lparr> tun_ContainerID := ''c2'', tun_ConfName := ''de-x'' \<rparr>)"
  "fresh = prepare_tunnel (spec_Name (ps_Spec demo_cold)) 200
     (demo_tunnel\<lparr> tun_ContainerID := ''c2'', tun_ConfName := ''de-x'' \<rparr>)"
  by (simp_all add: fresh_def demo_cold_def NewPoolState_def demo_spec_def)

definition herd_end :: conc where
  "herd_end = goto 1 (Holding (reserved 300 fresh)) (goto 0 (Holding fresh)
     ((conc_init demo_cold (\<lambda>_. None))\<lparr> cn_pool := publish (reserved 300 fresh) demo_cold, cn_spawns := 1 \<rparr>))"

lemma demo_herd: "(request_step 2 300)\<^sup>*\<^sup>* (conc_init demo_cold (\<lambda>_. None)) herd_end"
proof -
  let ?s = "conc_init demo_cold (\<lambda>_. None)"
  let ?s1 = "goto 0 (Holding fresh)
    (?s\<lparr> cn_pool := publish fresh demo_cold, cn_owner := None, cn_spawns := cn_spawns ?s + 1 \<rparr>)"
  have "(request_step 2 300)\<^sup>*\<^sup>* ?s ?s1"
    by (rule respawn [OF _ _ _ _ _ fresh_eq(2), where r = 0 and at = 0 and conf = "''de-x''"])
      (simp_all add: conc_init_def demo_pick, simp add: demo_cold_def NewPoolState_def)
  moreover have "request_step 2 300 ?s1 herd_end"
  proof -
    have "ps_tunnel (cn_pool ?s1) = Some fresh" "tun_State fresh = TunnelStateHot"
      by (simp_all add: fresh_def)
    then show ?thesis
      using first_hot [OF _ _ acquire_hot, of 1 2 ?s1 fresh 300 300]
      by (simp add: herd_end_def conc_init_def publish_def)
  qed
  ultimately show ?thesis by simp
qed

theorem spawn_mutex_witness:
  "(conc_step 2 300)\<^sup>*\<^sup>* (conc_init demo_cold (\<lambda>_. None)) herd_end
   \<and> (cn_owner herd_end = None \<longleftrightarrow> (\<forall>i. \<not> in_section (cn_req herd_end i)))"
proof -
  have "conc_step 2 300 s s'" if "request_step 2 300 s s'" for s s' using that by (rule request)
  then have r: "(conc_step 2 300)\<^sup>*\<^sup>* (conc_init demo_cold (\<lambda>_. None)) herd_end"
    using demo_herd by (metis mono_rtranclp)
  then show ?thesis using spawn_mutex [OF r] by blast
qed


theorem requests_complete_witness:
  "\<exists>k. (request_step 2 300 ^^ k) (conc_init demo_cold (\<lambda>_. None)) herd_end \<and> k \<le> 14
     \<and> (\<exists>s'. request_step 2 300 herd_end s')"
proof -
  obtain k where k: "(request_step 2 300 ^^ k) (conc_init demo_cold (\<lambda>_. None)) herd_end"
    using demo_herd by (metis rtranclp_imp_relpowp)
  have "cn_req herd_end 0 = Holding fresh" by (simp add: herd_end_def)
  then have "\<not> (\<forall>i<2. cn_req herd_end i = Finished \<or> (\<exists>e. cn_req herd_end i = Refused e))"
    by (intro notI, drule_tac x = 0 in spec) simp
  then show ?thesis using requests_complete [OF k] k by fastforce
qed

section \<open>Two races\<close>

text \<open>
  A pool whose hot tunnel nobody uses. In the first run the reaper decides to kill it and marks it;
  while the kill is under way, a request finds no hot tunnel, spawns a fresh cell and publishes it;
  then the reaper clears the slot, and the fresh cell, held by the request, is tracked nowhere.
\<close>

definition warm :: conc where
  "warm = conc_init (demo_cold\<lparr> ps_tunnel := Some demo_tunnel \<rparr>) (\<lambda>_. None)"

abbreviation (input) slot_is :: "Tunnel option \<Rightarrow> PoolState" where
  "slot_is t \<equiv> demo_cold\<lparr> ps_tunnel := t \<rparr>"

lemma request_steps_conc: "(request_step n ttl)\<^sup>*\<^sup>* s s' \<Longrightarrow> (conc_step n ttl)\<^sup>*\<^sup>* s s'"
  by (rule mono_rtranclp [rule_format]) (auto intro: request)

lemma reap_drops_fresh:
  "\<exists>s. (conc_step 2 300)\<^sup>*\<^sup>* warm s \<and> cn_req s 0 = Holding fresh \<and> ps_tunnel (cn_pool s) = None
     \<and> tun_ContainerID fresh \<noteq> tun_ContainerID demo_tunnel"
proof -
  let ?old = "Some (demo_tunnel\<lparr> tun_State := TunnelStateReaping \<rparr>)"
  let ?s1 = "warm\<lparr> cn_reaper := Decided demo_tunnel \<rparr>"
  let ?s2 = "warm\<lparr> cn_reaper := Killing demo_tunnel, cn_pool := slot_is ?old \<rparr>"
  let ?s3 = "goto 0 (Holding fresh) (?s2\<lparr> cn_pool := publish fresh (slot_is ?old), cn_owner := None,
    cn_spawns := cn_spawns ?s2 + 1 \<rparr>)"
  let ?s4 = "?s3\<lparr> cn_reaper := Resting, cn_pool := (cn_pool ?s3)\<lparr> ps_tunnel := None \<rparr> \<rparr>"
  have 1: "conc_step 2 300 warm ?s1"
    by (rule reap_decide) (simp_all add: warm_def conc_init_def Snapshot_def)
  have 2: "conc_step 2 300 ?s1 ?s2"
    using reap_mark [of ?s1 demo_tunnel 2 300]
    by (simp add: warm_def conc_init_def mark_reaping_def)
  have 3: "(conc_step 2 300)\<^sup>*\<^sup>* ?s2 ?s3"
    by (rule request_steps_conc,
        rule respawn [OF _ _ _ _ _ fresh_eq(1), where r = 0 and at = 0 and conf = "''de-x''"])
      (simp_all add: warm_def conc_init_def demo_pick)
  have 4: "conc_step 2 300 ?s3 ?s4"
    by (rule reap_clear [of _ demo_tunnel]) simp
  have "(conc_step 2 300)\<^sup>*\<^sup>* warm ?s4"
    using 1 2 3 4 by (meson converse_rtranclp_into_rtranclp rtranclp.rtrancl_into_rtrancl)
  then show ?thesis
    by (intro exI [of _ ?s4]) (simp add: fresh_def demo_tunnel_def)
qed

text \<open>
  In the second run a request holds the tunnel when it is reported unhealthy; another request spawns
  a fresh cell; then the first one releases, and the counter of the fresh cell drops to zero while
  the second request still holds it.
\<close>

lemma release_hits_fresh:
  "\<exists>s t. (conc_step 2 300)\<^sup>*\<^sup>* warm s \<and> cn_req s 1 = Holding fresh \<and> ps_tunnel (cn_pool s) = Some t
     \<and> tun_ContainerID t = tun_ContainerID fresh \<and> tun_InFlight t = 0"
proof -
  let ?t1 = "reserved 150 demo_tunnel"
  let ?t2 = "?t1\<lparr> tun_State := TunnelStateUnhealthy \<rparr>"
  let ?s1 = "goto 0 (Holding ?t1) (warm\<lparr> cn_pool := slot_is (Some ?t1) \<rparr>)"
  let ?s2 = "?s1\<lparr> cn_pool := publish ?t2 (slot_is (Some ?t1)) \<rparr>"
  let ?s3 = "goto 1 (Holding fresh) (?s2\<lparr> cn_pool := publish fresh (slot_is (Some ?t2)), cn_owner := None,
    cn_spawns := cn_spawns ?s2 + 1 \<rparr>)"
  let ?s4 = "goto 0 Finished (?s3\<lparr> cn_pool := release (cn_pool ?s3) \<rparr>)"
  have "acquire None 150 (cn_pool warm) = (Inr ?t1, slot_is (Some ?t1))"
    by (simp add: warm_def conc_init_def acquire_def demo_tunnel_def reserved_def Let_def)
  then have 1: "conc_step 2 300 warm ?s1"
    by (intro request, rule_tac first_hot) (simp_all add: warm_def conc_init_def)
  have 2: "conc_step 2 300 ?s1 ?s2"
    using tunnel_unhealthy [of ?s1 ?t1 2 300] by simp
  have 3: "(conc_step 2 300)\<^sup>*\<^sup>* ?s2 ?s3"
    by (rule request_steps_conc,
        rule respawn [OF _ _ _ _ _ fresh_eq(1), where r = 0 and at = 0 and conf = "''de-x''"])
      (simp_all add: warm_def conc_init_def demo_pick publish_def)
  have 4: "conc_step 2 300 ?s3 ?s4"
    by (rule request, rule request_done [of _ _ _ ?t1]) simp_all
  have "(conc_step 2 300)\<^sup>*\<^sup>* warm ?s4"
    using 1 2 3 4 by (meson converse_rtranclp_into_rtranclp rtranclp.rtrancl_into_rtrancl)
  moreover have "ps_tunnel (cn_pool ?s4) = Some (fresh\<lparr> tun_InFlight := 0 \<rparr>)"
    by (simp add: release_def fresh_def)
  ultimately show ?thesis by (intro exI [of _ ?s4]) simp
qed

end
