(* ===== verification/Api.thy ===== *)
theory Api
  imports Interleaving
begin

text \<open>
  The control plane (\<^verbatim>\<open>api.go\<close> and the handlers of \<^verbatim>\<open>cells.go\<close>): authentication, the strict request
  body of an allocation, the dispatch to the manager, the mapping of errors to HTTP statuses, the
  collections with their pagination, and the cells.

  A handler is a function of the request, the manager and the state of the world that returns the
  response. Parsing a media type and decoding a JSON body are parameters: the model says what the
  handlers do with their results. The names of the error responses stand for the constants of the
  HTTP library.
\<close>

section \<open>Requests and responses\<close>

record ProxyRequest =
  pq_Country :: string
  pq_Pool :: string
  pq_ExcludeProxy :: string
  pq_FallbackOK :: bool

record ProxyResponse =
  pr_Proxies :: ProxyURLs
  pr_Pool :: string
  pr_ExitCountry :: string
  pr_ExitIP :: string
  pr_ExpiresAt :: time

datatype apiError =
    ErrorUnauthorized
  | ErrorUnsupportedContentType
  | ErrorValidationFailed
  | ErrorServiceUnavailable
  | ErrorInternalServerError
  | ErrorNotFound

datatype body =
    BodyError apiError
  | BodyProxy ProxyResponse
  | BodyPools "PoolView list" int int int
  | BodyProxies "ProxyView list" int int int
  | BodyCells "CellView list" int int int
  | BodyCell CellView
  | BodyEmpty

record Response =
  rs_Status :: nat
  rs_Body :: body

record Request =
  rq_Authorization :: string
  rq_ContentType :: string
  rq_Body :: string
  rq_Query :: "string \<Rightarrow> string"
  rq_PathValue :: string

text \<open>
  What the handlers are built from: the parameters of the manager's operations, and the two
  decoders. \<open>ae_json\<close> strictly decodes the first value of a body and tells whether nothing follows.
\<close>

record 'w ApiEnv =
  ae_env :: "'w Env"
  ae_sp :: "'w Spawner"
  ae_doer :: "'w HTTPDoer"
  ae_status :: "string \<Rightarrow> error + Status"
  ae_sha256 :: "string \<Rightarrow> string"
  ae_lit :: "string \<Rightarrow> string option"
  ae_lower :: "string \<Rightarrow> string"
  ae_upper :: "string \<Rightarrow> string"
  ae_media :: "string \<Rightarrow> string option"
  ae_json :: "string \<Rightarrow> (ProxyRequest \<times> bool) option"

type_synonym 'w handler = "Manager \<Rightarrow> 'w \<Rightarrow> Response \<times> Manager \<times> 'w"

definition writeError :: "nat \<Rightarrow> apiError \<Rightarrow> Response" where
  "writeError status e = \<lparr> rs_Status = status, rs_Body = BodyError e \<rparr>"

section \<open>Allocating a proxy\<close>

definition maxRequestBody :: nat where
  "maxRequestBody = 16 * 1024"

definition hasJSONContentType :: "'w ApiEnv \<Rightarrow> Request \<Rightarrow> bool" where
  "hasJSONContentType d r \<longleftrightarrow> ae_media d (rq_ContentType r) = Some ''application/json''"

text \<open>A body beyond the limit fails one of the two reads of the decoder.\<close>

definition decodeProxyRequest :: "'w ApiEnv \<Rightarrow> Request \<Rightarrow> Response + ProxyRequest" where
  "decodeProxyRequest d r =
     (if \<not> hasJSONContentType d r then Inl (writeError 415 ErrorUnsupportedContentType)
      else if length (rq_Body r) > maxRequestBody then Inl (writeError 400 ErrorValidationFailed)
      else case ae_json d (rq_Body r) of
        None \<Rightarrow> Inl (writeError 400 ErrorValidationFailed)
      | Some (request, eof) \<Rightarrow>
          if \<not> eof then Inl (writeError 400 ErrorValidationFailed)
          else let hasCountry = (trim_space (pq_Country request) \<noteq> []);
                   hasPool = (trim_space (pq_Pool request) \<noteq> [])
               in if hasCountry = hasPool then Inl (writeError 400 ErrorValidationFailed)
                  else if hasCountry \<and> \<not> isCountryCode (pq_Country request)
                  then Inl (writeError 400 ErrorValidationFailed)
                  else Inr request)"

definition parseExcludedProxy ::
  "'w ApiEnv \<Rightarrow> string \<Rightarrow> Manager \<Rightarrow> 'w \<Rightarrow> (Response + url option) \<times> Manager \<times> 'w" where
  "parseExcludedProxy d raw m w =
     (if raw = [] then (Inr None, m, w)
      else case ResolveExcludedProxy (ae_lit d) (ae_sha256 d) (ae_env d) raw m w of
             (Inl e, m, w) \<Rightarrow> (Inl (writeError 400 ErrorValidationFailed), m, w)
           | (Inr proxyURL, m, w) \<Rightarrow> (Inr proxyURL, m, w))"

definition api_acquire ::
  "'w ApiEnv \<Rightarrow> string \<Rightarrow> string \<Rightarrow> url option \<Rightarrow> bool \<Rightarrow> Manager \<Rightarrow> 'w
     \<Rightarrow> (error + Acquisition) \<times> Manager \<times> 'w" where
  "api_acquire d country pool excludeProxy fallbackOK m w =
     (if pool \<noteq> [] then AcquireForPool (ae_env d) (ae_sp d) pool excludeProxy fallbackOK m w
      else AcquireForCountry (ae_lower d) (ae_env d) (ae_sp d) country excludeProxy fallbackOK m w)"

definition writeAcquireError :: "error \<Rightarrow> Response" where
  "writeAcquireError err =
     (if err = ErrInvalidCountry \<or> err = ErrUnknownPool then writeError 400 ErrorValidationFailed
      else if err = ErrPoolExhausted \<or> err = ErrPoolUnavailable
      then writeError 503 ErrorServiceUnavailable
      else writeError 500 ErrorInternalServerError)"

definition count_acquire :: "string \<Rightarrow> Manager \<Rightarrow> Manager" where
  "count_acquire pool m =
     m\<lparr> m_shared := (m_shared m)\<lparr> sh_metrics := (sh_metrics (m_shared m))
          \<lparr> TunnelAcquireTotal := inc_label (TunnelAcquireTotal (sh_metrics (m_shared m))) pool ''ok'' \<rparr> \<rparr> \<rparr>"

definition handleProxy :: "'w ApiEnv \<Rightarrow> Request \<Rightarrow> 'w handler" where
  "handleProxy d r m w =
     (case decodeProxyRequest d r of
        Inl resp \<Rightarrow> (resp, m, w)
      | Inr request \<Rightarrow>
          (case parseExcludedProxy d (pq_ExcludeProxy request) m w of
             (Inl resp, m, w) \<Rightarrow> (resp, m, w)
           | (Inr excludeProxy, m, w) \<Rightarrow>
               (case api_acquire d (pq_Country request) (pq_Pool request) excludeProxy
                       (pq_FallbackOK request) m w of
                  (Inl err, m, w) \<Rightarrow> (writeAcquireError err, m, w)
                | (Inr acq, m, w) \<Rightarrow>
                    (case IssueLease (ae_sha256 d) (ae_env d) acq m w of
                       (Inl err, m, w) \<Rightarrow>
                         (writeError 500 ErrorInternalServerError, manager_Release acq m, w)
                     | (Inr lease, m, w) \<Rightarrow>
                         let response = \<lparr> pr_Proxies = pl_Proxies lease, pr_Pool = acq_Pool acq,
                               pr_ExitCountry = (case acq_Tunnel acq of None \<Rightarrow> [] | Some t \<Rightarrow> tun_ExitCountry t),
                               pr_ExitIP = (case acq_Tunnel acq of None \<Rightarrow> [] | Some t \<Rightarrow> tun_ExitIP t),
                               pr_ExpiresAt = pl_ExpiresAt lease \<rparr>;
                             m = count_acquire (acq_Pool acq) m
                         in (\<lparr> rs_Status = 200, rs_Body = BodyProxy response \<rparr>,
                             manager_Release acq m, w)))))"

section \<open>Collections\<close>

definition defaultProxyLimit :: int where
  "defaultProxyLimit = 100"

definition maxProxyLimit :: int where
  "maxProxyLimit = 1000"

definition boundedQueryInt :: "Request \<Rightarrow> string \<Rightarrow> int \<Rightarrow> int \<Rightarrow> int option" where
  "boundedQueryInt r name defaultValue maximum =
     (let raw = rq_Query r name
      in if raw = [] then Some defaultValue
         else case Atoi raw of
           None \<Rightarrow> None
         | Some value \<Rightarrow>
             if value < 0 \<or> maximum > 0 \<and> value > maximum \<or> name = ''limit'' \<and> value = 0 then None
             else Some value)"

definition collectionPage :: "Request \<Rightarrow> Response + int \<times> int" where
  "collectionPage r =
     (case boundedQueryInt r ''limit'' defaultProxyLimit maxProxyLimit of
        None \<Rightarrow> Inl (writeError 400 ErrorValidationFailed)
      | Some limit \<Rightarrow>
          (case boundedQueryInt r ''offset'' 0 0 of
             None \<Rightarrow> Inl (writeError 400 ErrorValidationFailed)
           | Some offset \<Rightarrow> Inr (limit, offset)))"

text \<open>The slice is \<^verbatim>\<open>items[offset:min(offset+limit, total)]\<close>.\<close>

definition pageItems :: "'a list \<Rightarrow> int \<Rightarrow> int \<Rightarrow> 'a list \<times> int \<times> int" where
  "pageItems items limit offset =
     (let total = int (length items);
          offset = (if offset > total then total else offset);
          upto = min (offset + limit) total
      in (take (nat (upto - offset)) (drop (nat offset) items), offset, total))"

definition handlePools :: "'w ApiEnv \<Rightarrow> string list \<Rightarrow> Request \<Rightarrow> 'w handler" where
  "handlePools d order r m w =
     (case collectionPage r of
        Inl resp \<Rightarrow> (resp, m, w)
      | Inr (limit, offset) \<Rightarrow>
          (case Views (ae_env d) order m w of
             (views, m, w) \<Rightarrow>
               let (pools, offset, total) = pageItems views limit offset
               in (\<lparr> rs_Status = 200, rs_Body = BodyPools pools limit offset total \<rparr>, m, w)))"

definition handleProxies :: "'w ApiEnv \<Rightarrow> string list \<Rightarrow> Request \<Rightarrow> 'w handler" where
  "handleProxies d order r m w =
     (case collectionPage r of
        Inl resp \<Rightarrow> (resp, m, w)
      | Inr (limit, offset) \<Rightarrow>
          (case ProxyViews (ae_env d) order m w of
             (views, w) \<Rightarrow>
               let (proxies, offset, total) = pageItems views limit offset
               in (\<lparr> rs_Status = 200, rs_Body = BodyProxies proxies limit offset total \<rparr>, m, w)))"

section \<open>Cells\<close>

definition handleCells :: "'w ApiEnv \<Rightarrow> Request \<Rightarrow> 'w handler" where
  "handleCells d r m w =
     (case collectionPage r of
        Inl resp \<Rightarrow> (resp, m, w)
      | Inr (limit, offset) \<Rightarrow>
          (case Cells (ae_upper d) (ae_sp d) (ae_doer d) (ae_status d) m w of
             (Inl err, w) \<Rightarrow> (writeError 500 ErrorInternalServerError, m, w)
           | (Inr cells, w) \<Rightarrow>
               let (cells, offset, total) = pageItems cells limit offset
               in (\<lparr> rs_Status = 200, rs_Body = BodyCells cells limit offset total \<rparr>, m, w)))"

definition handleCell :: "'w ApiEnv \<Rightarrow> Request \<Rightarrow> 'w handler" where
  "handleCell d r m w =
     (let containerID = trim_space (rq_PathValue r)
      in if containerID = [] then (writeError 400 ErrorValidationFailed, m, w)
         else case CellByID (ae_upper d) (ae_sp d) (ae_doer d) (ae_status d) containerID m w of
                (Inl err, w) \<Rightarrow> (writeError 500 ErrorInternalServerError, m, w)
              | (Inr None, w) \<Rightarrow> (writeError 404 ErrorNotFound, m, w)
              | (Inr (Some view), w) \<Rightarrow> (\<lparr> rs_Status = 200, rs_Body = BodyCell view \<rparr>, m, w))"

definition handleDeleteCell :: "'w ApiEnv \<Rightarrow> string list \<Rightarrow> Request \<Rightarrow> 'w handler" where
  "handleDeleteCell d order r m w =
     (let containerID = trim_space (rq_PathValue r)
      in if containerID = [] then (writeError 400 ErrorValidationFailed, m, w)
         else case DestroyCell (ae_sp d) order containerID m w of
                (None, m, w) \<Rightarrow> (\<lparr> rs_Status = 204, rs_Body = BodyEmpty \<rparr>, m, w)
              | (Some err, m, w) \<Rightarrow>
                  if err = ErrNotFound then (writeError 404 ErrorNotFound, m, w)
                  else (writeError 500 ErrorInternalServerError, m, w))"

section \<open>The server\<close>

text \<open>The server keeps the digest of its token; comparing digests in constant time is comparing them.\<close>

definition authenticate ::
  "(string \<Rightarrow> string) \<Rightarrow> string \<Rightarrow> (Request \<Rightarrow> 'w handler) \<Rightarrow> Request \<Rightarrow> 'w handler" where
  "authenticate sha256 tokenDigest next_handler r m w =
     (case cut_prefix (rq_Authorization r) ''Bearer '' of
        None \<Rightarrow> (writeError 401 ErrorUnauthorized, m, w)
      | Some token \<Rightarrow>
          if token = [] then (writeError 401 ErrorUnauthorized, m, w)
          else if tokenDigest \<noteq> sha256 token then (writeError 401 ErrorUnauthorized, m, w)
          else next_handler r m w)"

datatype Route = PostProxies | GetProxies | GetPools | GetCells | GetCell | DeleteCell

text \<open>\<^verbatim>\<open>Register\<close>: the handler of a route; \<open>order\<close> is the order in which the map of pools is visited.\<close>

fun route_handler :: "'w ApiEnv \<Rightarrow> string list \<Rightarrow> Route \<Rightarrow> Request \<Rightarrow> 'w handler" where
  "route_handler d order PostProxies = handleProxy d"
| "route_handler d order GetProxies = handleProxies d order"
| "route_handler d order GetPools = handlePools d order"
| "route_handler d order GetCells = handleCells d"
| "route_handler d order GetCell = handleCell d"
| "route_handler d order DeleteCell = handleDeleteCell d order"

definition api_serve :: "'w ApiEnv \<Rightarrow> string \<Rightarrow> string list \<Rightarrow> Route \<Rightarrow> Request \<Rightarrow> 'w handler" where
  "api_serve d tokenDigest order route r m w =
     authenticate (ae_sha256 d) tokenDigest (route_handler d order route) r m w"

section \<open>Pages\<close>

lemma pageItems_eq:
  "0 \<le> offset \<Longrightarrow> 0 \<le> limit \<Longrightarrow>
   pageItems items limit offset =
     (take (nat limit) (drop (nat offset) items), min offset (int (length items)), int (length items))"
  by (auto simp: pageItems_def Let_def min_def nat_diff_distrib nat_add_distrib)

fun all_pages :: "nat \<Rightarrow> nat \<Rightarrow> 'a list \<Rightarrow> 'a list list" where
  "all_pages 0 limit items = []"
| "all_pages (Suc k) limit items = all_pages k limit items @ [fst (pageItems items (int limit) (int (k * limit)))]"

lemma all_pages_concat: "concat (all_pages k limit items) = take (k * limit) items"
proof (induction k)
  case (Suc k)
  have "fst (pageItems items (int limit) (int (k * limit))) = take limit (drop (k * limit) items)"
    by (subst pageItems_eq) (simp_all only: fst_conv nat_int of_nat_0_le_iff)
  moreover have "take (Suc k * limit) items = take (k * limit) items @ take limit (drop (k * limit) items)"
    by (simp add: take_add [symmetric] add.commute)
  ultimately show ?case using Suc by (simp del: mult_Suc)
qed simp

text \<open>C18: paging is bounded and complete. A page that was accepted has at most the accepted limit, which
  is between one and the maximum, and starts at an offset within the collection; the total is the
  length of the collection; and the pages at the multiples of the limit, put together, are the
  collection.\<close>

theorem pages_complete:
  assumes "collectionPage r = Inr (limit, offset)" "pageItems items limit offset = (page, start, size_all)"
  shows "1 \<le> limit \<and> limit \<le> maxProxyLimit \<and> int (length page) \<le> limit
     \<and> 0 \<le> start \<and> start \<le> size_all \<and> size_all = int (length items)
     \<and> (\<forall>i < length page. page ! i = items ! (nat start + i))
     \<and> (length items \<le> k * nat limit \<longrightarrow> concat (all_pages k (nat limit) items) = items)"
proof -
  have l: "1 \<le> limit" "limit \<le> maxProxyLimit" and off: "0 \<le> offset"
    using assms(1)
    by (auto simp: collectionPage_def boundedQueryInt_def defaultProxyLimit_def maxProxyLimit_def Let_def
        split: option.splits if_splits)
  have p: "page = take (nat limit) (drop (nat offset) items)" "start = min offset (int (length items))"
    "size_all = int (length items)"
    using assms(2) l(1) off by (auto simp: pageItems_eq)
  have "page ! i = items ! (nat start + i)" if "i < length page" for i
  proof -
    have i: "i < nat limit" "i < length items - nat offset" using that by (simp_all add: p)
    then have "offset \<le> int (length items)" using off by linarith
    then have "nat start = nat offset" by (simp add: p)
    then show ?thesis using i by (simp add: p)
  qed
  moreover have "concat (all_pages k (nat limit) items) = items" if "length items \<le> k * nat limit"
    using that by (simp add: all_pages_concat)
  ultimately show ?thesis
    using l off by (simp add: p)
qed

definition demo_request :: Request where
  "demo_request =
     \<lparr> rq_Authorization = ''Bearer t'', rq_ContentType = ''application/json'', rq_Body = ''eu'',
       rq_Query = (\<lambda>name. if name = ''limit'' then ''2'' else if name = ''offset'' then ''1'' else []),
       rq_PathValue = ''c1'' \<rparr>"

theorem pages_complete_witness:
  "collectionPage demo_request = Inr (2, 1)
   \<and> pageItems ''abcde'' 2 1 = (''bc'', 1, 5)
   \<and> concat (all_pages 3 2 ''abcde'') = ''abcde''"
proof -
  have c: "collectionPage demo_request = Inr (2, 1)" by code_simp
  have p: "pageItems ''abcde'' 2 1 = (''bc'', 1, 5)" by (simp add: pageItems_eq)
  show ?thesis using pages_complete [OF c p, of 3] c p by simp
qed

section \<open>Authentication\<close>

text \<open>C17: no route runs without the token. Every request on every route is answered with 401 and
  changes nothing, unless its header is the bearer scheme followed by a non-empty token whose
  digest is the one of the configured token; with it, the handler of the route runs.\<close>

theorem api_authenticated:
  "api_serve d tokenDigest order route r m w =
     (if \<exists>token. rq_Authorization r = ''Bearer '' @ token \<and> token \<noteq> [] \<and> ae_sha256 d token = tokenDigest
      then route_handler d order route r m w
      else (writeError 401 ErrorUnauthorized, m, w))"
proof (cases "cut_prefix (rq_Authorization r) ''Bearer ''")
  case None
  then have "\<not> (\<exists>token. rq_Authorization r = ''Bearer '' @ token)"
    by (metis cut_prefix_Some option.distinct(1))
  then show ?thesis using None by (auto simp: api_serve_def authenticate_def)
next
  case (Some token)
  have "rq_Authorization r = ''Bearer '' @ token" using Some by (simp only: cut_prefix_Some)
  then have "(\<exists>tk. rq_Authorization r = ''Bearer '' @ tk \<and> tk \<noteq> [] \<and> ae_sha256 d tk = tokenDigest)
      \<longleftrightarrow> token \<noteq> [] \<and> ae_sha256 d token = tokenDigest"
    by (metis same_append_eq)
  then show ?thesis
    using Some by (simp add: api_serve_def authenticate_def)
qed

section \<open>Allocations\<close>

lemma count_acquire_simps [simp]:
  "m_pools (count_acquire pool m) = m_pools m" "m_leases (count_acquire pool m) = m_leases m"
  "slots (count_acquire pool m) = slots m"
  by (simp_all add: count_acquire_def slots_def fun_eq_iff)

lemma Resolve_error: "Resolve ul router country = Inl e \<Longrightarrow> e = ErrInvalidCountry"
  by (auto simp: Resolve_def Let_def split: option.splits if_splits)

text \<open>
  The pool an allocation asks for: the explicit one, or the one the country is routed to.
\<close>

definition requested_pool :: "'w ApiEnv \<Rightarrow> ProxyRequest \<Rightarrow> Manager \<Rightarrow> error + string" where
  "requested_pool d q m =
     (if pq_Pool q \<noteq> [] then Inr (pq_Pool q) else Resolve (ae_lower d) (m_router m) (pq_Country q))"

lemma api_acquire_cases:
  assumes "mgr_wf m" "api_acquire d (pq_Country q) (pq_Pool q) ex fb m w = (res, m', w')"
  obtains
    (refused) e where "res = Inl e" "slots m' = slots m"
      "e \<in> {ErrInvalidCountry, ErrUnknownPool, ErrPoolExhausted, ErrPoolUnavailable}"
  | (served) pool p target tp t where "requested_pool d q m = Inr pool" "m_pools m pool = Some p"
      "target = pool \<or> fb \<and> target = spec_FallbackPool (ps_Spec p)" "m_pools m target = Some tp"
      "res = Inr \<lparr> acq_Tunnel = Some t, acq_Pool = target \<rparr>" "granted (ae_sp d) (m_cfg m) ex tp t"
      "slots m' = (slots m)(target := Some (Some t))"
proof (cases "requested_pool d q m")
  case (Inl e)
  then have "pq_Pool q = []" "Resolve (ae_lower d) (m_router m) (pq_Country q) = Inl e"
    by (auto simp: requested_pool_def split: if_splits)
  then have "res = Inl e" "m' = m" "e = ErrInvalidCountry"
    using assms(2) Resolve_error by (auto simp: api_acquire_def AcquireForCountry_def)
  then show thesis by (intro refused) auto
next
  case (Inr pool)
  have a: "acquireFromPool (ae_env d) (ae_sp d) pool ex fb m w = (res, m', w')"
    using Inr assms(2)
    by (auto simp: requested_pool_def api_acquire_def AcquireForCountry_def AcquireForPool_def
        split: if_splits)
  show thesis
  proof (cases "m_pools m pool")
    case None
    then have "res = Inl ErrUnknownPool" "m' = m" using a by (auto simp: acquireFromPool_def)
    then show thesis by (intro refused) auto
  next
    case (Some p)
    show thesis
      using assms(1) Some a
    proof (cases rule: acquireFromPool_known)
      case (own t)
      show thesis by (rule served [OF Inr Some _ Some own(1,2,3)]) simp
    next
      case (other t fp q)
      show thesis by (rule served [OF Inr Some _ other(4,5,6,7)]) (use other in simp)
    next
      case (none e)
      show thesis by (rule refused [OF none(1,3)]) (use none(2) in auto)
    qed
  qed
qed

lemma api_acquire_wf:
  assumes "mgr_wf m" "api_acquire d country pool ex fb m w = (res, m', w')"
  shows "mgr_wf m'"
  using assms acquireFromPool_wf
  by (auto simp: api_acquire_def AcquireForCountry_def AcquireForPool_def split: if_splits sum.splits)

lemma Lookup_addr:
  "Lookup sha256 env u pw reg w = (x, reg', w') \<Longrightarrow> reg_socksPublicAddr reg' = reg_socksPublicAddr reg"
  using Lookup_state [of sha256 env u pw reg w] by (simp add: pruneExpiredLocked_def)

lemma api_acquire_leases:
  assumes "api_acquire d country pool ex fb m w = (res, m', w')"
  shows "m_leases m' = m_leases m"
  using assms
  by (auto simp: api_acquire_def AcquireForCountry_def AcquireForPool_def acquireFromPool_def acquire_in_def
      Let_def split: if_splits sum.splits option.splits prod.splits)

lemma parseExcludedProxy_keeps:
  assumes "mgr_wf m" "parseExcludedProxy d raw m w = (res, m', w')"
  shows "mgr_wf m' \<and> m_pools m' = m_pools m \<and> m_router m' = m_router m \<and> m_cfg m' = m_cfg m
     \<and> reg_socksPublicAddr (m_leases m') = reg_socksPublicAddr (m_leases m)"
proof -
  obtain r m1 w1 where r: "ResolveExcludedProxy (ae_lit d) (ae_sha256 d) (ae_env d) raw m w = (r, m1, w1)"
    by (metis surj_pair)
  have "m_pools m1 = m_pools m \<and> m_router m1 = m_router m \<and> m_cfg m1 = m_cfg m
      \<and> reg_socksPublicAddr (m_leases m1) = reg_socksPublicAddr (m_leases m)"
    using r by (auto simp: ResolveExcludedProxy_def dest: Lookup_addr split: option.splits if_splits prod.splits)
  moreover have "m' = m \<or> m' = m1"
    using assms(2) r by (auto simp: parseExcludedProxy_def split: if_splits sum.splits)
  ultimately show ?thesis using ResolveExcludedProxy_wf [OF assms(1) r] assms(1) by auto
qed

text \<open>The slot of a pool after the release of a reservation, and after a lease was issued.\<close>

definition released :: "Tunnel \<Rightarrow> Tunnel" where
  "released t = (if tun_InFlight t \<le> 0 then t else t\<lparr> tun_InFlight := tun_InFlight t - 1 \<rparr>)"

lemma released_simps [simp]:
  "tun_ContainerID (released t) = tun_ContainerID t" "tun_LastURL (released t) = tun_LastURL t"
  "0 < tun_InFlight t \<Longrightarrow> tun_InFlight (released t) = tun_InFlight t - 1"
  by (simp_all add: released_def)

lemma release_slots:
  assumes "slots m pool = Some (Some t)" "acq_Pool acq = pool"
  shows "slots (manager_Release acq m) = (slots m)(pool := Some (Some (released t)))"
  using assms
  by (auto simp: manager_Release_def slots_def release_def released_def fun_eq_iff split: option.splits)

lemma release_leases [simp]: "m_leases (manager_Release acq m) = m_leases m"
  by (simp add: manager_Release_def split: option.splits)

lemma IssueLease_fails:
  assumes "IssueLease sha256 env acq m w = (Inl e, m', w')" "acq_Pool acq \<in> dom (m_pools m)"
  shows "slots m' = slots m"
  using assms
  by (auto simp: IssueLease_def Let_def slots_def fun_eq_iff split: prod.splits sum.splits option.splits)

lemma IssueLease_done:
  assumes i: "IssueLease sha256 env acq m w = (Inr lease, m', w')"
    and t: "acq = \<lparr> acq_Tunnel = Some t, acq_Pool = pool \<rparr>" "slots m pool = Some (Some t)"
  obtains leaseID secret where
    "reg_leases (m_leases m') leaseID = Some (lease_record sha256 acq t secret (pl_ExpiresAt lease))"
    "px_SOCKS5 (pl_Proxies lease) =
       url_String (lease_url proxySchemeSOCKS5 (reg_socksPublicAddr (m_leases m)) leaseID secret)"
    "slots m' = (slots m)(pool := Some (Some (t\<lparr> tun_LastURL := px_SOCKS5 (pl_Proxies lease),
       tun_LastURLExpiresAt := pl_ExpiresAt lease \<rparr>)))"
proof -
  obtain res r w1 where s: "Issue sha256 env acq (m_leases m) w = (res, r, w1)" by (metis surj_pair)
  obtain p where p: "m_pools m pool = Some p" "ps_tunnel p = Some t"
    using t(2) by (auto simp: slots_def)
  have res: "res = Inr lease"
    and m': "m' = put_pool pool (setLastURL (tun_ContainerID t) (px_SOCKS5 (pl_Proxies lease))
       (pl_ExpiresAt lease) p) (m\<lparr> m_leases := r \<rparr>)"
    using i s p t(1) by (cases res; auto simp: IssueLease_def Let_def)+
  obtain leaseID secret where l: "px_SOCKS5 (pl_Proxies lease) =
       url_String (lease_url proxySchemeSOCKS5 (reg_socksPublicAddr (m_leases m)) leaseID secret)"
    "reg_leases r leaseID = Some (lease_record sha256 acq t secret (pl_ExpiresAt lease))"
    using s [unfolded res] by (rule Issue_ok) (use t(1) that in auto)
  have "slots m' = (slots m)(pool := Some (Some (t\<lparr> tun_LastURL := px_SOCKS5 (pl_Proxies lease),
       tun_LastURLExpiresAt := pl_ExpiresAt lease \<rparr>)))"
    using p by (auto simp: m' slots_def setLastURL_def fun_eq_iff)
  then show thesis using l by (intro that [of leaseID secret]) (simp_all add: m')
qed

text \<open>The ways an allocation ends, with the state of the slots in each.\<close>

lemma handleProxy_cases:
  assumes wf: "mgr_wf m" and h: "handleProxy d r m w = (resp, m', w')"
  obtains
    (invalid) "resp \<in> {writeError 400 ErrorValidationFailed, writeError 415 ErrorUnsupportedContentType}"
      "slots m' = slots m"
  | (refused) e where "e \<in> {ErrInvalidCountry, ErrUnknownPool, ErrPoolExhausted, ErrPoolUnavailable}"
      "resp = writeAcquireError e" "slots m' = slots m"
  | (unissued) target tp ex t where "m_pools m target = Some tp"
      "granted (ae_sp d) (m_cfg m) ex tp t" "resp = writeError 500 ErrorInternalServerError"
      "slots m' = (slots m)(target := Some (Some (released t)))"
  | (assigned) q pool p target tp ex t and lease :: ProxyLease and leaseID secret
    where "decodeProxyRequest d r = Inr q"
      "requested_pool d q m = Inr pool" "m_pools m pool = Some p"
      "target = pool \<or> pq_FallbackOK q \<and> target = spec_FallbackPool (ps_Spec p)"
      "m_pools m target = Some tp" "granted (ae_sp d) (m_cfg m) ex tp t"
      "resp = \<lparr> rs_Status = 200, rs_Body = BodyProxy \<lparr> pr_Proxies = pl_Proxies lease, pr_Pool = target,
         pr_ExitCountry = tun_ExitCountry t, pr_ExitIP = tun_ExitIP t, pr_ExpiresAt = pl_ExpiresAt lease \<rparr> \<rparr>"
      "slots m' = (slots m)(target := Some (Some (released (t\<lparr> tun_LastURL := px_SOCKS5 (pl_Proxies lease),
         tun_LastURLExpiresAt := pl_ExpiresAt lease \<rparr>))))"
      "reg_leases (m_leases m') leaseID = Some (lease_record (ae_sha256 d)
         \<lparr> acq_Tunnel = Some t, acq_Pool = target \<rparr> t secret (pl_ExpiresAt lease))"
      "px_SOCKS5 (pl_Proxies lease) = url_String (lease_url proxySchemeSOCKS5
         (reg_socksPublicAddr (m_leases m)) leaseID secret)"
      "fst (parseExcludedProxy d (pq_ExcludeProxy q) m w) = Inr ex"
proof (cases "decodeProxyRequest d r")
  case (Inl resp1)
  then have "resp1 \<in> {writeError 400 ErrorValidationFailed, writeError 415 ErrorUnsupportedContentType}"
    by (auto simp: decodeProxyRequest_def Let_def split: if_splits option.splits)
  then show thesis using h Inl by (intro invalid) (auto simp: handleProxy_def)
next
  case (Inr q)
  obtain ex m1 w1 where ex: "parseExcludedProxy d (pq_ExcludeProxy q) m w = (ex, m1, w1)" by (metis surj_pair)
  note k = parseExcludedProxy_keeps [OF wf ex]
  have sl: "slots m1 = slots m" using k by (simp add: slots_def fun_eq_iff)
  show thesis
  proof (cases ex)
    case (Inl resp1)
    then have "resp1 = writeError 400 ErrorValidationFailed"
      using ex by (auto simp: parseExcludedProxy_def split: if_splits prod.splits sum.splits)
    then show thesis using h Inr Inl ex sl by (intro invalid) (auto simp: handleProxy_def)
  next
    case ex': (Inr x)
    obtain a m2 w2 where a: "api_acquire d (pq_Country q) (pq_Pool q) x (pq_FallbackOK q) m1 w1 = (a, m2, w2)"
      by (metis surj_pair)
    have wf1: "mgr_wf m1" using k by simp
    show thesis
      using wf1 a
    proof (cases rule: api_acquire_cases)
      case (refused e)
      then show thesis
        using h Inr ex ex' a sl by (intro that(2) [of e]) (auto simp: handleProxy_def)
    next
      case (served pool p target tp t)
      obtain l m3 w3 where i: "IssueLease (ae_sha256 d) (ae_env d) \<lparr> acq_Tunnel = Some t, acq_Pool = target \<rparr>
          m2 w2 = (l, m3, w3)" by (metis surj_pair)
      have s2: "slots m2 target = Some (Some t)" using served(7) by simp
      have tp: "m_pools m target = Some tp" "granted (ae_sp d) (m_cfg m) x tp t"
        using served(4,6) k by simp_all
      show thesis
      proof (cases l)
        case (Inl e)
        have "target \<in> dom (m_pools m2)" using s2 by (auto simp: slots_def)
        then have s3: "slots m3 = slots m2"
          using IssueLease_fails i Inl by fastforce
        have m': "m' = manager_Release \<lparr> acq_Tunnel = Some t, acq_Pool = target \<rparr> m3"
          and resp: "resp = writeError 500 ErrorInternalServerError"
          using h Inr ex ex' a served(5) i Inl by (simp_all add: handleProxy_def)
        have "slots m' = (slots m)(target := Some (Some (released t)))"
          unfolding m' using s2 s3 served(7) sl by (subst release_slots [of m3 target t]) simp_all
        then show thesis using tp resp by (intro unissued)
      next
        case l: (Inr lease)
        obtain leaseID secret where il:
          "reg_leases (m_leases m3) leaseID = Some (lease_record (ae_sha256 d)
             \<lparr> acq_Tunnel = Some t, acq_Pool = target \<rparr> t secret (pl_ExpiresAt lease))"
          "px_SOCKS5 (pl_Proxies lease) = url_String (lease_url proxySchemeSOCKS5
             (reg_socksPublicAddr (m_leases m2)) leaseID secret)"
          "slots m3 = (slots m2)(target := Some (Some (t\<lparr> tun_LastURL := px_SOCKS5 (pl_Proxies lease),
             tun_LastURLExpiresAt := pl_ExpiresAt lease \<rparr>)))"
          using IssueLease_done [OF i [unfolded l] refl s2] by blast
        have m': "m' = manager_Release \<lparr> acq_Tunnel = Some t, acq_Pool = target \<rparr> (count_acquire target m3)"
          and resp: "resp = \<lparr> rs_Status = 200, rs_Body = BodyProxy \<lparr> pr_Proxies = pl_Proxies lease,
            pr_Pool = target, pr_ExitCountry = tun_ExitCountry t, pr_ExitIP = tun_ExitIP t,
            pr_ExpiresAt = pl_ExpiresAt lease \<rparr> \<rparr>"
          using h Inr ex ex' a served(5) i l by (simp_all add: handleProxy_def Let_def)
        have sl': "slots m' = (slots m)(target := Some (Some (released (t\<lparr> tun_LastURL :=
            px_SOCKS5 (pl_Proxies lease), tun_LastURLExpiresAt := pl_ExpiresAt lease \<rparr>))))"
          unfolding m' using il(3) served(7) sl
          by (subst release_slots [of "count_acquire target m3" target
                "t\<lparr> tun_LastURL := px_SOCKS5 (pl_Proxies lease), tun_LastURLExpiresAt := pl_ExpiresAt lease \<rparr>"])
            simp_all
        have rq: "requested_pool d q m = Inr pool" "m_pools m pool = Some p"
          using served(1,2) k by (simp_all add: requested_pool_def split: if_splits)
        have reg: "reg_leases (m_leases m') leaseID = Some (lease_record (ae_sha256 d)
             \<lparr> acq_Tunnel = Some t, acq_Pool = target \<rparr> t secret (pl_ExpiresAt lease))"
          using il(1) by (simp add: m')
        have url: "px_SOCKS5 (pl_Proxies lease) = url_String (lease_url proxySchemeSOCKS5
             (reg_socksPublicAddr (m_leases m)) leaseID secret)"
          using il(2) api_acquire_leases [OF a] k by simp
        show thesis
          by (rule assigned [of q pool p target tp x t lease leaseID secret])
            (fact Inr rq served(3) tp resp sl' reg url | simp add: ex ex')+
      qed
    qed
  qed
qed

text \<open>C15: an allocation that succeeds assigns a cell of the requested pool, given by name or by the
  routed country, or of its fallback pool if the request allows it, other than the proxy the request excludes.
  The response names the pool
  and the exit country of the cell, the slot of the pool holds the cell, the reservation that
  selected it is given back, the credentials in the SOCKS5 URL are those of a lease in the
  registry for exactly this cell and pool until the time in the response, and no other slot has
  changed.\<close>

theorem proxy_assigned:
  assumes "mgr_wf m"
    and "handleProxy d r m w = (\<lparr> rs_Status = 200, rs_Body = BodyProxy resp \<rparr>, m', w')"
  shows "\<exists>q pool p target tp ex t t' leaseID secret rec.
     decodeProxyRequest d r = Inr q \<and> requested_pool d q m = Inr pool \<and> m_pools m pool = Some p
     \<and> (target = pool \<or> pq_FallbackOK q \<and> target = spec_FallbackPool (ps_Spec p))
     \<and> fst (parseExcludedProxy d (pq_ExcludeProxy q) m w) = Inr ex
     \<and> m_pools m target = Some tp \<and> granted (ae_sp d) (m_cfg m) ex tp t
     \<and> pr_Pool resp = target \<and> pr_ExitCountry resp = tun_ExitCountry t
     \<and> slots m' = (slots m)(target := Some (Some t')) \<and> tun_ContainerID t' = tun_ContainerID t
     \<and> tun_InFlight t' = tun_InFlight t - 1 \<and> tun_LastURL t' = px_SOCKS5 (pr_Proxies resp)
     \<and> px_SOCKS5 (pr_Proxies resp) =
          url_String (lease_url proxySchemeSOCKS5 (reg_socksPublicAddr (m_leases m)) leaseID secret)
     \<and> reg_leases (m_leases m') leaseID = Some rec \<and> lease_SecretDigest rec = ae_sha256 d secret
     \<and> lease_Pool rec = target \<and> lease_ContainerID rec = tun_ContainerID t
     \<and> lease_ExpiresAt rec = pr_ExpiresAt resp"
  using assms
proof (cases rule: handleProxy_cases)
  case (assigned q pool p target tp ex t lease leaseID secret)
  have hot: "0 < tun_InFlight t"
    using granted_hot [OF assigned(6) mgr_wf_slot [OF assms(1) assigned(5)]] by simp
  let ?t' = "released (t\<lparr> tun_LastURL := px_SOCKS5 (pl_Proxies lease),
    tun_LastURLExpiresAt := pl_ExpiresAt lease \<rparr>)"
  have resp: "resp = \<lparr> pr_Proxies = pl_Proxies lease, pr_Pool = target,
    pr_ExitCountry = tun_ExitCountry t, pr_ExitIP = tun_ExitIP t, pr_ExpiresAt = pl_ExpiresAt lease \<rparr>"
    using assigned(7) by simp
  show ?thesis
    by (rule exI [of _ q], rule exI [of _ pool], rule exI [of _ p], rule exI [of _ target],
        rule exI [of _ tp], rule exI [of _ ex], rule exI [of _ t], rule exI [of _ ?t'],
        rule exI [of _ leaseID], rule exI [of _ secret],
        rule exI [of _ "lease_record (ae_sha256 d) \<lparr> acq_Tunnel = Some t, acq_Pool = target \<rparr> t secret
          (pl_ExpiresAt lease)"], intro conjI, fact assigned(1),
        fact assigned(2), fact assigned(3), fact assigned(4), fact assigned(11), fact assigned(5), fact assigned(6))
      (use assigned(8-10) hot in \<open>simp_all add: resp lease_record_def del: fun_upd_apply\<close>)
qed (auto simp: writeError_def writeAcquireError_def)

text \<open>C16: an allocation that fails does so with 400 or 415 for a bad request, an unroutable country or
  an unknown pool, with 503 when no pool can serve it, or with 500 when the lease could not be
  issued, and never with another status. It leaves no reservation behind: every tunnel in a slot
  was there before with the same number of requests in flight, or it is fresh and has none.\<close>

theorem proxy_refused:
  assumes "mgr_wf m" "handleProxy d r m w = (resp, m', w')" "rs_Status resp \<noteq> 200"
  shows "rs_Status resp \<in> {400, 415, 500, 503}
     \<and> (rs_Status resp \<noteq> 500 \<longrightarrow> slots m' = slots m)
     \<and> (\<forall>name t'. slots m' name = Some (Some t') \<longrightarrow>
          tun_InFlight t' = 0 \<or> (\<exists>t0. slots m name = Some (Some t0) \<and> tun_InFlight t0 = tun_InFlight t'))"
  using assms(1,2)
proof (cases rule: handleProxy_cases)
  case invalid
  then show ?thesis by (auto simp: writeError_def)
next
  case (refused e)
  then show ?thesis by (auto simp: writeError_def writeAcquireError_def)
next
  case (unissued target tp ex t)
  have t: "0 < tun_InFlight t"
    using granted_hot [OF unissued(2) mgr_wf_slot [OF assms(1) unissued(1)]] by simp
  have "tun_InFlight t = 1 \<or> (\<exists>t0. ps_tunnel tp = Some t0 \<and> tun_InFlight t = tun_InFlight t0 + 1)"
    using unissued(2) by (auto simp: granted_def)
  then have "tun_InFlight (released t) = 0
      \<or> (\<exists>t0. slots m target = Some (Some t0) \<and> tun_InFlight t0 = tun_InFlight (released t))"
    using t unissued(1) by (auto simp: slots_def)
  then show ?thesis
    using unissued(3,4) by (auto simp: writeError_def)
next
  case (assigned q pool p target tp ex t lease leaseID secret)
  then show ?thesis using assms(3) by simp
qed

definition demo_api :: "bool \<Rightarrow> nat ApiEnv" where
  "demo_api ok =
     \<lparr> ae_env = demo_env, ae_sp = demo_spawner (if ok then {} else {''de-x'', ''fr-y''}),
       ae_doer = (\<lambda>_ _ w. (Inl ErrFetchFailed, w)), ae_status = (\<lambda>_. Inl ErrFetchFailed),
       ae_sha256 = rev, ae_lit = (\<lambda>_. None), ae_lower = id, ae_upper = id, ae_media = Some,
       ae_json = (\<lambda>b. Some (\<lparr> pq_Country = [], pq_Pool = b, pq_ExcludeProxy = [], pq_FallbackOK = False \<rparr>, True)) \<rparr>"

lemma demo_decode:
  "decodeProxyRequest (demo_api ok) demo_request =
     Inr \<lparr> pq_Country = [], pq_Pool = ''eu'', pq_ExcludeProxy = [], pq_FallbackOK = False \<rparr>"
proof -
  have "trim_space ''eu'' = ''eu''" "trim_space [] = []" by code_simp+
  then show ?thesis
    by (simp add: decodeProxyRequest_def hasJSONContentType_def demo_api_def demo_request_def maxRequestBody_def)
qed

lemma demo_api_simps [simp]:
  "ae_env (demo_api ok) = demo_env"
  "ae_sp (demo_api ok) = demo_spawner (if ok then {} else {''de-x'', ''fr-y''})"
  "ae_sha256 (demo_api ok) = rev"
  by (simp_all add: demo_api_def)

lemma demo_proxy_assigned:
  "\<exists>resp m' w'. handleProxy (demo_api True) demo_request demo_mgr 0 =
     (\<lparr> rs_Status = 200, rs_Body = BodyProxy resp \<rparr>, m', w') \<and> pr_Pool resp = ''eu''"
  by (simp add: handleProxy_def demo_decode parseExcludedProxy_def api_acquire_def AcquireForPool_def
      demo_defs acquire_defs IssueLease_def Issue_def leasable_def newLeasePart_def Let_def numeral_2_eq_2)

theorem proxy_assigned_witness:
  "\<exists>resp m' w' t' leaseID rec. handleProxy (demo_api True) demo_request demo_mgr 0 =
       (\<lparr> rs_Status = 200, rs_Body = BodyProxy resp \<rparr>, m', w')
     \<and> slots m' ''eu'' = Some (Some t') \<and> reg_leases (m_leases m') leaseID = Some rec
     \<and> lease_Pool rec = ''eu'' \<and> lease_ContainerID rec = tun_ContainerID t'"
proof -
  obtain resp m' w' where a: "handleProxy (demo_api True) demo_request demo_mgr 0 =
      (\<lparr> rs_Status = 200, rs_Body = BodyProxy resp \<rparr>, m', w')" "pr_Pool resp = ''eu''"
    using demo_proxy_assigned by blast
  obtain target leaseID rec and t :: Tunnel and t' :: Tunnel where f: "pr_Pool resp = target"
    "slots m' = (slots demo_mgr)(target := Some (Some t'))" "tun_ContainerID t' = tun_ContainerID t"
    "reg_leases (m_leases m') leaseID = Some rec" "lease_Pool rec = target"
    "lease_ContainerID rec = tun_ContainerID t"
    using proxy_assigned [OF demo_mgr_wf a(1)] by (elim exE conjE) (rule that, assumption+)
  show ?thesis
    by (rule exI [of _ resp], rule exI [of _ m'], rule exI [of _ w'], rule exI [of _ t'],
        rule exI [of _ leaseID], rule exI [of _ rec]) (use a f in simp)
qed

lemma demo_proxy_refused:
  "\<exists>m' w'. handleProxy (demo_api False) demo_request demo_mgr 0 =
     (writeError 503 ErrorServiceUnavailable, m', w')"
  by (simp add: handleProxy_def demo_decode parseExcludedProxy_def api_acquire_def AcquireForPool_def
      demo_defs acquire_defs Let_def numeral_2_eq_2 writeAcquireError_def)

theorem proxy_refused_witness:
  "\<exists>m' w'. handleProxy (demo_api False) demo_request demo_mgr 0 =
       (writeError 503 ErrorServiceUnavailable, m', w') \<and> slots m' = slots demo_mgr"
proof -
  obtain m' w' where a: "handleProxy (demo_api False) demo_request demo_mgr 0 =
      (writeError 503 ErrorServiceUnavailable, m', w')" using demo_proxy_refused by blast
  have "rs_Status (writeError 503 ErrorServiceUnavailable) = 503" by (simp add: writeError_def)
  with proxy_refused [OF demo_mgr_wf a] a show ?thesis by auto
qed

end
