(* ===== verification/Service_Order.thy ===== *)
theory Service_Order
  imports Go_Prelude
begin

text \<open>
  The start order of the services of a process (\<^verbatim>\<open>service_manager.go\<close>, \<^verbatim>\<open>buildDepGraphContext\<close>,
  \<^verbatim>\<open>topoSort\<close> and \<^verbatim>\<open>resolveOrderContext\<close>): the graph of the dependencies between the registered
  services, and the groups of services that start together, by a topological sort.

  The optional interfaces of a service are fields with an option. Every loop over a map takes the
  order in which it visits the keys. The map of in-degrees is the association list of its entries,
  with the zero value for a missing key.
\<close>

section \<open>Services\<close>

datatype sm_error =
    ErrServiceNotFound
  | ErrNoEnabledServices
  | ErrCyclicDependency
  | ErrDependencyNotFound
  | ErrMaxRetriesReached
  | ErrStopTimeout
  | ErrServicePanic string
  | ErrNoCommands
  | ErrService string

record Service =
  svc_Name :: string
  svc_Retryable :: "(int \<times> duration) option"
  svc_AllowedFailure :: "bool option"
  svc_Dependent :: "string list option"
  svc_ReadyNotifier :: bool
  svc_Commander :: bool

type_synonym services = "string \<rightharpoonup> Service"
type_synonym serviceGroup = "Service list"
type_synonym degrees = "(string \<times> int) list"

section \<open>The dependency graph\<close>

definition degree :: "degrees \<Rightarrow> string \<Rightarrow> int" where
  "degree inDegree name = (case map_of inDegree name of None \<Rightarrow> 0 | Some d \<Rightarrow> d)"

fun add_edges ::
  "services \<Rightarrow> string \<Rightarrow> string list \<Rightarrow> degrees \<Rightarrow> (string \<Rightarrow> string list) \<Rightarrow> degrees \<times> (string \<Rightarrow> string list)"
where
  "add_edges services name [] inDegree dependents = (inDegree, dependents)"
| "add_edges services name (depName # deps) inDegree dependents =
     (if services depName = None then add_edges services name deps inDegree dependents
      else add_edges services name deps (AList.update name (degree inDegree name + 1) inDegree)
             (dependents(depName := dependents depName @ [name])))"

fun graph_loop ::
  "services \<Rightarrow> string list \<Rightarrow> degrees \<Rightarrow> (string \<Rightarrow> string list) \<Rightarrow> degrees \<times> (string \<Rightarrow> string list)"
where
  "graph_loop services [] inDegree dependents = (inDegree, dependents)"
| "graph_loop services (name # names) inDegree dependents =
     (case Option.bind (services name) svc_Dependent of
        None \<Rightarrow> graph_loop services names inDegree dependents
      | Some deps \<Rightarrow>
          (case add_edges services name deps inDegree dependents of
             (inDegree, dependents) \<Rightarrow> graph_loop services names inDegree dependents))"

definition buildDepGraph ::
  "string list \<Rightarrow> string list \<Rightarrow> services \<Rightarrow> degrees \<times> (string \<Rightarrow> string list)" where
  "buildDepGraph order1 order2 services =
     graph_loop services order2 (map (\<lambda>name. (name, 0)) order1) (\<lambda>_. [])"

section \<open>The topological sort\<close>

fun relax :: "string list \<Rightarrow> degrees \<Rightarrow> string list \<Rightarrow> degrees \<times> string list" where
  "relax [] inDegree nextQueue = (inDegree, nextQueue)"
| "relax (dep # deps) inDegree nextQueue =
     (let inDegree = AList.update dep (degree inDegree dep - 1) inDegree
      in if degree inDegree dep \<noteq> 0 then relax deps inDegree nextQueue
         else relax deps inDegree (nextQueue @ [dep]))"

fun next_queue ::
  "(string \<Rightarrow> string list) \<Rightarrow> string list \<Rightarrow> degrees \<Rightarrow> string list \<Rightarrow> degrees \<times> string list" where
  "next_queue dependents [] inDegree nextQueue = (inDegree, nextQueue)"
| "next_queue dependents (name # names) inDegree nextQueue =
     (case relax (dependents name) inDegree nextQueue of
        (inDegree, nextQueue) \<Rightarrow> next_queue dependents names inDegree nextQueue)"

lemma degree_update [simp]:
  "degree (AList.update k v d) n = (if n = k then v else degree d n)"
  by (simp add: degree_def update_conv')

lemma degree_zeros [simp]: "degree (map (\<lambda>name. (name, 0)) names) n = 0"
  by (induction names) (auto simp: degree_def)

text \<open>The services that wait for a dependency; a round that queues a service leaves fewer of them.\<close>

definition waiting :: "degrees \<Rightarrow> string set" where
  "waiting d = {n. 0 < degree d n}"

lemma finite_waiting [simp]: "finite (waiting d)"
proof (rule finite_subset)
  show "waiting d \<subseteq> fst ` set d"
  proof
    fix n assume "n \<in> waiting d"
    then have "map_of d n \<noteq> None" by (auto simp: waiting_def degree_def split: option.splits)
    then show "n \<in> fst ` set d" by (simp add: map_of_eq_None_iff)
  qed
qed simp

lemma relax_waiting:
  "relax deps d q = (d', q') \<Longrightarrow>
   waiting d' \<subseteq> waiting d \<and> (\<exists>r. q' = q @ r \<and> set r \<subseteq> waiting d - waiting d')"
proof (induction deps d q rule: relax.induct)
  case (2 dep deps d q)
  let ?d = "AList.update dep (degree d dep - 1) d"
  have w: "waiting ?d \<subseteq> waiting d" by (auto simp: waiting_def)
  show ?case
  proof (cases "degree ?d dep = 0")
    case True
    then have dep: "dep \<in> waiting d" "dep \<notin> waiting ?d" by (auto simp: waiting_def)
    obtain r where r: "waiting d' \<subseteq> waiting ?d" "q' = (q @ [dep]) @ r" "set r \<subseteq> waiting ?d - waiting d'"
      using "2.IH"(2) [OF refl] "2.prems" True by (auto simp: Let_def)
    show ?thesis
      by (rule conjI, use r w in blast, rule exI [of _ "dep # r"]) (use r w dep in auto)
  next
    case False
    then show ?thesis using "2.IH"(1) [OF refl] "2.prems" w by (fastforce simp: Let_def)
  qed
qed simp

lemma next_queue_waiting:
  "next_queue dependents names d q = (d', q') \<Longrightarrow>
   waiting d' \<subseteq> waiting d \<and> (\<exists>r. q' = q @ r \<and> set r \<subseteq> waiting d - waiting d')"
proof (induction dependents names d q rule: next_queue.induct)
  case (2 dependents name names d q)
  obtain d1 q1 where r: "relax (dependents name) d q = (d1, q1)" by fastforce
  with "2.prems" have n: "next_queue dependents names d1 q1 = (d', q')" by simp
  from relax_waiting [OF r] "2.IH" [OF r [symmetric] n] show ?case by fastforce
qed simp

text \<open>\<open>number\<close> is the number of entries of the map of services.\<close>

function topo_loop ::
  "services \<Rightarrow> (string \<Rightarrow> string list) \<Rightarrow> string list \<Rightarrow> degrees \<Rightarrow> serviceGroup list \<Rightarrow> nat
     \<Rightarrow> serviceGroup list \<times> nat" where
  "topo_loop services dependents queue inDegree groups processed =
     (if queue = [] then (groups, processed)
      else let group = map (\<lambda>name. the (services name)) queue;
               (inDegree, nextQueue) = next_queue dependents queue inDegree []
           in topo_loop services dependents nextQueue inDegree (groups @ [group])
                (processed + length queue))"
  by pat_completeness auto
termination
proof (relation "measure (\<lambda>(_, _, queue, d, _). card (waiting d) + (if queue = [] then 0 else 1))",
    goal_cases)
  case (2 services dependents queue d groups processed group x d' q')
  have w: "waiting d' \<subseteq> waiting d" "set q' \<subseteq> waiting d - waiting d'"
    using next_queue_waiting [of dependents queue d "[]" d' q'] 2 by auto
  show ?case
  proof (cases q')
    case Nil
    then show ?thesis using card_mono [OF finite_waiting w(1)] 2(1) by simp
  next
    case (Cons n ns)
    then have "waiting d' \<subset> waiting d" using w by auto
    then show ?thesis using psubset_card_mono [OF finite_waiting, of "waiting d'" d] 2(1) by simp
  qed
qed simp

declare topo_loop.simps [simp del]

definition topoSort ::
  "string list \<Rightarrow> services \<Rightarrow> nat \<Rightarrow> degrees \<Rightarrow> (string \<Rightarrow> string list) \<Rightarrow> sm_error + serviceGroup list" where
  "topoSort order services number inDegree dependents =
     (let queue = filter (\<lambda>name. degree inDegree name = 0) order;
          (groups, processed) = topo_loop services dependents queue inDegree [] 0
      in if processed \<noteq> number then Inl ErrCyclicDependency else Inr groups)"

definition resolveOrder ::
  "string list \<Rightarrow> string list \<Rightarrow> string list \<Rightarrow> services \<Rightarrow> sm_error + serviceGroup list" where
  "resolveOrder order1 order2 order3 services =
     (let (inDegree, dependents) = buildDepGraph order1 order2 services
      in topoSort order3 services (length order1) inDegree dependents)"

section \<open>Layers\<close>

text \<open>
  The reference: with the dependencies \<open>D\<close> between the names in \<open>N\<close>, the next layer after the
  names in \<open>P\<close> is everything that depends only on \<open>P\<close>. Nothing is left to place when this is
  empty.
\<close>

fun layered :: "string set \<Rightarrow> (string \<Rightarrow> string set) \<Rightarrow> string set \<Rightarrow> string list list \<Rightarrow> bool" where
  "layered N D P [] \<longleftrightarrow> {n \<in> N - P. D n \<subseteq> P} = {}"
| "layered N D P (g # gs) \<longleftrightarrow>
     g \<noteq> [] \<and> distinct g \<and> set g = {n \<in> N - P. D n \<subseteq> P} \<and> layered N D (P \<union> set g) gs"

lemma layered_ConsD:
  assumes "layered N D P (g # gs)"
  shows "g \<noteq> []" "distinct g" "set g = {n \<in> N - P. D n \<subseteq> P}" "layered N D (P \<union> set g) gs"
  using assms [unfolded layered.simps] by blast+

declare layered.simps(2) [simp del]

lemma layered_range:
  "layered N D P gs \<Longrightarrow> distinct (concat gs) \<and> set (concat gs) \<subseteq> N - P"
proof (induction gs arbitrary: P)
  case (Cons g gs)
  from Cons.IH [OF layered_ConsD(4) [OF Cons.prems]] layered_ConsD(2,3) [OF Cons.prems]
  show ?case by auto
qed simp

lemma layered_nth:
  "\<lbrakk> layered N D P gs; k < length gs \<rbrakk> \<Longrightarrow>
   gs ! k \<noteq> [] \<and> set (gs ! k) = {n \<in> N - (P \<union> set (concat (take k gs))).
                                  D n \<subseteq> P \<union> set (concat (take k gs))}"
proof (induction gs arbitrary: P k)
  case (Cons g gs)
  show ?case
  proof (cases k)
    case 0
    then show ?thesis using layered_ConsD(1,3) [OF Cons.prems(1)] by simp
  next
    case (Suc j)
    from Cons.IH [OF layered_ConsD(4) [OF Cons.prems(1)], of j] Cons.prems(2) Suc show ?thesis
      by (simp add: Un_assoc)
  qed
qed simp

lemma layered_unique:
  "\<lbrakk> layered N D P gs; layered N D P hs \<rbrakk> \<Longrightarrow> map set gs = map set hs"
proof (induction gs arbitrary: P hs)
  case Nil
  show ?case
  proof (cases hs)
    case (Cons h hs')
    with Nil.prems have "set h = {}" "h \<noteq> []" using layered_ConsD(1,3) [of N D P h hs'] by simp_all
    then show ?thesis by simp
  qed simp
next
  case (Cons g gs)
  note g = layered_ConsD [OF Cons.prems(1)]
  from g(1) have "set g \<noteq> {}" by simp
  with g(3) Cons.prems(2) obtain h hs' where hs: "hs = h # hs'" by (cases hs) simp_all
  note h = layered_ConsD [OF Cons.prems(2) [unfolded hs]]
  have s: "set h = set g" using g(3) h(3) by simp
  show ?case using Cons.IH [OF g(4), of hs'] h(4) by (simp add: hs s)
qed

text \<open>The layers cover all names exactly if the dependencies among them have no cycle.\<close>



lemma layered_acyclic:
  assumes "layered N D P gs" "\<forall>n \<in> N. D n \<subseteq> N" "P \<subseteq> N"
  shows "wf {(d, n). n \<in> N \<and> d \<in> D n \<and> n \<notin> P} \<Longrightarrow> P \<union> set (concat gs) = N"
  using assms
proof (induction gs arbitrary: P)
  case Nil
  let ?r = "{(d, n). n \<in> N \<and> d \<in> D n \<and> n \<notin> P}"
  show ?case
  proof (rule ccontr)
    assume "P \<union> set (concat []) \<noteq> N"
    then obtain n where "n \<in> N - P" using Nil.prems by auto
    then obtain z where z: "z \<in> N - P" "\<And>y. (y, z) \<in> ?r \<Longrightarrow> y \<notin> N - P"
      using Nil.prems(1) by (metis (no_types, lifting) wfE_min)
    have "D z \<subseteq> P" using z Nil.prems(3) by auto
    with z(1) Nil.prems(2) show False by auto
  qed
next
  case (Cons g gs)
  have "wf {(d, n). n \<in> N \<and> d \<in> D n \<and> n \<notin> P \<union> set g}"
    by (rule wf_subset [OF Cons.prems(1)]) auto
  moreover have "layered N D (P \<union> set g) gs" "P \<union> set g \<subseteq> N"
    using layered_ConsD(3,4) [OF Cons.prems(2)] Cons.prems(4) by auto
  ultimately have "(P \<union> set g) \<union> set (concat gs) = N" using Cons.IH Cons.prems(3) by blast
  then show ?case by (simp only: concat.simps set_append Un_assoc)
qed

lemma layered_wf:
  assumes "layered N D P gs" "\<forall>n \<in> P. D n \<subseteq> P" "P \<union> set (concat gs) = N"
  shows "wf {(d, n). n \<in> N \<and> d \<in> D n \<and> n \<notin> P}"
  using assms
proof (induction gs arbitrary: P)
  case (Cons g gs)
  let ?r = "\<lambda>P. {(d, n). n \<in> N \<and> d \<in> D n \<and> n \<notin> P}"
  let ?P = "P \<union> set g"
  have g: "set g = {n \<in> N - P. D n \<subseteq> P}" and l: "layered N D ?P gs"
    using layered_ConsD(3,4) [OF Cons.prems(1)] by simp_all
  have wf: "wf (?r ?P)" by (rule Cons.IH [OF l]) (use Cons.prems g in auto)
  show ?case
  proof (rule wfI_min)
    fix x Q assume x: "x \<in> (Q :: string set)"
    show "\<exists>z \<in> Q. \<forall>y. (y, z) \<in> ?r P \<longrightarrow> y \<notin> Q"
    proof (cases "Q \<inter> P = {}")
      case False
      then show ?thesis by auto
    next
      case noP: True
      show ?thesis
      proof (cases "Q \<inter> set g = {}")
        case False
        then obtain z where z: "z \<in> Q" "z \<in> set g" by blast
        then have "D z \<subseteq> P" using g by auto
        with z(1) noP show ?thesis by (intro bexI [of _ z]) auto
      next
        case True
        from wf x obtain z where "z \<in> Q" "\<And>y. (y, z) \<in> ?r ?P \<Longrightarrow> y \<notin> Q" by (rule wfE_min) blast
        then show ?thesis using noP True by auto
      qed
    qed
  qed
next
  case Nil
  then have "{(d, n). n \<in> N \<and> d \<in> D n \<and> n \<notin> P} = {}" by auto
  then show ?case by (simp only: wf_on_bot)
qed

section \<open>The sort computes the layers\<close>

text \<open>The dependencies of a service that are services of the process, in order and with repetition.\<close>

definition deps_in :: "services \<Rightarrow> string \<Rightarrow> string list" where
  "deps_in services name =
     (case Option.bind (services name) svc_Dependent of
        None \<Rightarrow> [] | Some deps \<Rightarrow> filter (\<lambda>d. services d \<noteq> None) deps)"

lemma add_edges_spec:
  "add_edges services name deps d dependents = (d', dependents') \<Longrightarrow>
   degree d' n = degree d n + (if n = name then int (length (filter (\<lambda>x. services x \<noteq> None) deps)) else 0)
   \<and> count_list (dependents' x) n = count_list (dependents x) n
       + (if n = name then count_list (filter (\<lambda>x. services x \<noteq> None) deps) x else 0)"
  by (induction services name deps d dependents rule: add_edges.induct) (auto split: if_splits)

lemma graph_loop_spec:
  "\<lbrakk> graph_loop services names d dependents = (d', dependents'); distinct names \<rbrakk> \<Longrightarrow>
   degree d' n = degree d n + (if n \<in> set names then int (length (deps_in services n)) else 0)
   \<and> count_list (dependents' x) n = count_list (dependents x) n
       + (if n \<in> set names then count_list (deps_in services n) x else 0)"
proof (induction services names d dependents rule: graph_loop.induct)
  case (2 services name names d dependents)
  show ?case
  proof (cases "Option.bind (services name) svc_Dependent")
    case None
    then show ?thesis using "2.IH"(1) "2.prems" by (auto simp: deps_in_def)
  next
    case (Some deps)
    obtain d1 dependents1 where e: "add_edges services name deps d dependents = (d1, dependents1)"
      by fastforce
    then show ?thesis
      using "2.IH"(2) [OF Some e [symmetric]] "2.prems" Some add_edges_spec [OF e, of n x]
      by (auto simp: deps_in_def)
  qed
qed simp

lemma buildDepGraph_spec:
  assumes "buildDepGraph order1 order2 services = (d, dependents)" "range_order order2 services"
  shows "degree d n = int (length (deps_in services n))"
    and "count_list (dependents x) n = count_list (deps_in services n) x"
proof -
  have n: "n \<notin> set order2 \<Longrightarrow> deps_in services n = []"
    using assms(2) by (auto simp: range_order_def deps_in_def)
  show "degree d n = int (length (deps_in services n))"
    "count_list (dependents x) n = count_list (deps_in services n) x"
    using graph_loop_spec [OF assms(1) [unfolded buildDepGraph_def], of n x] assms(2) n
    by (auto simp: range_order_def)
qed

lemma relax_spec:
  "\<lbrakk> relax deps d q = (d', q'); \<And>n. int (count_list deps n) \<le> degree d n \<rbrakk> \<Longrightarrow>
   (\<forall>n. degree d' n = degree d n - int (count_list deps n))
   \<and> (\<exists>r. q' = q @ r \<and> distinct r \<and> set r = {n \<in> set deps. degree d n = int (count_list deps n)})"
proof (induction deps d q rule: relax.induct)
  case (2 dep deps d q)
  let ?d = "AList.update dep (degree d dep - 1) d"
  have le: "int (count_list deps n) \<le> degree ?d n" for n using "2.prems"(2) [of n] by auto
  show ?case
  proof (cases "degree ?d dep = 0")
    case True
    have no: "dep \<notin> set deps" using le [of dep] True by (auto simp: count_list_0_iff)
    have "relax deps ?d (q @ [dep]) = (d', q')" using "2.prems"(1) True by (simp add: Let_def)
    from "2.IH"(2) [OF refl _ this le] True obtain r where r:
      "\<And>n. degree d' n = degree ?d n - int (count_list deps n)" "q' = (q @ [dep]) @ r" "distinct r"
      "set r = {n \<in> set deps. degree ?d n = int (count_list deps n)}" by blast
    show ?thesis
      by (intro conjI exI [of _ "dep # r"]) (use r no True in \<open>auto simp: count_list_0_iff\<close>)
  next
    case False
    then have "relax deps ?d q = (d', q')" using "2.prems"(1) by (simp add: Let_def)
    from "2.IH"(1) [OF refl _ this le] False obtain r where r:
      "\<And>n. degree d' n = degree ?d n - int (count_list deps n)" "q' = q @ r" "distinct r"
      "set r = {n \<in> set deps. degree ?d n = int (count_list deps n)}" by blast
    have "dep \<in> set deps" if "degree d dep = int (count_list (dep # deps) dep)"
      using that False count_list_0_iff [of deps dep] by auto
    then show ?thesis
      by (intro conjI exI [of _ r]) (use r in auto)
  qed
qed simp

lemma relax_append:
  "relax (xs @ ys) d q = (case relax xs d q of (d, q) \<Rightarrow> relax ys d q)"
  by (induction xs d q rule: relax.induct) (auto simp: Let_def)

lemma next_queue_concat:
  "next_queue dependents names d q = relax (concat (map dependents names)) d q"
  by (induction dependents names d q rule: next_queue.induct) (auto simp: relax_append split: prod.splits)

lemma count_dependents:
  assumes "\<And>x. count_list (dependents x) n = count_list ys x" "distinct xs"
  shows "count_list (concat (map dependents xs)) n = length (filter (\<lambda>y. y \<in> set xs) ys)"
  using assms(2)
proof (induction xs)
  case (Cons x xs)
  have "length (filter (\<lambda>y. y \<in> set (x # xs)) ys) = count_list ys x + length (filter (\<lambda>y. y \<in> set xs) ys)"
    using Cons.prems by (induction ys) auto
  then show ?case using Cons assms(1) by simp
qed simp

text \<open>What the loop keeps, after the names in \<open>P\<close> were placed: the degrees count the dependencies
  outside \<open>P\<close>, and the queue is the next layer.\<close>

definition topo_inv ::
  "string set \<Rightarrow> (string \<Rightarrow> string list) \<Rightarrow> string set \<Rightarrow> string list \<Rightarrow> degrees \<Rightarrow> bool" where
  "topo_inv N dl P queue d \<longleftrightarrow>
     (\<forall>n. degree d n = int (length (filter (\<lambda>x. x \<notin> P) (dl n))))
     \<and> distinct queue \<and> set queue = {n \<in> N - P. set (dl n) \<subseteq> P} \<and> (\<forall>n \<in> P. set (dl n) \<subseteq> P)"

lemma topo_inv_step:
  assumes inv: "topo_inv N dl P queue d"
    and cnt: "\<And>x n. count_list (dependents x) n = count_list (dl n) x"
    and dl: "\<And>n. dl n \<noteq> [] \<Longrightarrow> n \<in> N"
    and nq: "next_queue dependents queue d [] = (d', queue')"
  shows "topo_inv N dl (P \<union> set queue) queue' d'"
proof -
  have Q: "distinct queue" "set queue = {n \<in> N - P. set (dl n) \<subseteq> P}" "\<And>n. n \<in> P \<Longrightarrow> set (dl n) \<subseteq> P"
    and deg: "\<And>n. degree d n = int (length (filter (\<lambda>x. x \<notin> P) (dl n)))"
    using inv unfolding topo_inv_def by blast+
  let ?all = "concat (map dependents queue)"
  have c: "count_list ?all n = length (filter (\<lambda>y. y \<in> set queue) (dl n))" for n
    by (rule count_dependents [OF cnt Q(1)])
  have split: "length (filter (\<lambda>x. x \<notin> P) ys) =
      length (filter (\<lambda>y. y \<in> set queue) ys) + length (filter (\<lambda>x. x \<notin> P \<union> set queue) ys)" for ys
    by (induction ys) (use Q(2) in auto)
  have le: "int (count_list ?all n) \<le> degree d n" for n
    unfolding c deg split [of "dl n"] by simp
  obtain r where d': "\<And>n. degree d' n = degree d n - int (count_list ?all n)"
    and r: "queue' = r" "distinct r" "set r = {n \<in> set ?all. degree d n = int (count_list ?all n)}"
    using relax_spec [OF nq [unfolded next_queue_concat] le] by auto
  have d'': "degree d' n = int (length (filter (\<lambda>x. x \<notin> P \<union> set queue) (dl n)))" for n
    unfolding d' c deg split [of "dl n"] by simp
  have all: "n \<in> set ?all \<longleftrightarrow> (\<exists>x \<in> set queue. x \<in> set (dl n))" for n
    using c [of n] count_list_0_iff [of ?all n] by (auto simp: filter_empty_conv)
  have zero: "degree d n = int (count_list ?all n) \<longleftrightarrow> set (dl n) \<subseteq> P \<union> set queue" for n
  proof -
    have "filter (\<lambda>x. x \<notin> P \<union> set queue) (dl n) = [] \<longleftrightarrow> set (dl n) \<subseteq> P \<union> set queue"
      by (auto simp: filter_empty_conv)
    moreover have "degree d n = int (count_list ?all n) \<longleftrightarrow> filter (\<lambda>x. x \<notin> P \<union> set queue) (dl n) = []"
      using d' [of n] unfolding d'' [of n] length_0_conv [symmetric] by linarith
    ultimately show ?thesis by simp
  qed
  have "set queue' = {n \<in> N - (P \<union> set queue). set (dl n) \<subseteq> P \<union> set queue}"
  proof (rule set_eqI)
    fix n
    have "n \<in> set queue' \<longleftrightarrow> (\<exists>x \<in> set queue. x \<in> set (dl n)) \<and> set (dl n) \<subseteq> P \<union> set queue"
      unfolding r(1,3) by (simp only: mem_Collect_eq all zero)
    also have "\<dots> \<longleftrightarrow> n \<in> N - (P \<union> set queue) \<and> set (dl n) \<subseteq> P \<union> set queue"
    proof (cases "set (dl n) \<subseteq> P")
      case True
      then have "\<not> (\<exists>x \<in> set queue. x \<in> set (dl n))" "n \<in> N \<Longrightarrow> n \<in> P \<union> set queue" using Q(2) by auto
      then show ?thesis by blast
    next
      case False
      then have "n \<notin> P \<union> set queue" "dl n \<noteq> []" using Q(2,3) by auto
      with False dl show ?thesis by blast
    qed
    finally show "n \<in> set queue' \<longleftrightarrow> n \<in> {n \<in> N - (P \<union> set queue). set (dl n) \<subseteq> P \<union> set queue}"
      by simp
  qed
  moreover have "set (dl n) \<subseteq> P \<union> set queue" if "n \<in> P \<union> set queue" for n
    using that Q(2,3) by (cases "n \<in> P") auto
  ultimately show ?thesis
    using d'' r(1,2) unfolding topo_inv_def by blast
qed

lemma topo_loop_layers:
  "\<lbrakk> topo_inv N dl P queue d; \<And>x n. count_list (dependents x) n = count_list (dl n) x;
     \<And>n. dl n \<noteq> [] \<Longrightarrow> n \<in> N \<rbrakk> \<Longrightarrow>
   \<exists>gs. layered N (\<lambda>n. set (dl n)) P gs
     \<and> topo_loop services dependents queue d groups processed =
         (groups @ map (map (\<lambda>name. the (services name))) gs, processed + length (concat gs))"
proof (induction services dependents queue d groups processed arbitrary: P rule: topo_loop.induct)
  case (1 services dependents queue d groups processed)
  have q: "distinct queue" "set queue = {n \<in> N - P. set (dl n) \<subseteq> P}"
    using "1.prems"(1) unfolding topo_inv_def by blast+
  show ?case
  proof (cases "queue = []")
    case True
    then show ?thesis using q by (intro exI [of _ "[]"]) (simp add: topo_loop.simps)
  next
    case False
    obtain d' queue' where nq: "next_queue dependents queue d [] = (d', queue')" by fastforce
    let ?group = "map (\<lambda>name. the (services name)) queue"
    obtain gs where gs: "layered N (\<lambda>n. set (dl n)) (P \<union> set queue) gs"
      "topo_loop services dependents queue' d' (groups @ [?group]) (processed + length queue) =
         ((groups @ [?group]) @ map (map (\<lambda>name. the (services name))) gs,
          processed + length queue + length (concat gs))"
      using "1.IH" [OF False refl nq [symmetric] refl topo_inv_step [OF "1.prems" nq] "1.prems"(2,3)]
      by blast
    have "layered N (\<lambda>n. set (dl n)) P (queue # gs)"
      using gs(1) q False by (simp only: layered.simps) simp
    with gs(2) False nq show ?thesis
      by (intro exI [of _ "queue # gs"]) (simp add: topo_loop.simps [of services dependents queue])
  qed
qed

definition dep_rel :: "services \<Rightarrow> (string \<times> string) set" where
  "dep_rel services = {(d, n). d \<in> set (deps_in services n)}"

lemma deps_in_dom: "d \<in> set (deps_in services n) \<Longrightarrow> d \<in> dom services \<and> n \<in> dom services"
  by (auto simp: deps_in_def split: option.splits bind_splits)

text \<open>The groups as lists of names, from the sort to the reference.\<close>

lemma resolveOrder_layers:
  assumes "range_order order1 services" "range_order order2 services" "range_order order3 services"
  obtains gs where "layered (dom services) (\<lambda>n. set (deps_in services n)) {} gs"
    "resolveOrder order1 order2 order3 services =
       (if set (concat gs) = dom services then Inr (map (map (\<lambda>name. the (services name))) gs)
        else Inl ErrCyclicDependency)"
proof -
  obtain d dependents where b: "buildDepGraph order1 order2 services = (d, dependents)" by fastforce
  note spec = buildDepGraph_spec [OF b assms(2)]
  let ?queue = "filter (\<lambda>name. degree d name = 0) order3"
  have inv: "topo_inv (dom services) (deps_in services) {} ?queue d"
    using assms(3) by (auto simp: topo_inv_def spec(1) range_order_def)
  obtain gs where gs: "layered (dom services) (\<lambda>n. set (deps_in services n)) {} gs"
    "topo_loop services dependents ?queue d [] 0 =
       (map (map (\<lambda>name. the (services name))) gs, length (concat gs))"
    using topo_loop_layers [OF inv spec(2), of services "[]" 0] deps_in_dom
    by (metis append_Nil add_0 list.set_sel(1))
  have dist: "distinct (concat gs)" "set (concat gs) \<subseteq> dom services"
    using layered_range [OF gs(1)] by simp_all
  have "length order1 = card (dom services)" "finite (dom services)"
    using assms(1) distinct_card [of order1] finite_set [of order1] by (simp_all add: range_order_def)
  then have "length (concat gs) = length order1 \<longleftrightarrow> set (concat gs) = dom services"
    using dist by (metis card_subset_eq distinct_card)
  with that [OF gs(1)] show thesis
    by (simp add: resolveOrder_def b topoSort_def gs(2) eq_commute [of "length order1"])
qed

definition keyed :: "services \<Rightarrow> bool" where
  "keyed services \<longleftrightarrow> (\<forall>name svc. services name = Some svc \<longrightarrow> svc_Name svc = name)"

lemma names_of_group:
  assumes "keyed services" "set g \<subseteq> dom services"
  shows "map svc_Name (map (\<lambda>name. the (services name)) g) = g"
    and "set (map (\<lambda>name. the (services name)) g) = {svc. \<exists>n \<in> set g. services n = Some svc}"
  using assms by (force simp: keyed_def map_idI subset_iff dom_def)+

lemma acyclic_iff_wf_deps:
  assumes "finite (dom services)"
  shows "acyclic (dep_rel services) \<longleftrightarrow>
    wf {(d, n). n \<in> dom services \<and> d \<in> set (deps_in services n) \<and> n \<notin> {}}"
proof -
  have "dep_rel services = {(d, n). n \<in> dom services \<and> d \<in> set (deps_in services n) \<and> n \<notin> {}}"
    using deps_in_dom by (fastforce simp: dep_rel_def)
  moreover have "finite (dep_rel services)"
    by (rule finite_subset [of _ "dom services \<times> dom services"])
      (use assms deps_in_dom in \<open>auto simp: dep_rel_def\<close>)
  ultimately show ?thesis using wf_iff_acyclic_if_finite by metis
qed

lemma layered_complete_iff:
  assumes "finite (dom services)" "layered (dom services) (\<lambda>n. set (deps_in services n)) {} gs"
  shows "set (concat gs) = dom services \<longleftrightarrow> acyclic (dep_rel services)"
proof
  assume "set (concat gs) = dom services"
  then show "acyclic (dep_rel services)"
    using layered_wf [OF assms(2)] acyclic_iff_wf_deps [OF assms(1)] by simp
next
  assume "acyclic (dep_rel services)"
  then show "set (concat gs) = dom services"
    using layered_acyclic [OF assms(2)] acyclic_iff_wf_deps [OF assms(1)] deps_in_dom by fastforce
qed

text \<open>The layers of names, read as groups of services.\<close>

lemma group_layers:
  assumes "keyed services" "layered (dom services) (\<lambda>n. set (deps_in services n)) {} gs"
    and "set (concat gs) = dom services" "groups = map (map (\<lambda>name. the (services name))) gs"
  shows "distinct (map svc_Name (concat groups))" "set (concat groups) = ran services"
    and "k < length groups \<Longrightarrow> groups ! k \<noteq> []
       \<and> svc_Name ` set (groups ! k) =
           {n \<in> dom services - svc_Name ` set (concat (take k groups)).
              set (deps_in services n) \<subseteq> svc_Name ` set (concat (take k groups))}"
proof -
  note range = layered_range [OF assms(2)] and sub_all = equalityD1 [OF assms(3)]
  have cat: "concat (map (map (\<lambda>name. the (services name))) hs) = map (\<lambda>name. the (services name)) (concat hs)"
    for hs by (simp add: map_concat)
  have img: "svc_Name ` set (map (\<lambda>name. the (services name)) g) = set g" if "set g \<subseteq> dom services" for g
    using names_of_group(1) [OF assms(1) that] by (metis set_map)
  have sub: "set (concat (take k gs)) \<subseteq> dom services" for k
    using range set_take_subset [of k gs] by (auto simp: subset_iff)
  show "distinct (map svc_Name (concat groups))"
    unfolding assms(4) cat names_of_group(1) [OF assms(1) sub_all] using range by blast
  show "set (concat groups) = ran services"
    unfolding assms(4) cat names_of_group(2) [OF assms(1) sub_all] assms(3) by (auto simp: ran_def dom_def)
  assume "k < length groups"
  then have k: "k < length gs" by (simp add: assms(4))
  have "set (gs ! k) \<subseteq> dom services" using layered_nth [OF assms(2) k] by auto
  then show "groups ! k \<noteq> [] \<and> svc_Name ` set (groups ! k) =
      {n \<in> dom services - svc_Name ` set (concat (take k groups)).
         set (deps_in services n) \<subseteq> svc_Name ` set (concat (take k groups))}"
    using layered_nth [OF assms(2) k] k
    by (simp only: assms(4) nth_map length_map take_map cat img sub Un_empty_left) simp
qed

lemma resolve_groups:
  assumes "range_order order1 services" "range_order order2 services" "range_order order3 services"
    and "keyed services" "resolveOrder order1 order2 order3 services = Inr groups"
  shows "distinct (map svc_Name (concat groups))" "set (concat groups) = ran services"
    and "k < length groups \<Longrightarrow> n \<in> svc_Name ` set (groups ! k) \<Longrightarrow>
      set (deps_in services n) \<subseteq> svc_Name ` set (concat (take k groups))"
proof -
  obtain gs where gs: "layered (dom services) (\<lambda>n. set (deps_in services n)) {} gs"
    "set (concat gs) = dom services" "groups = map (map (\<lambda>name. the (services name))) gs"
    using resolveOrder_layers [OF assms(1-3)] assms(5) by (metis Inl_Inr_False Inr_inject)
  note layers = group_layers [OF assms(4) gs]
  show "distinct (map svc_Name (concat groups))" "set (concat groups) = ran services"
    by (rule layers(1), rule layers(2))
  show "set (deps_in services n) \<subseteq> svc_Name ` set (concat (take k groups))"
    if "k < length groups" "n \<in> svc_Name ` set (groups ! k)" using layers(3) [OF that(1)] that(2) by blast
qed

text \<open>C19: the start order is right whatever the order in which the maps are visited. The services are
  ordered exactly if their dependencies within the process have no cycle, and a cycle is the only
  error. The groups then hold every service exactly once, none is empty, and a service is in the
  first group that comes after all its dependencies: group by group, the members are the services
  not placed before whose dependencies were all placed before.\<close>

theorem resolve_layers:
  assumes "range_order order1 services" "range_order order2 services" "range_order order3 services"
    and "keyed services"
  shows "case resolveOrder order1 order2 order3 services of
      Inl e \<Rightarrow> e = ErrCyclicDependency \<and> \<not> acyclic (dep_rel services)
    | Inr groups \<Rightarrow>
        acyclic (dep_rel services)
        \<and> distinct (map svc_Name (concat groups)) \<and> set (concat groups) = ran services
        \<and> (\<forall>k < length groups. groups ! k \<noteq> []
             \<and> svc_Name ` set (groups ! k) =
                 {n \<in> dom services - svc_Name ` set (concat (take k groups)).
                    set (deps_in services n) \<subseteq> svc_Name ` set (concat (take k groups))})"
proof -
  have fin: "finite (dom services)"
    using assms(1) finite_set [of order1] by (simp add: range_order_def)
  obtain gs where gs: "layered (dom services) (\<lambda>n. set (deps_in services n)) {} gs"
    and res: "resolveOrder order1 order2 order3 services =
       (if set (concat gs) = dom services then Inr (map (map (\<lambda>name. the (services name))) gs)
        else Inl ErrCyclicDependency)"
    by (rule resolveOrder_layers [OF assms(1-3)])
  note complete = layered_complete_iff [OF fin gs]
  show ?thesis
  proof (cases "set (concat gs) = dom services")
    case True
    note layers = group_layers [OF assms(4) gs True refl]
    have "resolveOrder order1 order2 order3 services = Inr (map (map (\<lambda>name. the (services name))) gs)"
      using res True by simp
    then show ?thesis unfolding sum.case using complete True layers by simp
  qed (use complete in \<open>simp add: res\<close>)
qed

definition demo_service :: "string \<Rightarrow> string list option \<Rightarrow> Service" where
  "demo_service name deps =
     \<lparr> svc_Name = name, svc_Retryable = None, svc_AllowedFailure = None, svc_Dependent = deps,
       svc_ReadyNotifier = True, svc_Commander = False \<rparr>"

definition demo_services :: services where
  "demo_services =
     [''db'' \<mapsto> demo_service ''db'' None, ''api'' \<mapsto> demo_service ''api'' (Some [''db'', ''gone'']),
      ''web'' \<mapsto> demo_service ''web'' (Some [''api'', ''db''])]"

lemma demo_range: "range_order [''web'', ''api'', ''db''] demo_services"
  by (auto simp: range_order_def demo_services_def)

lemma demo_keyed: "keyed demo_services"
  by (auto simp: keyed_def demo_services_def demo_service_def split: if_splits)

lemma demo_resolve:
  "resolveOrder [''web'', ''api'', ''db''] [''web'', ''api'', ''db''] [''web'', ''api'', ''db''] demo_services =
     Inr [[demo_service ''db'' None], [demo_service ''api'' (Some [''db'', ''gone''])],
          [demo_service ''web'' (Some [''api'', ''db''])]]"
  by (simp add: resolveOrder_def buildDepGraph_def demo_services_def demo_service_def topoSort_def
      topo_loop.simps degree_def)

theorem resolve_layers_witness:
  "\<exists>groups. resolveOrder [''web'', ''api'', ''db''] [''web'', ''api'', ''db''] [''web'', ''api'', ''db'']
       demo_services = Inr groups \<and> length groups = 3 \<and> set (concat groups) = ran demo_services
     \<and> acyclic (dep_rel demo_services)"
proof -
  note f = resolve_layers [OF demo_range demo_range demo_range demo_keyed, unfolded demo_resolve sum.case]
  show ?thesis by (intro exI conjI, rule demo_resolve) (use f in \<open>simp, blast+\<close>)
qed

text \<open>C20: the order in which Go happens to visit its maps does not change the outcome: two runs report
  the same error, or the same groups up to the order within a group.\<close>

theorem resolve_deterministic:
  assumes "range_order a1 services" "range_order a2 services" "range_order a3 services"
    and "range_order b1 services" "range_order b2 services" "range_order b3 services"
  shows "map_sum id (map set) (resolveOrder a1 a2 a3 services) =
         map_sum id (map set) (resolveOrder b1 b2 b3 services)"
proof -
  obtain gs where gs: "layered (dom services) (\<lambda>n. set (deps_in services n)) {} gs"
    "resolveOrder a1 a2 a3 services =
       (if set (concat gs) = dom services then Inr (map (map (\<lambda>name. the (services name))) gs)
        else Inl ErrCyclicDependency)"
    by (rule resolveOrder_layers [OF assms(1-3)])
  obtain hs where hs: "layered (dom services) (\<lambda>n. set (deps_in services n)) {} hs"
    "resolveOrder b1 b2 b3 services =
       (if set (concat hs) = dom services then Inr (map (map (\<lambda>name. the (services name))) hs)
        else Inl ErrCyclicDependency)"
    by (rule resolveOrder_layers [OF assms(4-6)])
  have sets: "map set gs = map set hs" by (rule layered_unique [OF gs(1) hs(1)])
  have "set (concat gs) = set (concat hs)"
    using arg_cong [OF sets, of "\<lambda>xs. \<Union> (set xs)"] by simp
  moreover have "map (set \<circ> map f) gs = map (set \<circ> map f) hs" for f :: "string \<Rightarrow> Service"
    using arg_cong [OF sets, of "map (image f)"] by (simp add: comp_def)
  ultimately show ?thesis using gs(2) hs(2) by simp
qed

theorem resolve_deterministic_witness:
  "map_sum id (map set) (resolveOrder [''web'', ''api'', ''db''] [''web'', ''api'', ''db'']
       [''web'', ''api'', ''db''] demo_services) =
   map_sum id (map set) (resolveOrder [''db'', ''web'', ''api''] [''web'', ''api'', ''db'']
       [''api'', ''db'', ''web''] demo_services)"
proof -
  have "range_order [''db'', ''web'', ''api''] demo_services" "range_order [''api'', ''db'', ''web''] demo_services"
    by (auto simp: range_order_def demo_services_def)
  then show ?thesis by (rule resolve_deterministic [OF demo_range demo_range demo_range _ demo_range])
qed

end
