(* ===== verification/Service_Manager.thy ===== *)
theory Service_Manager
  imports Service_Order "HOL-Library.Multiset"
begin

text \<open>
  The service manager (\<^verbatim>\<open>service_manager.go\<close>): registering and instantiating services, running one
  service with its retries, and the life of \<^verbatim>\<open>Run\<close> and \<^verbatim>\<open>Stop\<close>.

  What a service does is a parameter: the result of one call of its \<^verbatim>\<open>Run\<close>, the state of the
  context, and whether a retry delay ran to its end. The concurrent part is a step relation. Its
  steps are the ones that other goroutines can observe: taking and giving back the mutex of the
  start groups, launching one service, one turn of the wait for readiness, a service that becomes
  ready, reports its failure, triggers the failure signal or exits, cancelling the context,
  stopping one group, and the steps of \<^verbatim>\<open>Run\<close> itself.
\<close>

section \<open>Registration and instantiation\<close>

type_synonym 'w factory = "'w \<Rightarrow> (sm_error + Service) \<times> 'w"

record 'w ServiceManager =
  sm_factories :: "string \<rightharpoonup> 'w factory"
  sm_services :: services

definition newServiceManager :: "'w ServiceManager" where
  "newServiceManager = \<lparr> sm_factories = Map.empty, sm_services = Map.empty \<rparr>"

definition Register :: "string \<Rightarrow> 'w factory \<Rightarrow> 'w ServiceManager \<Rightarrow> 'w ServiceManager" where
  "Register name factory s = s\<lparr> sm_factories := (sm_factories s)(name \<mapsto> factory) \<rparr>"

definition Instantiate :: "string \<Rightarrow> 'w ServiceManager \<Rightarrow> 'w factory" where
  "Instantiate name s w =
     (case sm_factories s name of
        None \<Rightarrow> (Inl ErrServiceNotFound, w)
      | Some factory \<Rightarrow> factory w)"

definition ClearServices :: "'w ServiceManager \<Rightarrow> 'w ServiceManager" where
  "ClearServices s = s\<lparr> sm_services := Map.empty \<rparr>"

definition AddService :: "Service list \<Rightarrow> 'w ServiceManager \<Rightarrow> 'w ServiceManager" where
  "AddService services s =
     s\<lparr> sm_services := foldl (\<lambda>m service. m(svc_Name service \<mapsto> service)) (sm_services s) services \<rparr>"

text \<open>\<open>parsed\<close> is the decoded value of \<^verbatim>\<open>SERVICES_ENABLED\<close>, or the error of the decoder.\<close>

definition parseEnabledServices :: "(sm_error + string list) \<Rightarrow> sm_error + string list \<times> bool" where
  "parseEnabledServices parsed =
     (case parsed of
        Inl e \<Rightarrow> Inl e
      | Inr enabled \<Rightarrow> if enabled = [] then Inr ([], True) else Inr (enabled, False))"

fun instantiate_loop ::
  "string list \<Rightarrow> bool \<Rightarrow> string list \<Rightarrow> 'w ServiceManager \<Rightarrow> 'w \<Rightarrow> sm_error option \<times> 'w ServiceManager \<times> 'w"
where
  "instantiate_loop enabled allEnabled [] s w = (None, s, w)"
| "instantiate_loop enabled allEnabled (name # names) s w =
     (if \<not> allEnabled \<and> name \<notin> set enabled then instantiate_loop enabled allEnabled names s w
      else case sm_factories s name of
        None \<Rightarrow> instantiate_loop enabled allEnabled names s w
      | Some factory \<Rightarrow>
          (case factory w of
             (Inl e, w) \<Rightarrow> (Some e, s, w)
           | (Inr svc, w) \<Rightarrow> instantiate_loop enabled allEnabled names (AddService [svc] s) w))"

definition instantiateAll ::
  "(sm_error + string list) \<Rightarrow> string list \<Rightarrow> 'w ServiceManager \<Rightarrow> 'w \<Rightarrow> sm_error option \<times> 'w ServiceManager \<times> 'w"
where
  "instantiateAll parsed order s w =
     (case parseEnabledServices parsed of
        Inl e \<Rightarrow> (Some e, s, w)
      | Inr (enabled, allEnabled) \<Rightarrow> instantiate_loop enabled allEnabled order s w)"

text \<open>The body of the command of a service; \<open>execute\<close> runs the commands it contributes.\<close>

definition serviceCommand ::
  "(Service \<Rightarrow> 'w \<Rightarrow> sm_error option \<times> 'w) \<Rightarrow> string \<Rightarrow> 'w ServiceManager \<Rightarrow> 'w \<Rightarrow> sm_error option \<times> 'w" where
  "serviceCommand execute name s w =
     (case Instantiate name s w of
        (Inl e, w) \<Rightarrow> (Some e, w)
      | (Inr svc, w) \<Rightarrow> if \<not> svc_Commander svc then (Some ErrNoCommands, w) else execute svc w)"

text \<open>\<^verbatim>\<open>Run\<close> up to the start of the first group.\<close>

definition Run_plan ::
  "(sm_error + string list) \<Rightarrow> string list \<Rightarrow> (services \<Rightarrow> string list \<times> string list \<times> string list)
     \<Rightarrow> 'w ServiceManager \<Rightarrow> 'w \<Rightarrow> (sm_error + serviceGroup list) \<times> 'w ServiceManager \<times> 'w" where
  "Run_plan parsed order visit s w =
     (case instantiateAll parsed order s w of
        (Some e, s, w) \<Rightarrow> (Inl e, s, w)
      | (None, s, w) \<Rightarrow>
          let (order1, order2, order3) = visit (sm_services s)
          in if length order1 = 0 then (Inl ErrNoEnabledServices, s, w)
             else (resolveOrder order1 order2 order3 (sm_services s), s, w))"

section \<open>Running one service\<close>

datatype run_result = Returned "sm_error option" | Panicked string

record 'w Runtime =
  rt_Run :: "Service \<Rightarrow> 'w \<Rightarrow> run_result \<times> 'w"
  rt_Cancelled :: "'w \<Rightarrow> bool"
  rt_Sleep :: "duration \<Rightarrow> 'w \<Rightarrow> bool \<times> 'w"

definition safeRun :: "'w Runtime \<Rightarrow> Service \<Rightarrow> 'w \<Rightarrow> sm_error option \<times> 'w" where
  "safeRun rt service w =
     (case rt_Run rt service w of
        (Returned e, w) \<Rightarrow> (e, w)
      | (Panicked r, w) \<Rightarrow> (Some (ErrServicePanic r), w))"

definition waitRetryDelay :: "'w Runtime \<Rightarrow> duration \<Rightarrow> 'w \<Rightarrow> bool \<times> 'w" where
  "waitRetryDelay rt delay w = (if delay \<le> 0 then (True, w) else rt_Sleep rt delay w)"

datatype service_exit = ExitClean | ExitCancelled | ExitFailed "sm_error option"

fun run_attempts ::
  "'w Runtime \<Rightarrow> Service \<Rightarrow> int \<Rightarrow> duration \<Rightarrow> nat list \<Rightarrow> sm_error option \<Rightarrow> 'w \<Rightarrow> service_exit \<times> 'w" where
  "run_attempts rt service maxRetries delay [] lastErr w = (ExitFailed lastErr, w)"
| "run_attempts rt service maxRetries delay (attempt # attempts) lastErr w =
     (case safeRun rt service w of
        (None, w) \<Rightarrow> (ExitClean, w)
      | (Some e, w) \<Rightarrow>
          if rt_Cancelled rt w then (ExitCancelled, w)
          else if int attempt \<ge> maxRetries then (ExitFailed (Some e), w)
          else case waitRetryDelay rt delay w of
                 (False, w) \<Rightarrow> (ExitCancelled, w)
               | (True, w) \<Rightarrow> run_attempts rt service maxRetries delay attempts (Some e) w)"

definition runService :: "'w Runtime \<Rightarrow> Service \<Rightarrow> 'w \<Rightarrow> service_exit \<times> 'w" where
  "runService rt service w =
     (let (maxRetries, delay) = (case svc_Retryable service of None \<Rightarrow> (0, 0) | Some r \<Rightarrow> r)
      in run_attempts rt service maxRetries delay [0..<nat (maxRetries + 1)] None w)"

text \<open>The error channel has room for one error; a second one is dropped.\<close>

definition isAllowedFailure :: "Service \<Rightarrow> bool" where
  "isAllowedFailure service = (svc_AllowedFailure service = Some True)"

definition sendError :: "sm_error option \<Rightarrow> sm_error option option \<Rightarrow> sm_error option option" where
  "sendError err errCh = (case errCh of None \<Rightarrow> Some err | Some e \<Rightarrow> Some e)"

section \<open>Run and Stop\<close>

text \<open>
  \<open>Created\<close>: \<^verbatim>\<open>Run\<close> has not yet stored its cancel function. \<open>Ready_to_lock\<close>: it has not yet taken the
  mutex of the start groups. \<open>Checking k\<close>, \<open>Launching k j\<close> and \<open>Waiting k i\<close>: the loop of
  \<^verbatim>\<open>runServiceGroups\<close> at group \<open>k\<close>, before the test of the failure signal, before the launch of
  service \<open>j\<close>, and in the wait for service \<open>i\<close>; the mutex is held. \<open>Selecting\<close>: in the final
  \<^verbatim>\<open>select\<close>. \<open>Stopping\<close>: in the deferred \<^verbatim>\<open>Stop\<close>. \<open>Draining\<close>: in the deferred \<^verbatim>\<open>wg.Wait\<close>.
\<close>

datatype run_phase =
    Created
  | Ready_to_lock
  | Checking nat
  | Launching nat nat
  | Waiting nat nat
  | Selecting
  | Stopping
  | Draining
  | Finished

datatype run_return = ReturnContextDone | ReturnServiceFailed "sm_error option"

datatype stop_phase = StopIdle | StopLoop nat | StopDone

datatype service_status = NotStarted | Running | Reporting | Exited

text \<open>
  The names launched so far and the groups stopped so far are kept in order, as are the failures
  reported by services that must not fail, to state what the code guarantees about them.
\<close>

record run_state =
  rn_phase :: run_phase
  rn_status :: "string \<Rightarrow> service_status"
  rn_ready :: "string set"
  rn_errCh :: "sm_error option option"
  rn_failure :: bool
  rn_cancelled :: bool
  rn_startGroups :: "serviceGroup list"
  rn_stopRequested :: bool
  rn_stop :: stop_phase
  rn_result :: "run_return option"
  rn_launched :: "string list"
  rn_stopped :: "serviceGroup list"
  rn_failures :: "(string \<times> sm_error option) list"

definition run_init :: run_state where
  "run_init =
     \<lparr> rn_phase = Created, rn_status = (\<lambda>_. NotStarted), rn_ready = {}, rn_errCh = None,
       rn_failure = False, rn_cancelled = False, rn_startGroups = [], rn_stopRequested = False,
       rn_stop = StopIdle, rn_result = None, rn_launched = [], rn_stopped = [], rn_failures = [] \<rparr>"

fun holds_lock :: "run_phase \<Rightarrow> bool" where
  "holds_lock (Checking k) = True"
| "holds_lock (Launching k j) = True"
| "holds_lock (Waiting k i) = True"
| "holds_lock _ = False"

definition done_waiting :: "run_state \<Rightarrow> Service \<Rightarrow> bool" where
  "done_waiting s svc \<longleftrightarrow>
     \<not> svc_ReadyNotifier svc \<or> svc_Name svc \<in> rn_ready s \<or> rn_status s (svc_Name svc) = Exited"

text \<open>The steps of the goroutine of \<^verbatim>\<open>Run\<close>.\<close>

inductive main_step :: "serviceGroup list \<Rightarrow> run_state \<Rightarrow> run_state \<Rightarrow> bool" for groups where
  store_cancel: "rn_phase s = Created \<Longrightarrow> main_step groups s (s\<lparr> rn_phase := Ready_to_lock \<rparr>)"
| lock: "\<lbrakk> rn_phase s = Ready_to_lock; \<forall>i. rn_stop s \<noteq> StopLoop i \<rbrakk> \<Longrightarrow>
    main_step groups s (s\<lparr> rn_phase := Checking 0 \<rparr>)"
| group_begins: "\<lbrakk> rn_phase s = Checking k; k < length groups; \<not> rn_failure s \<rbrakk> \<Longrightarrow>
    main_step groups s (s\<lparr> rn_phase := Launching k 0 \<rparr>)"
| groups_end: "\<lbrakk> rn_phase s = Checking k; k \<ge> length groups \<or> rn_failure s \<rbrakk> \<Longrightarrow>
    main_step groups s (s\<lparr> rn_phase := Selecting \<rparr>)"
| launch: "\<lbrakk> rn_phase s = Launching k j; j < length (groups ! k); name = svc_Name (groups ! k ! j) \<rbrakk> \<Longrightarrow>
    main_step groups s (s\<lparr> rn_phase := Launching k (j + 1),
      rn_status := (rn_status s)(name := Running), rn_launched := rn_launched s @ [name] \<rparr>)"
| launched: "\<lbrakk> rn_phase s = Launching k j; j \<ge> length (groups ! k) \<rbrakk> \<Longrightarrow>
    main_step groups s (s\<lparr> rn_phase := Waiting k 0 \<rparr>)"
| service_ready: "\<lbrakk> rn_phase s = Waiting k i; i < length (groups ! k); done_waiting s (groups ! k ! i) \<rbrakk> \<Longrightarrow>
    main_step groups s (s\<lparr> rn_phase := Waiting k (i + 1) \<rparr>)"
| wait_ends: "\<lbrakk> rn_phase s = Waiting k i;
      i \<ge> length (groups ! k) \<or> svc_ReadyNotifier (groups ! k ! i) \<and> (rn_failure s \<or> rn_cancelled s) \<rbrakk> \<Longrightarrow>
    main_step groups s (s\<lparr> rn_phase := Checking (k + 1), rn_startGroups := rn_startGroups s @ [groups ! k] \<rparr>)"
| select_done: "\<lbrakk> rn_phase s = Selecting; rn_cancelled s \<rbrakk> \<Longrightarrow>
    main_step groups s (s\<lparr> rn_phase := Stopping, rn_result := Some ReturnContextDone \<rparr>)"
| select_error: "\<lbrakk> rn_phase s = Selecting; rn_errCh s = Some e \<rbrakk> \<Longrightarrow>
    main_step groups s (s\<lparr> rn_phase := Stopping, rn_result := Some (ReturnServiceFailed e),
      rn_errCh := None, rn_cancelled := True \<rparr>)"
| stop_returns: "\<lbrakk> rn_phase s = Stopping; rn_stop s = StopDone \<rbrakk> \<Longrightarrow>
    main_step groups s (s\<lparr> rn_phase := Draining \<rparr>)"
| drained: "\<lbrakk> rn_phase s = Draining; \<forall>name. rn_status s name \<in> {NotStarted, Exited} \<rbrakk> \<Longrightarrow>
    main_step groups s (s\<lparr> rn_phase := Finished \<rparr>)"

text \<open>The steps of the goroutines of the services of \<open>groups\<close>.\<close>

inductive service_step :: "serviceGroup list \<Rightarrow> run_state \<Rightarrow> run_state \<Rightarrow> bool" for groups where
  becomes_ready: "\<lbrakk> rn_status s name = Running \<rbrakk> \<Longrightarrow>
    service_step groups s (s\<lparr> rn_ready := insert name (rn_ready s) \<rparr>)"
| exits: "\<lbrakk> rn_status s name = Running \<rbrakk> \<Longrightarrow>
    service_step groups s (s\<lparr> rn_status := (rn_status s)(name := Exited) \<rparr>)"
| reports: "\<lbrakk> rn_status s name = Running; svc \<in> set (concat groups); svc_Name svc = name;
      \<not> isAllowedFailure svc \<rbrakk> \<Longrightarrow>
    service_step groups s (s\<lparr> rn_status := (rn_status s)(name := Reporting),
      rn_errCh := sendError err (rn_errCh s), rn_failures := rn_failures s @ [(name, err)] \<rparr>)"
| triggers: "\<lbrakk> rn_status s name = Reporting \<rbrakk> \<Longrightarrow>
    service_step groups s (s\<lparr> rn_status := (rn_status s)(name := Exited), rn_failure := True \<rparr>)"

text \<open>
  \<^verbatim>\<open>Stop\<close>, called by \<^verbatim>\<open>Run\<close> itself or by another goroutine: it cancels the context if \<^verbatim>\<open>Run\<close> has
  stored the cancel function, and the first call stops the started groups, last group first, while
  it holds the mutex of the start groups for reading.
\<close>

inductive stop_step :: "run_state \<Rightarrow> run_state \<Rightarrow> bool" where
  parent_cancels: "stop_step s (s\<lparr> rn_cancelled := True \<rparr>)"
| stop_called: "stop_step s (s\<lparr> rn_stopRequested := True,
      rn_cancelled := (rn_cancelled s \<or> rn_phase s \<noteq> Created) \<rparr>)"
| stop_begins: "\<lbrakk> rn_stop s = StopIdle; rn_stopRequested s \<or> rn_phase s = Stopping; \<not> holds_lock (rn_phase s) \<rbrakk> \<Longrightarrow>
    stop_step s (s\<lparr> rn_stop := StopLoop (length (rn_startGroups s)) \<rparr>)"
| stop_group: "rn_stop s = StopLoop (Suc i) \<Longrightarrow>
    stop_step s (s\<lparr> rn_stop := StopLoop i, rn_stopped := rn_stopped s @ [rn_startGroups s ! i] \<rparr>)"
| stop_ends: "rn_stop s = StopLoop 0 \<Longrightarrow> stop_step s (s\<lparr> rn_stop := StopDone \<rparr>)"

definition run_step :: "serviceGroup list \<Rightarrow> run_state \<Rightarrow> run_state \<Rightarrow> bool" where
  "run_step groups s s' \<longleftrightarrow> main_step groups s s' \<or> service_step groups s s' \<or> stop_step s s'"

section \<open>What every reachable state satisfies\<close>

definition names :: "Service list \<Rightarrow> string list" where
  "names svcs = map svc_Name svcs"

lemma names_simps [simp]:
  "names [] = []" "names (svc # svcs) = svc_Name svc # names svcs" "names (xs @ ys) = names xs @ names ys"
  "set (names svcs) = svc_Name ` set svcs"
  by (simp_all add: names_def)

definition settled :: "run_state \<Rightarrow> Service list \<Rightarrow> bool" where
  "settled s svcs \<longleftrightarrow> rn_cancelled s \<or> (\<forall>svc \<in> set svcs. done_waiting s svc)"

text \<open>How far the start of the groups has come in each phase.\<close>

fun progress :: "serviceGroup list \<Rightarrow> run_state \<Rightarrow> run_phase \<Rightarrow> bool" where
  "progress groups s (Checking k) \<longleftrightarrow>
     k \<le> length groups \<and> rn_launched s = names (concat (take k groups)) \<and> rn_startGroups s = take k groups
     \<and> (rn_failure s \<or> settled s (concat (take k groups)))"
| "progress groups s (Launching k j) \<longleftrightarrow>
     k < length groups \<and> j \<le> length (groups ! k) \<and> rn_startGroups s = take k groups
     \<and> rn_launched s = names (concat (take k groups)) @ names (take j (groups ! k))
     \<and> settled s (concat (take k groups))"
| "progress groups s (Waiting k i) \<longleftrightarrow>
     k < length groups \<and> i \<le> length (groups ! k) \<and> rn_startGroups s = take k groups
     \<and> rn_launched s = names (concat (take (Suc k) groups))
     \<and> settled s (concat (take k groups)) \<and> settled s (take i (groups ! k))"
| "progress groups s ph \<longleftrightarrow>
     (\<exists>k \<le> length groups. rn_launched s = names (concat (take k groups)) \<and> rn_startGroups s = take k groups
        \<and> (ph = Created \<or> ph = Ready_to_lock \<longrightarrow> k = 0))"

fun stop_progress :: "run_state \<Rightarrow> stop_phase \<Rightarrow> bool" where
  "stop_progress s StopIdle \<longleftrightarrow> rn_stopped s = []"
| "stop_progress s (StopLoop i) \<longleftrightarrow>
     \<not> holds_lock (rn_phase s) \<and> i \<le> length (rn_startGroups s)
     \<and> rn_stopped s = rev (drop i (rn_startGroups s))
     \<and> (rn_phase s = Created \<or> rn_phase s = Ready_to_lock \<longrightarrow> rn_stopRequested s)"
| "stop_progress s StopDone \<longleftrightarrow>
     rn_stopRequested s \<and> rn_stopped s = []
     \<or> rn_phase s \<in> {Selecting, Stopping, Draining, Finished} \<and> rn_stopped s = rev (rn_startGroups s)"

definition first_error :: "run_state \<Rightarrow> sm_error option option" where
  "first_error s = (case rn_failures s of [] \<Rightarrow> None | f # _ \<Rightarrow> Some (snd f))"

definition result_inv :: "run_state \<Rightarrow> bool" where
  "result_inv s \<longleftrightarrow>
     (case rn_result s of
        None \<Rightarrow> rn_phase s \<notin> {Stopping, Draining, Finished} \<and> rn_errCh s = first_error s
      | Some ReturnContextDone \<Rightarrow> rn_phase s \<in> {Stopping, Draining, Finished} \<and> rn_cancelled s
      | Some (ReturnServiceFailed e) \<Rightarrow>
          rn_phase s \<in> {Stopping, Draining, Finished} \<and> rn_cancelled s \<and> first_error s = Some e)"

definition run_inv :: "serviceGroup list \<Rightarrow> run_state \<Rightarrow> bool" where
  "run_inv groups s \<longleftrightarrow>
     progress groups s (rn_phase s) \<and> stop_progress s (rn_stop s) \<and> result_inv s
     \<and> (\<forall>name. name \<notin> set (rn_launched s) \<longrightarrow> rn_status s name = NotStarted)
     \<and> (rn_phase s = Finished \<longrightarrow> (\<forall>name. rn_status s name \<in> {NotStarted, Exited}))
     \<and> (rn_phase s = Draining \<or> rn_phase s = Finished \<longrightarrow> rn_stop s = StopDone)"

lemma run_inv_init: "run_inv groups run_init"
  by (auto simp: run_inv_def run_init_def result_inv_def first_error_def)

lemma settled_simps [simp]:
  "settled s []" "settled s (xs @ ys) \<longleftrightarrow> settled s xs \<and> settled s ys"
  "settled s (svc # svcs) \<longleftrightarrow> (rn_cancelled s \<or> done_waiting s svc) \<and> settled s svcs"
  by (auto simp: settled_def)

lemma settled_mono:
  assumes "settled s svcs" "rn_cancelled s \<Longrightarrow> rn_cancelled s'"
    and "\<And>svc. svc \<in> set svcs \<Longrightarrow> done_waiting s svc \<Longrightarrow> done_waiting s' svc"
  shows "settled s' svcs"
  using assms by (auto simp: settled_def)

lemma take_Suc_concat:
  "k < length groups \<Longrightarrow> concat (take (Suc k) groups) = concat (take k groups) @ groups ! k"
  by (simp add: take_Suc_conv_app_nth)

lemma settled_cong:
  "rn_cancelled s' = rn_cancelled s \<Longrightarrow> rn_ready s' = rn_ready s \<Longrightarrow> rn_status s' = rn_status s \<Longrightarrow>
   settled s' svcs = settled s svcs"
  by (simp add: settled_def done_waiting_def)

lemma settled_phase [simp]:
  "settled (s\<lparr> rn_phase := x \<rparr>) svcs = settled s svcs"
  "settled (s\<lparr> rn_startGroups := gs \<rparr>) svcs = settled s svcs"
  "settled (s\<lparr> rn_launched := l \<rparr>) svcs = settled s svcs"
  by (rule settled_cong; simp)+

lemma done_waiting_phase [simp]: "done_waiting (s\<lparr> rn_phase := x \<rparr>) svc = done_waiting s svc"
  by (simp add: done_waiting_def)

lemma launch_fresh:
  assumes "distinct (names (concat groups))" "k < length groups" "j < length (groups ! k)"
  shows "svc_Name (groups ! k ! j) \<notin> svc_Name ` set (concat (take k groups))"
    and "svc_Name (groups ! k ! j) \<notin> svc_Name ` set (take j (groups ! k))"
proof -
  have "groups = take k groups @ groups ! k # drop (Suc k) groups"
    using assms(2) by (rule id_take_nth_drop)
  then have "concat groups = concat (take k groups) @ groups ! k @ concat (drop (Suc k) groups)"
    by (metis concat.simps(2) concat_append)
  moreover have "groups ! k = take j (groups ! k) @ groups ! k ! j # drop (Suc j) (groups ! k)"
    using assms(3) by (rule id_take_nth_drop)
  ultimately have "concat groups = concat (take k groups) @ (take j (groups ! k) @ groups ! k ! j #
      drop (Suc j) (groups ! k)) @ concat (drop (Suc k) groups)" by simp
  then show "svc_Name (groups ! k ! j) \<notin> svc_Name ` set (concat (take k groups))"
    "svc_Name (groups ! k ! j) \<notin> svc_Name ` set (take j (groups ! k))"
    using assms(1) by (auto simp: names_def simp del: set_concat)
qed

lemmas run_inv_defs = run_inv_def result_inv_def first_error_def

lemma main_step_inv:
  assumes inv: "run_inv groups s" and dist: "distinct (names (concat groups))"
    and step: "main_step groups s s'"
  shows "run_inv groups s'"
  using step
proof cases
  case store_cancel
  then show ?thesis using inv
    by (cases "rn_stop s") (auto simp: run_inv_defs split: option.splits run_return.splits)
next
  case lock
  then show ?thesis using inv
    by (cases "rn_stop s") (auto simp: run_inv_defs split: option.splits run_return.splits)
next
  case (group_begins k)
  then show ?thesis using inv
    by (cases "rn_stop s") (auto simp: run_inv_defs split: option.splits run_return.splits)
next
  case (groups_end k)
  then show ?thesis using inv
    by (cases "rn_stop s") (auto simp: run_inv_defs split: option.splits run_return.splits)
next
  case (launched k j)
  then show ?thesis using inv
    by (cases "rn_stop s")
      (auto simp: run_inv_defs take_Suc_concat split: option.splits run_return.splits)
next
  case (service_ready k i)
  then show ?thesis using inv
    by (cases "rn_stop s")
      (auto simp: run_inv_defs take_Suc_conv_app_nth split: option.splits run_return.splits)
next
  case (wait_ends k i)
  have "rn_failure s \<or> settled s (groups ! k)"
    using wait_ends inv by (auto simp: run_inv_def settled_def)
  then show ?thesis using wait_ends(1,2) inv
    by (cases "rn_stop s")
      (auto simp: run_inv_defs take_Suc_conv_app_nth split: option.splits run_return.splits)
next
  case select_done
  then show ?thesis using inv
    by (cases "rn_stop s") (auto simp: run_inv_defs split: option.splits run_return.splits)
next
  case (select_error e)
  then show ?thesis using inv
    by (cases "rn_stop s") (auto simp: run_inv_defs split: option.splits run_return.splits)
next
  case stop_returns
  then show ?thesis using inv
    by (cases "rn_stop s") (auto simp: run_inv_defs split: option.splits run_return.splits)
next
  case drained
  then show ?thesis using inv
    by (cases "rn_stop s") (auto simp: run_inv_defs split: option.splits run_return.splits)
next
  case (launch k j name)
  have p: "k < length groups" "settled s (concat (take k groups))"
    "rn_launched s = names (concat (take k groups)) @ names (take j (groups ! k))"
    using inv launch(2) by (simp_all add: run_inv_def)
  note fresh = launch_fresh [OF dist p(1) launch(3)]
  have "settled s' (concat (take k groups))"
  proof (rule settled_mono [OF p(2)])
    fix svc assume "svc \<in> set (concat (take k groups))" "done_waiting s svc"
    moreover from this fresh(1) have "svc_Name svc \<noteq> name" unfolding launch(4) by (metis image_eqI)
    ultimately show "done_waiting s' svc" using launch(1) by (simp add: done_waiting_def)
  qed (use launch in simp)
  then show ?thesis using launch inv
    by (cases "rn_stop s")
      (auto simp: run_inv_defs take_Suc_conv_app_nth split: option.splits run_return.splits
        simp del: set_concat)
qed

text \<open>A step outside the goroutine of \<^verbatim>\<open>Run\<close> moves neither its phase nor the groups, and what has
  settled stays so.\<close>

lemma progress_mono:
  assumes "progress groups s ph" "rn_launched s' = rn_launched s" "rn_startGroups s' = rn_startGroups s"
    and "rn_cancelled s \<Longrightarrow> rn_cancelled s'" "rn_failure s \<Longrightarrow> rn_failure s'"
    and "\<And>svc. done_waiting s svc \<Longrightarrow> done_waiting s' svc"
  shows "progress groups s' ph"
proof -
  have "settled s' svcs" if "settled s svcs" for svcs
    using that assms(4,6) by (rule settled_mono)
  then show ?thesis using assms(1-3,5) by (cases ph) auto
qed

lemma service_step_keeps:
  assumes "service_step groups s s'"
  shows "rn_phase s' = rn_phase s" "rn_launched s' = rn_launched s" "rn_startGroups s' = rn_startGroups s"
    "rn_cancelled s' = rn_cancelled s" "rn_failure s \<Longrightarrow> rn_failure s'" "rn_stop s' = rn_stop s"
    "rn_stopped s' = rn_stopped s" "rn_stopRequested s' = rn_stopRequested s" "rn_result s' = rn_result s"
    "done_waiting s svc \<Longrightarrow> done_waiting s' svc"
    "rn_status s name = NotStarted \<longleftrightarrow> rn_status s' name = NotStarted"
  using assms by (cases; auto simp: done_waiting_def)+

lemma service_step_errors:
  assumes "service_step groups s s'"
  shows "rn_errCh s = first_error s \<Longrightarrow> rn_errCh s' = first_error s'"
    and "first_error s = Some e \<Longrightarrow> first_error s' = Some e"
  using assms by (cases; auto simp: first_error_def sendError_def split: list.splits)+

lemma service_step_inv:
  assumes inv: "run_inv groups s" and step: "service_step groups s s'"
  shows "run_inv groups s'"
proof -
  note keep = service_step_keeps [OF step]
  have "progress groups s (rn_phase s)" using inv by (simp add: run_inv_def)
  then have "progress groups s' (rn_phase s')"
    unfolding keep(1) by (rule progress_mono) (use keep(2-5,10) in simp_all)
  moreover have "stop_progress s' (rn_stop s')"
    using inv by (cases "rn_stop s") (simp_all add: run_inv_def keep(1-3,6-8))
  moreover have "result_inv s'"
    using inv service_step_errors [OF step] unfolding run_inv_def result_inv_def keep(1,4,9)
    by (simp split: option.splits run_return.splits)
  moreover have "rn_phase s \<noteq> Finished"
  proof -
    have alive: "rn_status s name = Running \<or> rn_status s name = Reporting \<Longrightarrow>
      \<exists>name. rn_status s name \<notin> {NotStarted, Exited}" for name by (rule exI [of _ name]) auto
    have "\<exists>name. rn_status s name \<notin> {NotStarted, Exited}"
      using step by cases (blast intro: alive)+
    then show ?thesis using inv unfolding run_inv_def by blast
  qed
  ultimately show ?thesis
    using inv keep(11) unfolding run_inv_def keep(1,2,6) by blast
qed

lemma stop_step_keeps:
  assumes "stop_step s s'"
  shows "rn_phase s' = rn_phase s" "rn_launched s' = rn_launched s" "rn_startGroups s' = rn_startGroups s"
    "rn_cancelled s \<Longrightarrow> rn_cancelled s'" "rn_failure s' = rn_failure s" "rn_status s' = rn_status s"
    "rn_result s' = rn_result s" "rn_errCh s' = rn_errCh s" "first_error s' = first_error s"
    "done_waiting s' svc = done_waiting s svc" "rn_stop s = StopDone \<Longrightarrow> rn_stop s' = StopDone"
  using assms by (cases; simp add: done_waiting_def first_error_def)+

lemma stop_step_inv:
  assumes inv: "run_inv groups s" and step: "stop_step s s'"
  shows "run_inv groups s'"
proof -
  note keep = stop_step_keeps [OF step]
  have sp: "stop_progress s (rn_stop s)" "progress groups s (rn_phase s)" using inv by (simp_all add: run_inv_def)
  have p: "progress groups s' (rn_phase s')"
    unfolding keep(1) by (rule progress_mono [OF sp(2)]) (use keep(2-5,10) in simp_all)
  have "stop_progress s' (rn_stop s')"
    using step
  proof cases
    case (stop_group i)
    then have "drop i (rn_startGroups s) = rn_startGroups s ! i # drop (Suc i) (rn_startGroups s)"
      using sp(1) by (intro Cons_nth_drop_Suc [symmetric]) simp
    then show ?thesis using stop_group sp(1) by simp
  next
    case stop_ends
    then show ?thesis using sp by (cases "rn_phase s") auto
  qed (use sp in \<open>cases "rn_stop s"; auto\<close>)+
  moreover have "result_inv s'"
    using inv keep(4) unfolding run_inv_def result_inv_def keep(1,7-9)
    by (simp split: option.splits run_return.splits)
  ultimately show ?thesis
    using inv p keep(11) unfolding run_inv_def keep(1,2,6) by blast
qed

lemma reachable_inv:
  assumes "(run_step groups)\<^sup>*\<^sup>* run_init s" "distinct (names (concat groups))"
  shows "run_inv groups s"
  using assms(1)
proof induction
  case (step s s')
  then show ?case
    using main_step_inv [OF step.IH assms(2)] service_step_inv [OF step.IH] stop_step_inv [OF step.IH]
    by (auto simp: run_step_def)
qed (rule run_inv_init)

lemma reachable_started:
  assumes "(run_step groups)\<^sup>*\<^sup>* run_init s"
  shows "name \<in> set (rn_launched s) \<Longrightarrow> rn_status s name \<noteq> NotStarted"
  using assms
proof induction
  case base
  then show ?case by (simp add: run_init_def)
next
  case (step s s')
  from step.hyps(2) consider "main_step groups s s'" | "service_step groups s s'" | "stop_step s s'"
    by (auto simp: run_step_def)
  then show ?case
  proof cases
    case 1
    then show ?thesis using step.IH step.prems by cases auto
  next
    case 2
    then show ?thesis
      using service_step_keeps(2,11) [OF 2] step.IH step.prems by simp
  next
    case 3
    then show ?thesis
      using stop_step_keeps(2,6) [OF 3] step.IH step.prems by simp
  qed
qed

section \<open>Starting and stopping in order\<close>

lemma launch_step:
  assumes "run_step groups s s'" "rn_launched s' \<noteq> rn_launched s"
  obtains k j where "rn_phase s = Launching k j" "j < length (groups ! k)"
    "rn_launched s' = rn_launched s @ [svc_Name (groups ! k ! j)]"
proof -
  have "main_step groups s s'"
    using assms service_step_keeps(2) stop_step_keeps(2) unfolding run_step_def by blast
  then show thesis using assms(2) that by cases auto
qed

text \<open>C21: a service starts only when what it depends on is there. In every run, whatever the other
  goroutines do, a service is launched at most once and after all its dependencies within the
  process, and each of these has signalled that it is ready, or does not signal, or has exited,
  unless the context has been cancelled.\<close>

theorem startup_ordered:
  assumes "range_order order1 services" "range_order order2 services" "range_order order3 services"
    and "keyed services" "resolveOrder order1 order2 order3 services = Inr groups"
    and "(run_step groups)\<^sup>*\<^sup>* run_init s" "run_step groups s s'" "rn_launched s' \<noteq> rn_launched s"
  shows "\<exists>name. rn_launched s' = rn_launched s @ [name] \<and> name \<in> dom services \<and> name \<notin> set (rn_launched s)
     \<and> (\<forall>d \<in> set (deps_in services name). d \<in> set (rn_launched s)
          \<and> (rn_cancelled s \<or> (\<exists>svc. services d = Some svc \<and> done_waiting s svc)))"
proof -
  note gr = resolve_groups [OF assms(1-5)]
  have dist: "distinct (names (concat groups))" using gr(1) by (simp add: names_def)
  obtain k j where ph: "rn_phase s = Launching k j" "j < length (groups ! k)"
    "rn_launched s' = rn_launched s @ [svc_Name (groups ! k ! j)]"
    using launch_step [OF assms(7,8)] .
  have inv: "k < length groups" "settled s (concat (take k groups))"
    "rn_launched s = names (concat (take k groups)) @ names (take j (groups ! k))"
    using reachable_inv [OF assms(6) dist] ph(1) by (simp_all add: run_inv_def)
  have mem: "svc \<in> ran services" if "svc \<in> set (concat (take (Suc k) groups))" for svc
    using that set_take_subset [of "Suc k" groups] gr(2) by auto
  have key: "services (svc_Name svc) = Some svc" if "svc \<in> ran services" for svc
    using that assms(4) by (auto simp: ran_def keyed_def)
  let ?svc = "groups ! k ! j"
  have "?svc \<in> set (groups ! k)" using ph(2) by simp
  then have dom: "svc_Name ?svc \<in> dom services"
    using mem [of ?svc] key [of ?svc] inv(1) by (auto simp: take_Suc_concat simp del: set_concat)
  have deps: "set (deps_in services (svc_Name ?svc)) \<subseteq> svc_Name ` set (concat (take k groups))"
    by (rule gr(3) [OF inv(1)]) (use ph(2) in simp)
  have "d \<in> set (rn_launched s) \<and> (rn_cancelled s \<or> (\<exists>svc. services d = Some svc \<and> done_waiting s svc))"
    if "d \<in> set (deps_in services (svc_Name ?svc))" for d
  proof -
    from that deps obtain svc where svc: "svc \<in> set (concat (take k groups))" "d = svc_Name svc" by blast
    then have "services d = Some svc"
      using mem [of svc] key [of svc] inv(1) by (simp add: take_Suc_concat del: set_concat)
    then show ?thesis using svc inv(2) by (auto simp: inv(3) settled_def simp del: set_concat)
  qed
  then show ?thesis
    using ph(3) dom launch_fresh [OF dist inv(1) ph(2)] by (auto simp: inv(3) simp del: set_concat)
qed

text \<open>The groups in the reverse order: everything that depends on a service comes before it.\<close>

lemma reverse_order:
  assumes "stopped = rev (take m groups)" "m \<le> length groups"
    and deps: "\<And>k n. k < length groups \<Longrightarrow> n \<in> svc_Name ` set (groups ! k) \<Longrightarrow>
      D n \<subseteq> svc_Name ` set (concat (take k groups))"
    and "i < length stopped" "n \<in> svc_Name ` set (stopped ! i)" "d \<in> D n"
  shows "\<exists>j. i < j \<and> j < length stopped \<and> d \<in> svc_Name ` set (stopped ! j)"
proof -
  let ?k = "m - 1 - i"
  have i: "i < m" using assms(1,2,4) by simp
  have nth: "stopped ! j = groups ! (m - 1 - j)" if "j < m" for j
    using that assms(2) by (simp add: assms(1) rev_nth)
  have kl: "?k < length groups" using i assms(2) by linarith
  have "n \<in> svc_Name ` set (groups ! ?k)" using assms(5) by (simp only: nth [OF i])
  from deps [OF kl this] assms(6) have "d \<in> svc_Name ` set (concat (take ?k groups))" by blast
  then obtain g where g: "g \<in> set (take ?k groups)" "d \<in> svc_Name ` set g" by auto
  from g(1) obtain l where "l < ?k" "g = groups ! l"
    unfolding in_set_conv_nth [of g] by fastforce
  with g(2) have l: "l < ?k" "d \<in> svc_Name ` set (groups ! l)" by simp_all
  have "m - 1 - (m - 1 - l) = l" using l(1) i by simp
  then show ?thesis
    using l i nth [of "m - 1 - l"] assms(2)
    by (intro exI [of _ "m - 1 - l"]) (auto simp: assms(1))
qed


text \<open>A run of three services, each ready before the next starts, until the context is cancelled.\<close>

lemma reach_main: "(run_step g)\<^sup>*\<^sup>* s0 s \<Longrightarrow> main_step g s s' \<Longrightarrow> (run_step g)\<^sup>*\<^sup>* s0 s'"
  by (erule rtranclp.rtrancl_into_rtrancl) (simp add: run_step_def)

lemma reach_service: "(run_step g)\<^sup>*\<^sup>* s0 s \<Longrightarrow> service_step g s s' \<Longrightarrow> (run_step g)\<^sup>*\<^sup>* s0 s'"
  by (erule rtranclp.rtrancl_into_rtrancl) (simp add: run_step_def)

lemma reach_stop: "(run_step g)\<^sup>*\<^sup>* s0 s \<Longrightarrow> stop_step s s' \<Longrightarrow> (run_step g)\<^sup>*\<^sup>* s0 s'"
  by (erule rtranclp.rtrancl_into_rtrancl) (simp add: run_step_def)

definition demo_groups :: "serviceGroup list" where
  "demo_groups = [[demo_service ''db'' None], [demo_service ''api'' (Some [''db'', ''gone''])],
     [demo_service ''web'' (Some [''api'', ''db''])]]"

lemma demo_nth [simp]:
  "length demo_groups = 3" "demo_groups ! 0 = [demo_service ''db'' None]"
  "demo_groups ! Suc 0 = [demo_service ''api'' (Some [''db'', ''gone''])]"
  "svc_Name (demo_service name deps) = name" "svc_ReadyNotifier (demo_service name deps)"
  by (simp_all add: demo_groups_def demo_service_def)

lemma demo_db_ready:
  "(run_step demo_groups)\<^sup>*\<^sup>* run_init
     (run_init\<lparr> rn_phase := Launching 1 0, rn_status := (rn_status run_init)(''db'' := Running),
        rn_ready := {''db''}, rn_startGroups := [[demo_service ''db'' None]], rn_launched := [''db''] \<rparr>)"
proof -
  note s1 = reach_main [OF rtranclp.rtrancl_refl main_step.store_cancel,
      of run_init demo_groups, unfolded run_init_def, simplified]
  note s2 = reach_main [OF s1 main_step.lock, simplified]
  note s3 = reach_main [OF s2 main_step.group_begins [where k = 0], simplified]
  note s4 = reach_main [OF s3 main_step.launch [where k = 0 and j = 0], simplified]
  note s5 = reach_main [OF s4 main_step.launched [where k = 0 and j = 1], simplified]
  note s6 = reach_service [OF s5 service_step.becomes_ready [where name = "''db''"], simplified]
  note s7 = reach_main [OF s6 main_step.service_ready [where k = 0 and i = 0], simplified]
  note s8 = reach_main [OF s7 main_step.wait_ends [where k = 0 and i = 1], simplified]
  note s9 = reach_main [OF s8 main_step.group_begins [where k = 1], simplified]
  show ?thesis using s9 by (simp add: run_init_def done_waiting_def)
qed

lemmas demo_plan = demo_range demo_range demo_range demo_keyed demo_resolve [folded demo_groups_def]

theorem startup_ordered_witness:
  "\<exists>s s'. (run_step demo_groups)\<^sup>*\<^sup>* run_init s \<and> run_step demo_groups s s'
     \<and> rn_launched s' = rn_launched s @ [''api''] \<and> ''db'' \<in> set (rn_launched s)"
proof -
  define s where "s = run_init\<lparr> rn_phase := Launching 1 0, rn_status := (rn_status run_init)(''db'' := Running),
        rn_ready := {''db''}, rn_startGroups := [[demo_service ''db'' None]], rn_launched := [''db''] \<rparr>"
  define s' where "s' = s\<lparr> rn_phase := Launching 1 (0 + 1), rn_status := (rn_status s)(''api'' := Running),
        rn_launched := rn_launched s @ [''api''] \<rparr>"
  have r: "(run_step demo_groups)\<^sup>*\<^sup>* run_init s" unfolding s_def by (rule demo_db_ready)
  have "main_step demo_groups s s'"
    unfolding s'_def by (rule main_step.launch) (simp_all add: s_def)
  then have step: "run_step demo_groups s s'" by (simp add: run_step_def)
  have l: "rn_launched s' = rn_launched s @ [''api'']" by (simp add: s'_def)
  then have "rn_launched s' \<noteq> rn_launched s" by simp
  from startup_ordered [OF demo_plan r step this] l
  have "\<forall>d \<in> set (deps_in demo_services ''api''). d \<in> set (rn_launched s)" by auto
  moreover have "''db'' \<in> set (deps_in demo_services ''api'')"
    by (simp add: deps_in_def demo_services_def demo_service_def)
  ultimately show ?thesis using r step l by blast
qed

lemma demo_failed_run:
  "\<exists>s. (run_step demo_groups)\<^sup>*\<^sup>* run_init s \<and> rn_phase s = Finished \<and> rn_launched s = [''db'']
     \<and> rn_stopRequested s = False \<and> rn_failures s = [(''db'', Some (ErrService ''disk''))]"
proof -
  note s1 = reach_main [OF rtranclp.rtrancl_refl main_step.store_cancel,
      of run_init demo_groups, unfolded run_init_def, simplified]
  note s2 = reach_main [OF s1 main_step.lock, simplified]
  note s3 = reach_main [OF s2 main_step.group_begins [where k = 0], simplified]
  note s4 = reach_main [OF s3 main_step.launch [where k = 0 and j = 0], simplified]
  note s5 = reach_main [OF s4 main_step.launched [where k = 0 and j = 1], simplified]
  have svc: "demo_service ''db'' None \<in> set (concat demo_groups)" "\<not> isAllowedFailure (demo_service ''db'' None)"
    by (simp_all add: demo_groups_def isAllowedFailure_def demo_service_def)
  note s6 = reach_service [OF s5 service_step.reports [where name = "''db''"
      and err = "Some (ErrService ''disk'')", OF _ svc(1) _ svc(2)], simplified]
  note s7 = reach_service [OF s6 service_step.triggers [where name = "''db''"], simplified]
  note s8 = reach_main [OF s7 main_step.wait_ends [where k = 0 and i = 0], simplified]
  note s9 = reach_main [OF s8 main_step.groups_end [where k = 1], simplified]
  note s10 = reach_main [OF s9 main_step.select_error [where e = "Some (ErrService ''disk'')"],
      simplified sendError_def, simplified]
  note s11 = reach_stop [OF s10 stop_step.stop_begins, simplified]
  note s12 = reach_stop [OF s11 stop_step.stop_group [where i = 0], simplified]
  note s13 = reach_stop [OF s12 stop_step.stop_ends, simplified]
  note s14 = reach_main [OF s13 main_step.stop_returns, simplified]
  note s15 = reach_main [OF s14 main_step.drained, simplified]
  show ?thesis unfolding run_init_def by (rule exI, rule conjI, rule s15) (simp_all add: sendError_def)
qed


text \<open>A \<^verbatim>\<open>Stop\<close> from another goroutine that comes first uses up the one stop: no group has been started,
  the context of \<^verbatim>\<open>Run\<close> is not cancelled, and the services are launched all the same.\<close>

lemma early_stop_lost:
  "\<exists>s. (run_step demo_groups)\<^sup>*\<^sup>* run_init s \<and> rn_stopRequested s \<and> rn_stop s = StopDone \<and> rn_stopped s = []
     \<and> rn_launched s = [''db''] \<and> \<not> rn_cancelled s"
proof -
  note s1 = reach_stop [OF rtranclp.rtrancl_refl stop_step.stop_called,
      of demo_groups run_init, unfolded run_init_def, simplified]
  note s2 = reach_stop [OF s1 stop_step.stop_begins, simplified]
  note s3 = reach_stop [OF s2 stop_step.stop_ends, simplified]
  note s4 = reach_main [OF s3 main_step.store_cancel, simplified]
  note s5 = reach_main [OF s4 main_step.lock, simplified]
  note s6 = reach_main [OF s5 main_step.group_begins [where k = 0], simplified]
  note s7 = reach_main [OF s6 main_step.launch [where k = 0 and j = 0], simplified]
  show ?thesis unfolding run_init_def by (rule exI, rule conjI, rule s7) simp_all
qed

section \<open>The services of a plan\<close>

lemma keyed_foldl: "keyed m \<Longrightarrow> keyed (foldl (\<lambda>m service. m(svc_Name service \<mapsto> service)) m svcs)"
proof (induction svcs arbitrary: m)
  case (Cons svc svcs)
  have "keyed (m(svc_Name svc \<mapsto> svc))" using Cons.prems by (simp add: keyed_def)
  from Cons.IH [OF this] show ?case by simp
qed simp

lemma keyed_AddService: "keyed (sm_services s) \<Longrightarrow> keyed (sm_services (AddService svcs s))"
  by (simp add: AddService_def keyed_foldl)

lemma keyed_instantiate_loop:
  "instantiate_loop enabled allEnabled order s w = (e, s', w') \<Longrightarrow> keyed (sm_services s) \<Longrightarrow>
   keyed (sm_services s') \<and> sm_factories s' = sm_factories s"
proof (induction enabled allEnabled order s w rule: instantiate_loop.induct)
  case (2 enabled allEnabled name order s w)
  have f: "sm_factories (AddService svcs s) = sm_factories s" for svcs by (simp add: AddService_def)
  show ?case
    using "2.IH" "2.prems" keyed_AddService [of s] f
    by (auto split: if_splits option.splits prod.splits sum.splits)
qed simp

text \<open>A plan is a start order of services under their own names.\<close>

lemma Run_plan_groups:
  assumes "Run_plan parsed order visit s w = (Inr groups, s', w')" "keyed (sm_services s)"
  obtains order1 order2 order3 where "visit (sm_services s') = (order1, order2, order3)"
    "keyed (sm_services s')" "resolveOrder order1 order2 order3 (sm_services s') = Inr groups"
  using assms
  by (auto simp: Run_plan_def instantiateAll_def Let_def
      split: prod.splits option.splits if_splits sum.splits dest: keyed_instantiate_loop)

section \<open>Retries\<close>

text \<open>The runtime that counts the calls of \<^verbatim>\<open>Run\<close>.\<close>

definition counted :: "'w Runtime \<Rightarrow> (nat \<times> 'w) Runtime" where
  "counted rt =
     \<lparr> rt_Run = (\<lambda>svc (n, w). case rt_Run rt svc w of (r, w) \<Rightarrow> (r, n + 1, w)),
       rt_Cancelled = (\<lambda>(n, w). rt_Cancelled rt w),
       rt_Sleep = (\<lambda>d (n, w). case rt_Sleep rt d w of (b, w) \<Rightarrow> (b, n, w)) \<rparr>"

lemma counted_simps:
  "safeRun (counted rt) svc (n, w) = (case safeRun rt svc w of (e, w) \<Rightarrow> (e, n + 1, w))"
  "rt_Cancelled (counted rt) (n, w) = rt_Cancelled rt w"
  "waitRetryDelay (counted rt) d (n, w) = (case waitRetryDelay rt d w of (b, w) \<Rightarrow> (b, n, w))"
  by (auto simp: counted_def safeRun_def waitRetryDelay_def split: prod.splits run_result.splits)

lemma run_attempts_counted:
  "\<lbrakk> run_attempts (counted rt) svc maxRetries delay [k..<nat (maxRetries + 1)] err (n, w) = (ex, n', w');
     k < nat (maxRetries + 1) \<rbrakk> \<Longrightarrow>
   run_attempts rt svc maxRetries delay [k..<nat (maxRetries + 1)] err w = (ex, w')
   \<and> n < n' \<and> int n' \<le> int n + (maxRetries + 1 - int k)
   \<and> (\<forall>e. ex = ExitFailed e \<longrightarrow> e \<noteq> None \<and> int n' = int n + (maxRetries + 1 - int k))"
proof (induction "nat (maxRetries + 1) - k" arbitrary: k err n w)
  case (Suc m)
  let ?N = "nat (maxRetries + 1)"
  have up: "[k..<?N] = k # [Suc k..<?N]" using Suc.prems(2) by (simp add: upt_conv_Cons)
  obtain e w1 where r: "safeRun rt svc w = (e, w1)" by fastforce
  show ?case
  proof (cases e)
    case None
    then show ?thesis using Suc.prems r by (auto simp: up counted_simps)
  next
    case (Some x)
    obtain b w2 where d: "waitRetryDelay rt delay w1 = (b, w2)" by fastforce
    show ?thesis
    proof (cases "rt_Cancelled rt w1 \<or> int k \<ge> maxRetries \<or> \<not> b")
      case True
      then show ?thesis using Suc.prems r d Some by (auto simp: up counted_simps split: if_splits)
    next
      case False
      then have "run_attempts (counted rt) svc maxRetries delay [Suc k..<?N] (Some x) (n + 1, w2) = (ex, n', w')"
        using Suc.prems(1) r d Some by (simp add: up counted_simps)
      moreover have "m = ?N - Suc k" "Suc k < ?N" using Suc.hyps(2) False by linarith+
      ultimately show ?thesis
        using Suc.hyps(1) [of "Suc k" "Some x" "n + 1" w2] r d Some False by (auto simp: up)
    qed
  qed
qed simp

definition max_retries :: "Service \<Rightarrow> int" where
  "max_retries svc = (case svc_Retryable svc of None \<Rightarrow> 0 | Some (r, d) \<Rightarrow> r)"

text \<open>a service is run at least once and at most once more than its number of retries. It is
  reported as failed only after all these runs have failed, and then with an error, be it the one
  its last run returned or the panic it ended in.\<close>

theorem retries_bounded:
  assumes "0 \<le> max_retries svc" "runService (counted rt) svc (0, w) = (ex, n, w')"
  shows "1 \<le> n \<and> int n \<le> max_retries svc + 1
     \<and> (\<forall>e. ex = ExitFailed e \<longrightarrow> e \<noteq> None \<and> int n = max_retries svc + 1)
     \<and> runService rt svc w = (ex, w')"
proof -
  obtain r d where rd: "(case svc_Retryable svc of None \<Rightarrow> (0, 0) | Some r \<Rightarrow> r) = (r, d)" by fastforce
  then have r: "max_retries svc = r" by (auto simp: max_retries_def split: option.splits)
  have "run_attempts (counted rt) svc r d [0..<nat (r + 1)] None (0, w) = (ex, n, w')"
    using assms(2) by (simp add: runService_def rd)
  from run_attempts_counted [OF this] assms(1) show ?thesis
    unfolding runService_def rd r by auto
qed

definition demo_runtime :: "nat Runtime" where
  "demo_runtime =
     \<lparr> rt_Run = (\<lambda>svc w. if w < 2 then (Panicked ''boom'', w + 1) else (Returned (Some (ErrService ''down'')), w + 1)),
       rt_Cancelled = (\<lambda>w. False), rt_Sleep = (\<lambda>d w. (True, w)) \<rparr>"

theorem retries_bounded_witness:
  "\<exists>w'. runService (counted demo_runtime) ((demo_service ''db'' None)\<lparr> svc_Retryable := Some (2, 5) \<rparr>) (0, 0) =
      (ExitFailed (Some (ErrService ''down'')), 3, w')
    \<and> runService demo_runtime ((demo_service ''db'' None)\<lparr> svc_Retryable := Some (2, 5) \<rparr>) 0 =
      (ExitFailed (Some (ErrService ''down'')), w')"
proof -
  let ?svc = "(demo_service ''db'' None)\<lparr> svc_Retryable := Some (2, 5) \<rparr>"
  have m: "max_retries ?svc = 2" by (simp add: max_retries_def)
  have "runService (counted demo_runtime) ?svc (0, 0) = (ExitFailed (Some (ErrService ''down'')), 3, 3)"
    by (simp add: runService_def counted_def safeRun_def waitRetryDelay_def demo_runtime_def upt_rec numeral_eq_Suc)
  then show ?thesis using retries_bounded [of ?svc demo_runtime 0] m by auto
qed

text \<open>With a negative number of retries the service is never run, and its failure has no error.\<close>

lemma negative_retries:
  "max_retries svc < 0 \<Longrightarrow> runService rt svc w = (ExitFailed None, w)"
  by (auto simp: max_retries_def runService_def split: option.splits)

end
