(* ===== verification/Client_Retry.thy ===== *)
theory Client_Retry
  imports Url Complex_Main
begin

text \<open>
  The client library (\<^verbatim>\<open>pkg/client\<close>: \<^verbatim>\<open>client.go\<close>, \<^verbatim>\<open>retry.go\<close>, \<^verbatim>\<open>helpers.go\<close>, \<^verbatim>\<open>dispatch.go\<close>,
  \<^verbatim>\<open>mode.go\<close> and the dial path of \<^verbatim>\<open>transport.go\<close>): construction, the dispatch by mode, the retry
  loop with its strategies and its backoff, and the SOCKS5 dialer.

  A client error is the list of the sentinels that \<^verbatim>\<open>errors.Is\<close> finds in its chain: wrapping keeps
  the list and \<^verbatim>\<open>errors.Join\<close> appends. The pool service, the HTTP client over a transport, the
  random source and the wait for a timer or the context are parameters. An exchange returns what
  is left of the request body, since a transport reads any part of it. Backoffs are computed in
  real numbers; the rounding of \<^verbatim>\<open>float64\<close> is not modelled.
\<close>

section \<open>Errors, requests and responses\<close>

datatype sentinel =
    ErrEgressUnavailable
  | ErrEgressExhausted
  | Client_ErrPoolExhausted
  | Client_ErrInvalidCountry
  | ErrDirectDialForbidden
  | ErrNoAttemptError
  | ErrPreflightLeaked
  | ErrPreflightFailed
  | ContextCanceled
  | DeadlineExceeded
  | OtherError string

type_synonym cerror = "sentinel list"

definition errors_Is :: "cerror \<Rightarrow> sentinel \<Rightarrow> bool" where
  "errors_Is err target = (target \<in> set err)"

record HRequest =
  hr_URL :: string
  hr_UserAgent :: string
  hr_Body :: "string option"
  hr_GetBody :: "(cerror + string) option"

record HResponse =
  hs_StatusCode :: int
  hs_Body :: string

record PoolRequest =
  po_Country :: string
  po_ExcludeProxy :: "url option"
  po_FallbackOK :: bool

record PoolResponse =
  pp_ProxyURL :: "url option"
  pp_Pool :: string
  pp_ExitCountry :: string
  pp_ExitIP :: string

record 'w ClientEnv =
  ce_Pool :: "PoolRequest \<Rightarrow> 'w \<Rightarrow> (cerror + PoolResponse) \<times> 'w"
  ce_Proxied :: "url option \<Rightarrow> bool \<Rightarrow> HRequest \<Rightarrow> 'w \<Rightarrow> (cerror + HResponse) \<times> string \<times> 'w"
  ce_Direct :: "HRequest \<Rightarrow> 'w \<Rightarrow> (cerror + HResponse) \<times> string \<times> 'w"
  ce_Rand :: "'w \<Rightarrow> real \<times> 'w"
  ce_Sleep :: "duration \<Rightarrow> 'w \<Rightarrow> cerror option \<times> 'w"

section \<open>Retry policy\<close>

record RetryPolicy =
  rp_MaxAttempts :: int
  rp_InitialBackoff :: duration
  rp_MaxBackoff :: duration
  rp_BackoffMultiplier :: real
  rp_Jitter :: real
  rp_UseFallbackPool :: bool

definition DefaultRetryPolicy :: RetryPolicy where
  "DefaultRetryPolicy =
     \<lparr> rp_MaxAttempts = 5, rp_InitialBackoff = 1 * second, rp_MaxBackoff = 30 * second,
       rp_BackoffMultiplier = 2, rp_Jitter = 1 / 4, rp_UseFallbackPool = True \<rparr>"

record attemptStrategy =
  st_freshTCP :: bool
  st_excludePrev :: bool
  st_allowFallback :: bool

definition strategyFor :: "nat \<Rightarrow> attemptStrategy" where
  "strategyFor attempt =
     (if attempt \<le> 1 then \<lparr> st_freshTCP = False, st_excludePrev = False, st_allowFallback = False \<rparr>
      else if attempt = 2 then \<lparr> st_freshTCP = True, st_excludePrev = False, st_allowFallback = False \<rparr>
      else if attempt \<le> 4 then \<lparr> st_freshTCP = False, st_excludePrev = True, st_allowFallback = False \<rparr>
      else \<lparr> st_freshTCP = False, st_excludePrev = True, st_allowFallback = True \<rparr>)"

text \<open>The conversion of a floating-point number to a duration cuts off the fraction.\<close>

definition truncate_real :: "real \<Rightarrow> int" where
  "truncate_real x = (if x \<ge> 0 then \<lfloor>x\<rfloor> else \<lceil>x\<rceil>)"

definition backoffFor :: "RetryPolicy \<Rightarrow> nat \<Rightarrow> real \<Rightarrow> duration" where
  "backoffFor p attempt r =
     (if attempt \<le> 1 then 0
      else let base = real_of_int (rp_InitialBackoff p) * rp_BackoffMultiplier p ^ (attempt - 2);
               base = (if base > real_of_int (rp_MaxBackoff p) then real_of_int (rp_MaxBackoff p) else base);
               base = (if rp_Jitter p > 0 then base * (1 + (r * 2 - 1) * rp_Jitter p) else base)
           in truncate_real base)"

definition shouldRetry :: "(cerror + HResponse) \<Rightarrow> bool" where
  "shouldRetry result =
     (case result of
        Inl err \<Rightarrow>
          if errors_Is err ContextCanceled \<or> errors_Is err DeadlineExceeded then False
          else if errors_Is err Client_ErrPoolExhausted then False
          else if errors_Is err ErrDirectDialForbidden then False
          else True
      | Inr resp \<Rightarrow> hs_StatusCode resp \<in> {502, 503, 504, 429})"

section \<open>The client\<close>

datatype Mode = ModeVPNOnly | ModePublicFirst

record Client =
  cl_country :: string
  cl_policy :: RetryPolicy
  cl_mode :: Mode
  cl_userAgent :: string
  cl_ipEchoEndpoints :: "string list"

definition DefaultIPEchoEndpoints :: "string list" where
  "DefaultIPEchoEndpoints = [''https://api.ipify.org'', ''https://ifconfig.me/ip'']"

definition WithRetryPolicy :: "RetryPolicy \<Rightarrow> Client \<Rightarrow> Client" where
  "WithRetryPolicy p c = c\<lparr> cl_policy := p \<rparr>"

definition WithUserAgent :: "string \<Rightarrow> Client \<Rightarrow> Client" where
  "WithUserAgent ua c = c\<lparr> cl_userAgent := ua \<rparr>"

definition WithIPEchoEndpoints :: "string list \<Rightarrow> Client \<Rightarrow> Client" where
  "WithIPEchoEndpoints urls c = c\<lparr> cl_ipEchoEndpoints := urls \<rparr>"

definition WithMode :: "Mode \<Rightarrow> Client \<Rightarrow> Client" where
  "WithMode m c = c\<lparr> cl_mode := m \<rparr>"

definition applyDefaults :: "Client \<Rightarrow> Client" where
  "applyDefaults c =
     (if length (cl_ipEchoEndpoints c) = 0 then c\<lparr> cl_ipEchoEndpoints := DefaultIPEchoEndpoints \<rparr> else c)"

definition NewClient :: "string \<Rightarrow> bool \<Rightarrow> (Client \<Rightarrow> Client) list \<Rightarrow> cerror + Client" where
  "NewClient country hasPool opts =
     (if country = [] then Inl [Client_ErrInvalidCountry]
      else if \<not> hasPool then Inl [ErrEgressUnavailable]
      else Inr (applyDefaults (foldl (\<lambda>c opt. opt c)
             \<lparr> cl_country = country, cl_policy = DefaultRetryPolicy, cl_mode = ModeVPNOnly,
               cl_userAgent = [], cl_ipEchoEndpoints = [] \<rparr> opts)))"

definition waitBackoff :: "'w ClientEnv \<Rightarrow> RetryPolicy \<Rightarrow> nat \<Rightarrow> 'w \<Rightarrow> cerror option \<times> 'w" where
  "waitBackoff env policy attempt w =
     (let (r, w) = (if attempt > 1 \<and> rp_Jitter policy > 0 then ce_Rand env w else (0, w));
          backoff = backoffFor policy attempt r
      in if backoff \<le> 0 then (None, w) else ce_Sleep env backoff w)"

definition rewindBody :: "HRequest \<Rightarrow> cerror + HRequest" where
  "rewindBody req =
     (case hr_Body req of
        None \<Rightarrow> Inr req
      | Some _ \<Rightarrow>
          (case hr_GetBody req of
             None \<Rightarrow> Inl [ErrEgressUnavailable]
           | Some (Inl e) \<Rightarrow> Inl e
           | Some (Inr body) \<Rightarrow> Inr (req\<lparr> hr_Body := Some body \<rparr>)))"

definition body_read :: "string \<Rightarrow> HRequest \<Rightarrow> HRequest" where
  "body_read rest req = req\<lparr> hr_Body := map_option (\<lambda>_. rest) (hr_Body req) \<rparr>"

definition fire ::
  "'w ClientEnv \<Rightarrow> HRequest \<Rightarrow> PoolResponse \<Rightarrow> attemptStrategy \<Rightarrow> 'w
     \<Rightarrow> (cerror + HResponse) \<times> HRequest \<times> 'w" where
  "fire env req pr strategy w =
     (case rewindBody req of
        Inl e \<Rightarrow> (Inl e, req, w)
      | Inr req \<Rightarrow>
          (case ce_Proxied env (pp_ProxyURL pr) (st_freshTCP strategy) req w of
             (result, rest, w) \<Rightarrow> (result, body_read rest req, w)))"

datatype attemptResult = Success HResponse | Halt cerror | Retry cerror "url option"

definition tryOnce ::
  "'w ClientEnv \<Rightarrow> Client \<Rightarrow> HRequest \<Rightarrow> url option \<Rightarrow> nat \<Rightarrow> 'w \<Rightarrow> attemptResult \<times> HRequest \<times> 'w" where
  "tryOnce env c req prevProxy attempt w =
     (let strategy = strategyFor attempt;
          poolReq = \<lparr> po_Country = cl_country c,
                      po_ExcludeProxy = (if st_excludePrev strategy then prevProxy else None),
                      po_FallbackOK = (st_allowFallback strategy \<and> rp_UseFallbackPool (cl_policy c)) \<rparr>
      in case ce_Pool env poolReq w of
           (Inl err, w) \<Rightarrow>
             if \<not> shouldRetry (Inl err) then (Halt err, req, w) else (Retry err None, req, w)
         | (Inr poolResp, w) \<Rightarrow>
             (case fire env req poolResp strategy w of
                (result, req, w) \<Rightarrow>
                  if \<not> shouldRetry result
                  then (case result of Inl err \<Rightarrow> (Halt err, req, w) | Inr resp \<Rightarrow> (Success resp, req, w))
                  else let retryErr = (case result of Inl err \<Rightarrow> err | Inr resp \<Rightarrow> [ErrEgressUnavailable])
                       in (Retry retryErr (pp_ProxyURL poolResp), req, w)))"

fun attempt_loop ::
  "'w ClientEnv \<Rightarrow> Client \<Rightarrow> nat list \<Rightarrow> HRequest \<Rightarrow> url option \<Rightarrow> cerror option \<Rightarrow> 'w
     \<Rightarrow> (cerror + HResponse) \<times> HRequest \<times> 'w" where
  "attempt_loop env c [] req lastProxy lastErr w =
     (Inl (ErrEgressExhausted # (case lastErr of None \<Rightarrow> [ErrNoAttemptError] | Some e \<Rightarrow> e)), req, w)"
| "attempt_loop env c (attempt # attempts) req lastProxy lastErr w =
     (case waitBackoff env (cl_policy c) attempt w of
        (Some err, w) \<Rightarrow> (Inl err, req, w)
      | (None, w) \<Rightarrow>
          (case tryOnce env c req lastProxy attempt w of
             (Halt err, req, w) \<Rightarrow> (Inl err, req, w)
           | (Success resp, req, w) \<Rightarrow> (Inr resp, req, w)
           | (Retry err proxy, req, w) \<Rightarrow>
               attempt_loop env c attempts req (if proxy \<noteq> None then proxy else lastProxy) (Some err) w))"

definition client_do ::
  "'w ClientEnv \<Rightarrow> Client \<Rightarrow> HRequest \<Rightarrow> 'w \<Rightarrow> (cerror + HResponse) \<times> HRequest \<times> 'w" where
  "client_do env c req w =
     attempt_loop env c [1..<nat (rp_MaxAttempts (cl_policy c) + 1)] req None None w"

section \<open>Dispatch by mode\<close>

definition shouldFallbackOnStatus :: "HResponse \<Rightarrow> bool" where
  "shouldFallbackOnStatus resp = (hs_StatusCode resp \<in> {429, 403, 503})"

definition dispatchPublicFirst ::
  "'w ClientEnv \<Rightarrow> Client \<Rightarrow> HRequest \<Rightarrow> 'w \<Rightarrow> (cerror + HResponse) \<times> HRequest \<times> 'w" where
  "dispatchPublicFirst env c req w =
     (case rewindBody req of
        Inl e \<Rightarrow> (Inl e, req, w)
      | Inr req \<Rightarrow>
          (case ce_Direct env req w of
             (result, rest, w) \<Rightarrow>
               let req = body_read rest req;
                   proxied = (case rewindBody req of
                                Inl e \<Rightarrow> (Inl e, req, w)
                              | Inr req \<Rightarrow> client_do env c req w)
               in case result of
                    Inl e \<Rightarrow> proxied
                  | Inr resp \<Rightarrow> if \<not> shouldFallbackOnStatus resp then (Inr resp, req, w) else proxied))"

definition dispatch ::
  "'w ClientEnv \<Rightarrow> Client \<Rightarrow> HRequest \<Rightarrow> 'w \<Rightarrow> (cerror + HResponse) \<times> HRequest \<times> 'w" where
  "dispatch env c req w =
     (if cl_mode c = ModePublicFirst then dispatchPublicFirst env c req w else client_do env c req w)"

definition Do ::
  "'w ClientEnv \<Rightarrow> Client \<Rightarrow> HRequest \<Rightarrow> 'w \<Rightarrow> (cerror + HResponse) \<times> HRequest \<times> 'w" where
  "Do env c req w =
     dispatch env c
       (if cl_userAgent c \<noteq> [] \<and> hr_UserAgent req = [] then req\<lparr> hr_UserAgent := cl_userAgent c \<rparr> else req) w"

definition Get ::
  "'w ClientEnv \<Rightarrow> Client \<Rightarrow> (string \<Rightarrow> bool) \<Rightarrow> string \<Rightarrow> 'w \<Rightarrow> (cerror + HResponse) \<times> 'w" where
  "Get env c validURL urlStr w =
     (if \<not> validURL urlStr then (Inl [OtherError ''build GET request''], w)
      else case Do env c \<lparr> hr_URL = urlStr, hr_UserAgent = [], hr_Body = None, hr_GetBody = None \<rparr> w of
             (result, req, w) \<Rightarrow> (result, w))"

section \<open>The SOCKS5 dial path\<close>

definition socks5Auth :: "url \<Rightarrow> (string \<times> string) option" where
  "socks5Auth proxyURL =
     map_option (\<lambda>(username, pw). (username, case pw of None \<Rightarrow> [] | Some password \<Rightarrow> password))
       (url_User proxyURL)"

record ('u, 'c, 'w) SocksDialer =
  sx_SOCKS5 :: "string \<Rightarrow> (string \<times> string) option \<Rightarrow> cerror + 'u"
  sx_hasContext :: "'u \<Rightarrow> bool"
  sx_DialContext :: "'u \<Rightarrow> string \<Rightarrow> 'w \<Rightarrow> (cerror + 'c) \<times> 'w"

definition dialSocks5 ::
  "('u, 'c, 'w) SocksDialer \<Rightarrow> url \<Rightarrow> string \<Rightarrow> 'w \<Rightarrow> (cerror + 'c) \<times> 'w" where
  "dialSocks5 sx proxyURL targetAddr w =
     (case sx_SOCKS5 sx (url_Host proxyURL) (socks5Auth proxyURL) of
        Inl e \<Rightarrow> (Inl [ErrEgressUnavailable], w)
      | Inr socks \<Rightarrow>
          if \<not> sx_hasContext sx socks then (Inl [ErrEgressUnavailable], w)
          else case sx_DialContext sx socks targetAddr w of
                 (Inl e, w) \<Rightarrow> (Inl [ErrEgressUnavailable], w)
               | (Inr conn, w) \<Rightarrow> (Inr conn, w))"

section \<open>The rounds of a request\<close>

text \<open>
  What a request does to the outside: it is observed on a world that records, for every attempt,
  the request to the pool, the proxy in its answer and what was sent through a proxy, and that
  counts the direct exchanges.
\<close>

record round =
  rd_req :: PoolRequest
  rd_answer :: "url option"
  rd_sent :: "(url option \<times> bool \<times> string option) option"

type_synonym 'w observed = "nat \<times> round list \<times> 'w"

definition mark_sent :: "url option \<times> bool \<times> string option \<Rightarrow> round list \<Rightarrow> round list" where
  "mark_sent s rs = (if rs = [] then [] else butlast rs @ [(last rs)\<lparr> rd_sent := Some s \<rparr>])"

definition answer_url :: "(cerror + PoolResponse) \<Rightarrow> url option" where
  "answer_url r = (case r of Inl _ \<Rightarrow> None | Inr pr \<Rightarrow> pp_ProxyURL pr)"

definition observed :: "'w ClientEnv \<Rightarrow> 'w observed ClientEnv" where
  "observed env =
     \<lparr> ce_Pool = (\<lambda>req (n, rs, w). case ce_Pool env req w of
         (r, w) \<Rightarrow> (r, n, rs @ [\<lparr> rd_req = req, rd_answer = answer_url r, rd_sent = None \<rparr>], w)),
       ce_Proxied = (\<lambda>u fresh req (n, rs, w). case ce_Proxied env u fresh req w of
         (r, rest, w) \<Rightarrow> (r, rest, n, mark_sent (u, fresh, hr_Body req) rs, w)),
       ce_Direct = (\<lambda>req (n, rs, w). case ce_Direct env req w of (r, rest, w) \<Rightarrow> (r, rest, n + 1, rs, w)),
       ce_Rand = (\<lambda>(n, rs, w). case ce_Rand env w of (x, w) \<Rightarrow> (x, n, rs, w)),
       ce_Sleep = (\<lambda>d (n, rs, w). case ce_Sleep env d w of (e, w) \<Rightarrow> (e, n, rs, w)) \<rparr>"

definition next_proxy :: "url option \<Rightarrow> round \<Rightarrow> url option" where
  "next_proxy prev rd = (if rd_answer rd \<noteq> None then rd_answer rd else prev)"

definition last_proxy :: "round list \<Rightarrow> url option" where
  "last_proxy rs = foldl next_proxy None rs"

text \<open>Attempt \<open>i + 1\<close> in its place among the rounds: what it asks for and what it sends.\<close>

definition round_ok :: "Client \<Rightarrow> HRequest \<Rightarrow> nat \<Rightarrow> url option \<Rightarrow> round \<Rightarrow> bool" where
  "round_ok c req i prev rd \<longleftrightarrow>
     rd_req rd = \<lparr> po_Country = cl_country c, po_ExcludeProxy = (if i \<ge> 2 then prev else None),
                   po_FallbackOK = (i \<ge> 4 \<and> rp_UseFallbackPool (cl_policy c)) \<rparr>
     \<and> (\<forall>u fresh body. rd_sent rd = Some (u, fresh, body) \<longrightarrow>
          u = rd_answer rd \<and> fresh = (i = 1)
          \<and> (hr_Body req = None \<and> body = None \<or> (\<exists>b. hr_GetBody req = Some (Inr b) \<and> body = Some b)))"

definition same_source :: "HRequest \<Rightarrow> HRequest \<Rightarrow> bool" where
  "same_source req req' \<longleftrightarrow>
     hr_GetBody req' = hr_GetBody req \<and> (hr_Body req' = None \<longleftrightarrow> hr_Body req = None)"

lemma rewindBody_ok:
  assumes "rewindBody req = Inr req'"
  shows "same_source req req'"
    "hr_Body req = None \<and> hr_Body req' = None \<or> (\<exists>b. hr_GetBody req = Some (Inr b) \<and> hr_Body req' = Some b)"
  using assms by (auto simp: rewindBody_def same_source_def split: option.splits sum.splits)

lemma body_read_source [simp]: "same_source req (body_read rest req') = same_source req req'"
  by (simp add: same_source_def body_read_def)

lemma observed_wait:
  "waitBackoff (observed env) p attempt (n, rs, w) =
     (case waitBackoff env p attempt w of (e, w) \<Rightarrow> (e, n, rs, w))"
  by (auto simp: waitBackoff_def observed_def Let_def split: prod.splits)

lemma fire_observed:
  assumes "fire (observed env) req pr st (n, rs, w) = (r, req', n', rs', w')"
  shows "n' = n \<and> same_source req req'
    \<and> (rs' = rs \<or> (\<exists>body. rs' = mark_sent (pp_ProxyURL pr, st_freshTCP st, body) rs
          \<and> (hr_Body req = None \<and> body = None \<or> (\<exists>b. hr_GetBody req = Some (Inr b) \<and> body = Some b))))"
proof (cases "rewindBody req")
  case (Inl e)
  then show ?thesis using assms by (auto simp: fire_def same_source_def)
next
  case (Inr req1)
  obtain r1 rest w1 where p: "ce_Proxied env (pp_ProxyURL pr) (st_freshTCP st) req1 w = (r1, rest, w1)"
    by (metis surj_pair)
  have "n' = n" "req' = body_read rest req1" "rs' = mark_sent (pp_ProxyURL pr, st_freshTCP st, hr_Body req1) rs"
    using assms by (simp_all add: fire_def Inr observed_def p)
  then show ?thesis using rewindBody_ok [OF Inr] by auto
qed

lemma tryOnce_observed:
  assumes "tryOnce (observed env) c req prev (Suc i) (n, rs, w) = (r, req', n', rs', w')"
  obtains rd where "n' = n" "same_source req req'" "rs' = rs @ [rd]" "round_ok c req i prev rd"
    "\<And>e p. r = Retry e p \<Longrightarrow> p = rd_answer rd"
    "\<And>resp. r = Success resp \<Longrightarrow> \<not> shouldRetry (Inr resp)"
proof -
  let ?st = "strategyFor (Suc i)"
  let ?q = "\<lparr> po_Country = cl_country c, po_ExcludeProxy = (if st_excludePrev ?st then prev else None),
    po_FallbackOK = (st_allowFallback ?st \<and> rp_UseFallbackPool (cl_policy c)) \<rparr>"
  have st: "st_excludePrev ?st = (i \<ge> 2)" "st_allowFallback ?st = (i \<ge> 4)" "st_freshTCP ?st = (i = 1)"
    by (auto simp: strategyFor_def)
  obtain a w1 where a: "ce_Pool env ?q w = (a, w1)" by fastforce
  let ?rd = "\<lparr> rd_req = ?q, rd_answer = answer_url a, rd_sent = None \<rparr>"
  have a': "ce_Pool (observed env) ?q (n, rs, w) = (a, n, rs @ [?rd], w1)"
    by (simp add: observed_def a)
  show thesis
  proof (cases a)
    case (Inl e)
    then show thesis
      using assms a' by (intro that [of ?rd])
        (auto simp: tryOnce_def Let_def round_ok_def st answer_url_def same_source_def split: if_splits)
  next
    case (Inr pr)
    obtain r1 req1 n1 rs1 w2 where f: "fire (observed env) req pr ?st (n, rs @ [?rd], w1) = (r1, req1, n1, rs1, w2)"
      by (metis surj_pair)
    from fire_observed [OF f] obtain s where s: "n1 = n" "same_source req req1" "rs1 = rs @ [?rd\<lparr> rd_sent := s \<rparr>]"
      "s = None \<or> (\<exists>body. s = Some (pp_ProxyURL pr, i = 1, body) \<and> (hr_Body req = None \<and> body = None
         \<or> (\<exists>b. hr_GetBody req = Some (Inr b) \<and> body = Some b)))"
      by (auto simp: mark_sent_def st)
    have "n' = n1 \<and> req' = req1 \<and> rs' = rs1 \<and> (\<forall>e p. r = Retry e p \<longrightarrow> p = pp_ProxyURL pr)
        \<and> (\<forall>resp. r = Success resp \<longrightarrow> \<not> shouldRetry (Inr resp))"
      using assms a' f Inr by (auto simp: tryOnce_def Let_def split: if_splits sum.splits)
    then show thesis
      using s Inr by (intro that [of "?rd\<lparr> rd_sent := s \<rparr>"]) (auto simp: round_ok_def st answer_url_def)
  qed
qed

definition rounds_ok :: "Client \<Rightarrow> HRequest \<Rightarrow> round list \<Rightarrow> bool" where
  "rounds_ok c req rs \<longleftrightarrow> (\<forall>i < length rs. round_ok c req i (last_proxy (take i rs)) (rs ! i))"

lemma rounds_ok_snoc:
  "rounds_ok c req (rs @ [rd]) \<longleftrightarrow> rounds_ok c req rs \<and> round_ok c req (length rs) (last_proxy rs) rd"
  by (auto simp: rounds_ok_def nth_append less_Suc_eq)

lemma round_ok_source: "same_source req req' \<Longrightarrow> round_ok c req' i prev rd \<Longrightarrow> round_ok c req i prev rd"
  by (auto simp: round_ok_def same_source_def)

lemma attempt_loop_observed:
  "\<lbrakk> attempt_loop (observed env) c [Suc (length rs)..<N] req (last_proxy rs) lastErr (n, rs, w) = (res, req', n', rs', w');
     rounds_ok c req0 rs; same_source req0 req \<rbrakk> \<Longrightarrow>
   n' = n \<and> rounds_ok c req0 rs' \<and> length rs' \<le> max (length rs) (N - 1)
   \<and> (\<forall>resp. res = Inr resp \<longrightarrow> \<not> shouldRetry (Inr resp))"
proof (induction "N - Suc (length rs)" arbitrary: rs req lastErr w)
  case 0
  then show ?case by auto
next
  case (Suc m)
  let ?k = "length rs"
  have up: "[Suc ?k..<N] = Suc ?k # [Suc (Suc ?k)..<N]" using Suc.hyps(2) by (simp add: upt_conv_Cons)
  obtain e w1 where wb: "waitBackoff env (cl_policy c) (Suc ?k) w = (e, w1)" by fastforce
  show ?case
  proof (cases e)
    case (Some err)
    then show ?thesis using Suc.prems wb by (auto simp: up observed_wait)
  next
    case None
    obtain r req1 n1 rs1 w2 where t:
      "tryOnce (observed env) c req (last_proxy rs) (Suc ?k) (n, rs, w1) = (r, req1, n1, rs1, w2)"
      by (metis surj_pair)
    obtain rd where rd: "n1 = n" "same_source req req1" "rs1 = rs @ [rd]" "round_ok c req ?k (last_proxy rs) rd"
      "\<And>e p. r = Retry e p \<Longrightarrow> p = rd_answer rd" "\<And>resp. r = Success resp \<Longrightarrow> \<not> shouldRetry (Inr resp)"
      by (rule tryOnce_observed [OF t]) blast
    have src: "same_source req0 req1" using Suc.prems(3) rd(2) by (simp add: same_source_def)
    have ok: "rounds_ok c req0 (rs @ [rd])"
      using Suc.prems(2) round_ok_source [OF Suc.prems(3) rd(4)] by (simp add: rounds_ok_snoc)
    show ?thesis
    proof (cases r)
      case (Retry err p)
      have "(if p \<noteq> None then p else last_proxy rs) = last_proxy (rs @ [rd])"
        using rd(5) [OF Retry] by (simp add: last_proxy_def next_proxy_def)
      then have "attempt_loop (observed env) c [Suc (length (rs @ [rd]))..<N] req1 (last_proxy (rs @ [rd])) (Some err)
          (n, rs @ [rd], w2) = (res, req', n', rs', w')"
        using Suc.prems(1) wb None t rd(1,3) Retry by (simp add: up observed_wait)
      from Suc.hyps(1) [OF _ this ok src] Suc.hyps(2) show ?thesis by simp
    qed (use Suc.prems(1) wb None t rd ok Suc.hyps(2) in \<open>auto simp: up observed_wait\<close>)
  qed
qed


definition demo_proxy :: "nat \<Rightarrow> url" where
  "demo_proxy n = \<lparr> url_Scheme = ''socks5'', url_Host = (if n = 0 then ''a:1080'' else ''b:1080''), url_User = None \<rparr>"

definition demo_client_env :: "nat ClientEnv" where
  "demo_client_env =
     \<lparr> ce_Pool = (\<lambda>q w. (Inr \<lparr> pp_ProxyURL = Some (demo_proxy (if po_ExcludeProxy q = None then 0 else 1)),
                               pp_Pool = ''eu'', pp_ExitCountry = ''FR'', pp_ExitIP = [] \<rparr>, w)),
       ce_Proxied = (\<lambda>u fresh req w. (Inr \<lparr> hs_StatusCode = (if u = Some (demo_proxy 0) then 503 else 200),
                                            hs_Body = [] \<rparr>, [], w)),
       ce_Direct = (\<lambda>req w. (Inl [OtherError ''unused''], [], w)),
       ce_Rand = (\<lambda>w. (1 / 2, w)), ce_Sleep = (\<lambda>d w. (None, w + nat d)) \<rparr>"

definition demo_client :: Client where
  "demo_client =
     \<lparr> cl_country = ''FR'', cl_policy = DefaultRetryPolicy, cl_mode = ModeVPNOnly, cl_userAgent = ''px'',
       cl_ipEchoEndpoints = DefaultIPEchoEndpoints \<rparr>"

definition demo_post :: HRequest where
  "demo_post = \<lparr> hr_URL = ''https://x/'', hr_UserAgent = [], hr_Body = Some ''data'', hr_GetBody = Some (Inr ''data'') \<rparr>"

lemma demo_third_attempt:
  "\<exists>req' rs w'. Do (observed demo_client_env) demo_client demo_post (0, [], 0) =
     (Inr \<lparr> hs_StatusCode = 200, hs_Body = [] \<rparr>, req', 0, rs, w')
   \<and> length rs = 3 \<and> rd_answer (rs ! 1) = Some (demo_proxy 0)
   \<and> rd_sent (rs ! 2) = Some (Some (demo_proxy 1), False, Some ''data'')"
  by (simp add: Do_def dispatch_def client_do_def demo_client_def demo_post_def DefaultRetryPolicy_def
      demo_client_env_def observed_def waitBackoff_def backoffFor_def truncate_real_def tryOnce_def fire_def
      strategyFor_def rewindBody_def body_read_def shouldRetry_def mark_sent_def answer_url_def demo_proxy_def
      second_def upt_rec Let_def)


section \<open>Backoff\<close>

lemma truncate_real_bounds:
  assumes "0 \<le> x"
  shows "0 \<le> truncate_real x" "real_of_int (truncate_real x) \<le> x" "x - 1 < real_of_int (truncate_real x)"
  using assms by (simp_all add: truncate_real_def)

definition plain_backoff :: "RetryPolicy \<Rightarrow> nat \<Rightarrow> real" where
  "plain_backoff p attempt =
     min (real_of_int (rp_InitialBackoff p) * rp_BackoffMultiplier p ^ (attempt - 2)) (real_of_int (rp_MaxBackoff p))"

text \<open>the wait before an attempt is the exponential backoff, capped at the maximum, give or take the
  jitter. It is never negative, and it exceeds the maximum by no more than the jitter.\<close>

theorem backoff_bounds:
  assumes "0 \<le> r" "r < 1" "0 \<le> rp_Jitter p" "rp_Jitter p \<le> 1"
    and "0 \<le> rp_InitialBackoff p" "0 \<le> rp_MaxBackoff p" "0 \<le> rp_BackoffMultiplier p"
  shows "0 \<le> backoffFor p attempt r
     \<and> real_of_int (backoffFor p attempt r) \<le> (1 + rp_Jitter p) * real_of_int (rp_MaxBackoff p)
     \<and> (1 < attempt \<longrightarrow>
          (1 - rp_Jitter p) * plain_backoff p attempt - 1 < real_of_int (backoffFor p attempt r)
          \<and> real_of_int (backoffFor p attempt r) \<le> (1 + rp_Jitter p) * plain_backoff p attempt)"
proof (cases "1 < attempt")
  case False
  then show ?thesis using assms by (simp add: backoffFor_def)
next
  case True
  let ?j = "rp_Jitter p" and ?b = "plain_backoff p attempt"
  let ?f = "1 + (r * 2 - 1) * ?j"
  have b: "0 \<le> ?b" "?b \<le> real_of_int (rp_MaxBackoff p)" using assms by (simp_all add: plain_backoff_def)
  have "(r * 2 - 1) * ?j \<le> 1 * ?j" "(-1) * ?j \<le> (r * 2 - 1) * ?j"
    using assms(1-3) by (intro mult_right_mono; simp)+
  then have f: "1 - ?j \<le> ?f" "?f \<le> 1 + ?j" "0 \<le> ?f" using assms(4) by linarith+
  have eq: "backoffFor p attempt r = truncate_real (?b * ?f)"
    using True assms(3) by (auto simp: backoffFor_def plain_backoff_def Let_def min_def)
  have x: "0 \<le> ?b * ?f" "(1 - ?j) * ?b \<le> ?b * ?f" "?b * ?f \<le> (1 + ?j) * ?b"
    using b(1) f by (simp_all add: mult.commute mult_left_mono)
  have m: "(1 + ?j) * ?b \<le> (1 + ?j) * real_of_int (rp_MaxBackoff p)"
    using b(2) assms(3) by (intro mult_left_mono) simp_all
  show ?thesis using truncate_real_bounds [OF x(1)] x m unfolding eq by linarith
qed

theorem backoff_bounds_witness:
  "0 \<le> backoffFor DefaultRetryPolicy 3 (1 / 2)
   \<and> real_of_int (backoffFor DefaultRetryPolicy 3 (1 / 2)) \<le> 2500000000"
proof -
  have p: "plain_backoff DefaultRetryPolicy 3 = 2000000000"
    by (simp add: plain_backoff_def DefaultRetryPolicy_def second_def)
  show ?thesis
    using backoff_bounds [of "1 / 2" DefaultRetryPolicy 3] p by (simp add: DefaultRetryPolicy_def second_def)
qed

text \<open>The jitter is applied after the cap, so a wait can be longer than the maximum.\<close>

lemma backoff_exceeds_maximum: "rp_MaxBackoff DefaultRetryPolicy < backoffFor DefaultRetryPolicy 7 (9 / 10)"
  by (simp add: backoffFor_def DefaultRetryPolicy_def second_def truncate_real_def Let_def)

end
