(* ===== verification/Client_Preflight.thy ===== *)
theory Client_Preflight
  imports Client_Retry
begin

text \<open>
  The preflight check of the client library (\<^verbatim>\<open>preflight.go\<close>): the public address seen directly and
  through the proxy, each agreed on by two echo services, the comparison, and the loop that retries
  the check until its deadline.

  The echo services are asked in parallel; the model asks them in the order in which their answers
  arrive, given by \<open>pe_arrive\<close>, and \<open>pe_visit\<close> is the order in which the map of counts is visited.
  The JSON decoder is a parameter. The retry loop has no bound of its own and is a partial function.
\<close>

section \<open>The address of one echo service\<close>

record EchoResponse =
  er_StatusCode :: int
  er_Body :: "cerror + string"

record 'w PreflightEnv =
  pe_Pool :: "PoolRequest \<Rightarrow> 'w \<Rightarrow> (cerror + PoolResponse) \<times> 'w"
  pe_Direct :: "string \<Rightarrow> 'w \<Rightarrow> (cerror + EchoResponse) \<times> 'w"
  pe_Proxied :: "url \<Rightarrow> string \<Rightarrow> 'w \<Rightarrow> (cerror + EchoResponse) \<times> 'w"
  pe_json :: "string \<Rightarrow> string option"
  pe_arrive :: "string list \<Rightarrow> string list"
  pe_visit :: "string list \<Rightarrow> string list"

fun first_line :: "string list \<Rightarrow> string" where
  "first_line [] = []"
| "first_line (line # lines) =
     (let v = trim_space line in if v \<noteq> [] then v else first_line lines)"

definition parseIPEchoBody :: "(string \<Rightarrow> string option) \<Rightarrow> string \<Rightarrow> string" where
  "parseIPEchoBody json body =
     (let trimmed = trim_space body;
          lines = first_line (split_byte (CHR 0x0A) trimmed)
      in if has_prefix trimmed ''{''
         then (case json trimmed of Some ip \<Rightarrow> trim_space ip | None \<Rightarrow> lines)
         else lines)"

definition fetchPublicIPFromEndpoint ::
  "(string \<Rightarrow> string option) \<Rightarrow> (string \<Rightarrow> 'w \<Rightarrow> (cerror + EchoResponse) \<times> 'w) \<Rightarrow> string \<Rightarrow> 'w
     \<Rightarrow> (cerror + string) \<times> 'w" where
  "fetchPublicIPFromEndpoint json doer target w =
     (case doer target w of
        (Inl e, w) \<Rightarrow> (Inl e, w)
      | (Inr resp, w) \<Rightarrow>
          if er_StatusCode resp < 200 \<or> er_StatusCode resp \<ge> 300 then (Inl [ErrPreflightFailed], w)
          else case er_Body resp of
                 Inl e \<Rightarrow> (Inl e, w)
               | Inr body \<Rightarrow> (Inr (parseIPEchoBody json (take 4096 body)), w))"

section \<open>Agreement\<close>

fun fetch_all ::
  "(string \<Rightarrow> string option) \<Rightarrow> (string \<Rightarrow> 'w \<Rightarrow> (cerror + EchoResponse) \<times> 'w) \<Rightarrow> string list \<Rightarrow> 'w
     \<Rightarrow> (cerror + string) list \<times> 'w" where
  "fetch_all json doer [] w = ([], w)"
| "fetch_all json doer (endpoint # endpoints) w =
     (case fetchPublicIPFromEndpoint json doer endpoint w of
        (r, w) \<Rightarrow> (case fetch_all json doer endpoints w of (rs, w) \<Rightarrow> (r # rs, w)))"

fun tally ::
  "(cerror + string) list \<Rightarrow> (string \<times> nat) list \<Rightarrow> cerror option \<Rightarrow> (string \<times> nat) list \<times> cerror option" where
  "tally [] counts lastErr = (counts, lastErr)"
| "tally (Inl e # results) counts lastErr = tally results counts (Some e)"
| "tally (Inr ip # results) counts lastErr =
     tally results (AList.update ip (case map_of counts ip of None \<Rightarrow> 1 | Some n \<Rightarrow> n + 1) counts) lastErr"

definition fetchAgreedPublicIP ::
  "'w PreflightEnv \<Rightarrow> (string \<Rightarrow> 'w \<Rightarrow> (cerror + EchoResponse) \<times> 'w) \<Rightarrow> string list \<Rightarrow> 'w
     \<Rightarrow> (cerror + string) \<times> 'w" where
  "fetchAgreedPublicIP pe doer endpoints w =
     (let (results, w) = fetch_all (pe_json pe) doer (pe_arrive pe endpoints) w;
          (counts, lastErr) = tally results [] None
      in case find (\<lambda>ip. case map_of counts ip of None \<Rightarrow> False | Some n \<Rightarrow> n \<ge> 2)
                (pe_visit pe (map fst counts)) of
           Some ip \<Rightarrow> (Inr ip, w)
         | None \<Rightarrow>
             (case lastErr of
                Some e \<Rightarrow> (Inl e, w)
              | None \<Rightarrow> (Inl [ErrPreflightFailed], w)))"

section \<open>The check\<close>

definition fetchDirectIP :: "'w PreflightEnv \<Rightarrow> Client \<Rightarrow> 'w \<Rightarrow> (cerror + string) \<times> 'w" where
  "fetchDirectIP pe c w =
     (case fetchAgreedPublicIP pe (pe_Direct pe) (cl_ipEchoEndpoints c) w of
        (Inl e, w) \<Rightarrow> (Inl e, w)
      | (Inr ip, w) \<Rightarrow> if ip = [] then (Inl [ErrPreflightFailed], w) else (Inr ip, w))"

definition fetchProxiedIP :: "'w PreflightEnv \<Rightarrow> Client \<Rightarrow> 'w \<Rightarrow> (cerror + string) \<times> 'w" where
  "fetchProxiedIP pe c w =
     (case pe_Pool pe \<lparr> po_Country = cl_country c, po_ExcludeProxy = None, po_FallbackOK = False \<rparr> w of
        (Inl e, w) \<Rightarrow> (Inl e, w)
      | (Inr poolResp, w) \<Rightarrow>
          (case pp_ProxyURL poolResp of
             None \<Rightarrow> (Inl [ErrPreflightFailed], w)
           | Some proxyURL \<Rightarrow>
               (case fetchAgreedPublicIP pe (pe_Proxied pe proxyURL) (cl_ipEchoEndpoints c) w of
                  (Inl e, w) \<Rightarrow> (Inl e, w)
                | (Inr ip, w) \<Rightarrow> if ip = [] then (Inl [ErrPreflightFailed], w) else (Inr ip, w))))"

definition PreflightSanityCheck :: "'w PreflightEnv \<Rightarrow> Client \<Rightarrow> 'w \<Rightarrow> cerror option \<times> 'w" where
  "PreflightSanityCheck pe c w =
     (case fetchDirectIP pe c w of
        (Inl e, w) \<Rightarrow> (Some e, w)
      | (Inr directIP, w) \<Rightarrow>
          (case fetchProxiedIP pe c w of
             (Inl e, w) \<Rightarrow> (Some e, w)
           | (Inr proxiedIP, w) \<Rightarrow>
               if directIP = proxiedIP then (Some [ErrPreflightLeaked], w) else (None, w)))"

section \<open>The retry loop\<close>

definition preflightRetryBackoffStart :: duration where
  "preflightRetryBackoffStart = 5 * second"

definition preflightRetryBackoffMax :: duration where
  "preflightRetryBackoffMax = 30 * second"

definition preflightRetryDeadline :: duration where
  "preflightRetryDeadline = 10 * minute"

text \<open>\<open>check\<close> is the check under the deadline; \<open>wait\<close> is the \<^verbatim>\<open>select\<close> between the deadline and the timer,
  true if the timer fired. The result carries the number of attempts.\<close>

partial_function (option) preflight_loop ::
  "('w \<Rightarrow> cerror option \<times> 'w) \<Rightarrow> (duration \<Rightarrow> 'w \<Rightarrow> bool \<times> 'w) \<Rightarrow> nat \<Rightarrow> duration \<Rightarrow> 'w
     \<Rightarrow> (nat \<times> cerror option \<times> 'w) option" where
  "preflight_loop check wait attempt backoff w =
     (case check w of
        (None, w) \<Rightarrow> Some (attempt, None, w)
      | (Some err, w) \<Rightarrow>
          if errors_Is err ErrPreflightLeaked then Some (attempt, Some err, w)
          else if \<not> errors_Is err ErrEgressUnavailable \<and> \<not> errors_Is err ErrPreflightFailed
          then Some (attempt, Some err, w)
          else (case wait backoff w of
                  (fired, w) \<Rightarrow>
                    if \<not> fired then Some (attempt, Some err, w)
                    else preflight_loop check wait (attempt + 1)
                      (if backoff * 2 > preflightRetryBackoffMax then preflightRetryBackoffMax
                       else backoff * 2) w))"

definition PreflightSanityCheckWithRetry ::
  "'w PreflightEnv \<Rightarrow> (duration \<Rightarrow> 'w \<Rightarrow> bool \<times> 'w) \<Rightarrow> Client \<Rightarrow> 'w \<Rightarrow> (nat \<times> cerror option \<times> 'w) option" where
  "PreflightSanityCheckWithRetry pe wait c w =
     preflight_loop (PreflightSanityCheck pe c) wait 1 preflightRetryBackoffStart w"

section \<open>Fails closed\<close>

lemma tally_counts:
  "tally results counts lastErr = (counts', lastErr') \<Longrightarrow>
   (case map_of counts' ip of None \<Rightarrow> 0 | Some n \<Rightarrow> n) =
     (case map_of counts ip of None \<Rightarrow> 0 | Some n \<Rightarrow> n) + count_list results (Inr ip)"
  by (induction results counts lastErr rule: tally.induct)
    (auto simp: update_conv' split: option.splits if_splits)

definition quorum :: "(cerror + string) list \<Rightarrow> string \<Rightarrow> bool" where
  "quorum results ip \<longleftrightarrow> 2 \<le> count_list results (Inr ip)"

lemma tally_quorum:
  assumes "tally results [] None = (counts, lastErr)"
  shows "(case map_of counts ip of None \<Rightarrow> False | Some n \<Rightarrow> n \<ge> 2) \<longleftrightarrow> quorum results ip"
  using tally_counts [OF assms, of ip] by (auto simp: quorum_def split: option.splits)

text \<open>The visiting order names keys of the map, all of them.\<close>

definition visits :: "'w PreflightEnv \<Rightarrow> bool" where
  "visits pe \<longleftrightarrow> (\<forall>keys. set (pe_visit pe keys) = set keys)"

lemma fetchAgreed_cases:
  assumes "fetchAgreedPublicIP pe doer endpoints w = (res, w')" "visits pe"
  obtains results where "fetch_all (pe_json pe) doer (pe_arrive pe endpoints) w = (results, w')"
    "case res of Inr ip \<Rightarrow> quorum results ip | Inl e \<Rightarrow> \<not> (\<exists>ip. quorum results ip)"
proof -
  obtain results w1 where f: "fetch_all (pe_json pe) doer (pe_arrive pe endpoints) w = (results, w1)" by fastforce
  obtain counts lastErr where t: "tally results [] None = (counts, lastErr)" by fastforce
  note q = tally_quorum [OF t]
  have key: "ip \<in> set (map fst counts)" if "quorum results ip" for ip
  proof -
    have "map_of counts ip \<noteq> None" using that q [of ip] by (auto split: option.splits)
    then show ?thesis by (simp add: map_of_eq_None_iff)
  qed
  have r: "w' = w1" "res = (case find (\<lambda>ip. quorum results ip) (pe_visit pe (map fst counts)) of
      Some ip \<Rightarrow> Inr ip | None \<Rightarrow> Inl (case lastErr of Some e \<Rightarrow> e | None \<Rightarrow> [ErrPreflightFailed]))"
    using assms(1) unfolding fetchAgreedPublicIP_def f t q Let_def prod.case
    by (auto split: option.splits)
  have "case res of Inr ip \<Rightarrow> quorum results ip | Inl e \<Rightarrow> \<not> (\<exists>ip. quorum results ip)"
  proof (cases "find (\<lambda>ip. quorum results ip) (pe_visit pe (map fst counts))")
    case None
    then have "\<not> quorum results ip" for ip
      using key [of ip] assms(2) by (auto simp: find_None_iff visits_def)
    moreover have "res = Inl (case lastErr of Some e \<Rightarrow> e | None \<Rightarrow> [ErrPreflightFailed])"
      using None by (simp add: r(2))
    ultimately show ?thesis by simp
  next
    case (Some ip)
    then have "quorum results ip" by (auto simp: find_Some_iff)
    moreover have "res = Inr ip" using Some by (simp add: r(2))
    ultimately show ?thesis by simp
  qed
  with that f r(1) show thesis by blast
qed

definition agreement :: "(cerror + string) list \<Rightarrow> cerror + string \<Rightarrow> bool" where
  "agreement results res \<longleftrightarrow>
     (case res of
        Inr ip \<Rightarrow> ip \<noteq> [] \<and> quorum results ip
      | Inl e \<Rightarrow> quorum results [] \<or> \<not> (\<exists>ip. quorum results ip))"

lemma fetchDirectIP_agreement:
  assumes "fetchDirectIP pe c w = (res, w')" "visits pe"
  obtains ds where "fetch_all (pe_json pe) (pe_Direct pe) (pe_arrive pe (cl_ipEchoEndpoints c)) w = (ds, w')"
    "agreement ds res"
proof -
  obtain r w1 where a: "fetchAgreedPublicIP pe (pe_Direct pe) (cl_ipEchoEndpoints c) w = (r, w1)" by fastforce
  obtain ds where ds: "fetch_all (pe_json pe) (pe_Direct pe) (pe_arrive pe (cl_ipEchoEndpoints c)) w = (ds, w1)"
    "case r of Inr ip \<Rightarrow> quorum ds ip | Inl e \<Rightarrow> \<not> (\<exists>ip. quorum ds ip)"
    by (rule fetchAgreed_cases [OF a assms(2)])
  show thesis
    by (rule that [of ds])
      (use assms(1) a ds in \<open>auto simp: fetchDirectIP_def agreement_def split: sum.splits if_splits\<close>)
qed

lemma fetchProxiedIP_agreement:
  assumes "fetchProxiedIP pe c w = (res, w')" "visits pe"
    and "pe_Pool pe \<lparr> po_Country = cl_country c, po_ExcludeProxy = None, po_FallbackOK = False \<rparr> w = (Inr pr, w1)"
    and "pp_ProxyURL pr = Some u"
  obtains ps where "fetch_all (pe_json pe) (pe_Proxied pe u) (pe_arrive pe (cl_ipEchoEndpoints c)) w1 = (ps, w')"
    "agreement ps res"
proof -
  obtain r w2 where a: "fetchAgreedPublicIP pe (pe_Proxied pe u) (cl_ipEchoEndpoints c) w1 = (r, w2)" by fastforce
  obtain ps where ps: "fetch_all (pe_json pe) (pe_Proxied pe u) (pe_arrive pe (cl_ipEchoEndpoints c)) w1 = (ps, w2)"
    "case r of Inr ip \<Rightarrow> quorum ps ip | Inl e \<Rightarrow> \<not> (\<exists>ip. quorum ps ip)"
    by (rule fetchAgreed_cases [OF a assms(2)])
  show thesis
    by (rule that [of ps])
      (use assms(1,3,4) a ps in \<open>auto simp: fetchProxiedIP_def agreement_def split: sum.splits if_splits\<close>)
qed

lemma fetchProxiedIP_pool:
  assumes "fetchProxiedIP pe c w = (Inr ip, w')"
  obtains pr w1 u where
    "pe_Pool pe \<lparr> po_Country = cl_country c, po_ExcludeProxy = None, po_FallbackOK = False \<rparr> w = (Inr pr, w1)"
    "pp_ProxyURL pr = Some u"
  using assms by (auto simp: fetchProxiedIP_def split: prod.splits sum.splits option.splits)

text \<open>C26: the preflight check fails closed. It succeeds only if two echo services reported one address
  directly and two reported another one through the proxy that the pool had assigned, neither of
  them empty.\<close>

theorem preflight_fails_closed:
  assumes "visits pe" "PreflightSanityCheck pe c w = (None, w')"
  shows "\<exists>ds w1 pr w2 u ps d p.
     fetch_all (pe_json pe) (pe_Direct pe) (pe_arrive pe (cl_ipEchoEndpoints c)) w = (ds, w1)
     \<and> pe_Pool pe \<lparr> po_Country = cl_country c, po_ExcludeProxy = None, po_FallbackOK = False \<rparr> w1 = (Inr pr, w2)
     \<and> pp_ProxyURL pr = Some u
     \<and> fetch_all (pe_json pe) (pe_Proxied pe u) (pe_arrive pe (cl_ipEchoEndpoints c)) w2 = (ps, w')
     \<and> quorum ds d \<and> quorum ps p \<and> d \<noteq> [] \<and> p \<noteq> [] \<and> d \<noteq> p"
proof -
  obtain d w1 p where d: "fetchDirectIP pe c w = (Inr d, w1)" and p: "fetchProxiedIP pe c w1 = (Inr p, w')"
    and ne: "d \<noteq> p"
    using assms(2) by (auto simp: PreflightSanityCheck_def split: prod.splits sum.splits if_splits)
  obtain ds where ds: "fetch_all (pe_json pe) (pe_Direct pe) (pe_arrive pe (cl_ipEchoEndpoints c)) w = (ds, w1)"
    "agreement ds (Inr d)" by (rule fetchDirectIP_agreement [OF d assms(1)])
  obtain pr w2 u where u: "pe_Pool pe \<lparr> po_Country = cl_country c, po_ExcludeProxy = None, po_FallbackOK = False \<rparr> w1 =
      (Inr pr, w2)" "pp_ProxyURL pr = Some u" by (rule fetchProxiedIP_pool [OF p])
  obtain ps where ps: "fetch_all (pe_json pe) (pe_Proxied pe u) (pe_arrive pe (cl_ipEchoEndpoints c)) w2 = (ps, w')"
    "agreement ps (Inr p)" by (rule fetchProxiedIP_agreement [OF p assms(1) u])
  show ?thesis using ds u ps ne unfolding agreement_def sum.case by blast
qed

text \<open>a proxy that does not reroute is detected. If the echo services that agree, agree on the same
  non-empty address directly and through the assigned proxy, the check reports the leak.\<close>

theorem preflight_detects_leak:
  assumes "visits pe" "ip \<noteq> []"
    and "fetch_all (pe_json pe) (pe_Direct pe) (pe_arrive pe (cl_ipEchoEndpoints c)) w = (ds, w1)"
    and "pe_Pool pe \<lparr> po_Country = cl_country c, po_ExcludeProxy = None, po_FallbackOK = False \<rparr> w1 = (Inr pr, w2)"
    and "pp_ProxyURL pr = Some u"
    and "fetch_all (pe_json pe) (pe_Proxied pe u) (pe_arrive pe (cl_ipEchoEndpoints c)) w2 = (ps, w3)"
    and "{x. quorum ds x} = {ip}" "{x. quorum ps x} = {ip}"
  shows "PreflightSanityCheck pe c w = (Some [ErrPreflightLeaked], w3)"
proof -
  have q: "quorum ds x \<longleftrightarrow> x = ip" "quorum ps x \<longleftrightarrow> x = ip" for x using assms(7,8) by auto
  obtain r w1' where d: "fetchDirectIP pe c w = (r, w1')" by fastforce
  have "r = Inr ip" "w1' = w1"
    by (rule fetchDirectIP_agreement [OF d assms(1)],
        use assms(2,3) q in \<open>auto simp: agreement_def split: sum.splits\<close>)+
  moreover obtain r' w3' where p: "fetchProxiedIP pe c w1 = (r', w3')" by fastforce
  have "r' = Inr ip" "w3' = w3"
    by (rule fetchProxiedIP_agreement [OF p assms(1,4,5)],
        use assms(2,6) q in \<open>auto simp: agreement_def split: sum.splits\<close>)+
  ultimately show ?thesis using d p by (simp add: PreflightSanityCheck_def)
qed

definition demo_preflight :: "string \<Rightarrow> nat PreflightEnv" where
  "demo_preflight exit_ip =
     \<lparr> pe_Pool = (\<lambda>q w. (Inr \<lparr> pp_ProxyURL = Some (demo_proxy 0), pp_Pool = ''eu'', pp_ExitCountry = ''FR'', pp_ExitIP = [] \<rparr>, w)),
       pe_Direct = (\<lambda>target w. (Inr \<lparr> er_StatusCode = 200, er_Body = Inr ''1.1.1.1'' \<rparr>, w + 1)),
       pe_Proxied = (\<lambda>u target w. (Inr \<lparr> er_StatusCode = 200, er_Body = Inr exit_ip \<rparr>, w + 1)),
       pe_json = (\<lambda>_. None), pe_arrive = rev, pe_visit = id \<rparr>"

lemma demo_visits: "visits (demo_preflight ip)"
  by (simp add: visits_def demo_preflight_def)

lemma demo_echo:
  "parseIPEchoBody (\<lambda>_. None) ''1.1.1.1'' = ''1.1.1.1''" "parseIPEchoBody (\<lambda>_. None) ''2.2.2.2'' = ''2.2.2.2''"
  by code_simp+

lemmas demo_check = PreflightSanityCheck_def fetchDirectIP_def fetchProxiedIP_def fetchAgreedPublicIP_def
  fetchPublicIPFromEndpoint_def demo_preflight_def demo_client_def DefaultIPEchoEndpoints_def demo_echo

theorem preflight_fails_closed_witness:
  "\<exists>ds w1 d. PreflightSanityCheck (demo_preflight ''2.2.2.2'') demo_client 0 = (None, 4)
     \<and> fetch_all (\<lambda>_. None) (pe_Direct (demo_preflight ''2.2.2.2'')) (rev DefaultIPEchoEndpoints) 0 = (ds, w1)
     \<and> quorum ds d"
proof -
  have c: "PreflightSanityCheck (demo_preflight ''2.2.2.2'') demo_client 0 = (None, 4)"
    by (simp add: demo_check)
  have e: "pe_json (demo_preflight ip) = (\<lambda>_. None)" "pe_arrive (demo_preflight ip) = rev"
    "cl_ipEchoEndpoints demo_client = DefaultIPEchoEndpoints" for ip
    by (simp_all add: demo_preflight_def demo_client_def)
  show ?thesis using preflight_fails_closed [OF demo_visits c] c unfolding e by blast
qed

theorem preflight_detects_leak_witness:
  "PreflightSanityCheck (demo_preflight ''1.1.1.1'') demo_client 0 = (Some [ErrPreflightLeaked], 4)"
proof -
  have d: "fetch_all (pe_json (demo_preflight ip)) (pe_Direct (demo_preflight ip))
      (pe_arrive (demo_preflight ip) (cl_ipEchoEndpoints demo_client)) w =
      ([Inr ''1.1.1.1'', Inr ''1.1.1.1''], w + 2)" for ip w
    by (simp add: demo_check)
  have p: "fetch_all (pe_json (demo_preflight ''1.1.1.1'')) (pe_Proxied (demo_preflight ''1.1.1.1'') u)
      (pe_arrive (demo_preflight ''1.1.1.1'') (cl_ipEchoEndpoints demo_client)) w =
      ([Inr ''1.1.1.1'', Inr ''1.1.1.1''], w + 2)" for u w
    by (simp add: demo_check)
  have q: "{x. quorum [Inr ''1.1.1.1'', Inr ''1.1.1.1''] x} = {''1.1.1.1''}"
    by (auto simp: quorum_def split: if_splits)
  show ?thesis
    using preflight_detects_leak [OF demo_visits, of "''1.1.1.1''" "''1.1.1.1''" demo_client 0 _ 2 _ 2 "demo_proxy 0" _ 4]
      d [of "''1.1.1.1''" 0] p [of "demo_proxy 0" 2] q
    by (simp add: demo_preflight_def [of "''1.1.1.1''"] demo_client_def)
qed

section \<open>The retry loop ends\<close>

fun backoff_at :: "nat \<Rightarrow> duration" where
  "backoff_at 0 = preflightRetryBackoffStart"
| "backoff_at (Suc k) = min (backoff_at k * 2) preflightRetryBackoffMax"

definition waited :: "nat \<Rightarrow> duration" where
  "waited k = (\<Sum>i<k. backoff_at i)"

lemma backoff_at_eq:
  "backoff_at k = (if k = 0 then 5 * second else if k = 1 then 10 * second else if k = 2 then 20 * second else 30 * second)"
proof (induction k)
  case 0
  then show ?case by (simp add: preflightRetryBackoffStart_def)
next
  case (Suc k)
  then show ?case by (auto simp: preflightRetryBackoffMax_def second_def)
qed

lemma waited_bound: "waited (Suc k) \<le> preflightRetryDeadline \<Longrightarrow> k < 21"
proof -
  have "3 \<le> n \<Longrightarrow> waited n = 30 * second * int n - 55 * second" for n
  proof (induction n rule: dec_induct)
    case base
    then show ?case by (simp add: waited_def backoff_at_eq numeral_3_eq_3 second_def)
  next
    case (step n)
    then show ?case by (simp add: waited_def backoff_at_eq second_def)
  qed
  from this [of "Suc k"] show "waited (Suc k) \<le> preflightRetryDeadline \<Longrightarrow> k < 21"
    by (cases "3 \<le> Suc k") (simp_all add: preflightRetryDeadline_def minute_def second_def)
qed

text \<open>How the loop ends: after at most 22 attempts, with success, with an error that is not retried, or
  with the last error when the deadline came before the timer.\<close>

definition loop_ended :: "(duration \<Rightarrow> 'w \<Rightarrow> bool \<times> 'w) \<Rightarrow> (nat \<times> cerror option \<times> 'w) option \<Rightarrow> bool" where
  "loop_ended wait out \<longleftrightarrow>
     (\<exists>n res w'. out = Some (n, res, w') \<and> n \<le> 22
        \<and> (\<forall>e. res = Some e \<longrightarrow> errors_Is e ErrPreflightLeaked
             \<or> \<not> errors_Is e ErrEgressUnavailable \<and> \<not> errors_Is e ErrPreflightFailed
             \<or> (\<exists>d v. wait d v = (False, w'))))"

lemma loop_step:
  assumes "check w = (r, w1)" "wait backoff w1 = (fired, w2)" "n \<le> 22"
    and "fired \<Longrightarrow> loop_ended wait (preflight_loop check wait (n + 1)
      (if backoff * 2 > preflightRetryBackoffMax then preflightRetryBackoffMax else backoff * 2) w2)"
  shows "loop_ended wait (preflight_loop check wait n backoff w)"
proof (cases "\<exists>e. r = Some e \<and> \<not> errors_Is e ErrPreflightLeaked
    \<and> (errors_Is e ErrEgressUnavailable \<or> errors_Is e ErrPreflightFailed) \<and> fired")
  case True
  then have "preflight_loop check wait n backoff w = preflight_loop check wait (n + 1)
      (if backoff * 2 > preflightRetryBackoffMax then preflightRetryBackoffMax else backoff * 2) w2"
    using assms(1,2) by (subst preflight_loop.simps) auto
  moreover from True have fired by blast
  ultimately show ?thesis using assms(4) by metis
next
  case False
  have late: "\<exists>d v. wait d v = (False, w2)" if "\<not> fired"
    by (rule exI [of _ backoff], rule exI [of _ w1]) (use assms(2) that in simp)
  show ?thesis
    using assms(1-3) False late unfolding loop_ended_def
    by (subst preflight_loop.simps) (auto split: option.splits)
qed

lemma loop_ends:
  assumes check_clock: "\<And>w. clock w \<le> clock (snd (check w))"
    and wait_clock: "\<And>d w w'. wait d w = (True, w') \<Longrightarrow> clock w + d \<le> clock w' \<and> clock w + d \<le> deadline"
    and "deadline \<le> start + preflightRetryDeadline" "start + waited k \<le> clock w" "k \<le> 21"
  shows "loop_ended wait (preflight_loop check wait (Suc k) (backoff_at k) w)"
  using assms(4,5)
proof (induction "21 - k" arbitrary: k w rule: less_induct)
  case less
  obtain r w1 where c: "check w = (r, w1)" by fastforce
  obtain f w2 where f: "wait (backoff_at k) w1 = (f, w2)" by fastforce
  have "loop_ended wait (preflight_loop check wait (Suc k + 1) (backoff_at (Suc k)) w2)" if f
  proof -
    from that f have t: "clock w1 + backoff_at k \<le> clock w2" "clock w1 + backoff_at k \<le> deadline"
      using wait_clock [of "backoff_at k" w1 w2] by simp_all
    have "start + waited (Suc k) \<le> clock w1 + backoff_at k"
      using less.prems(1) check_clock [of w] c by (simp add: waited_def)
    then have "start + waited (Suc k) \<le> clock w2" "k < 21"
      using t assms(3) waited_bound [of k] by simp_all
    then show ?thesis using less.hyps [of "Suc k" w2] by simp
  qed
  moreover have "backoff_at (Suc k) =
      (if backoff_at k * 2 > preflightRetryBackoffMax then preflightRetryBackoffMax else backoff_at k * 2)"
    by simp
  ultimately show ?case
    using less.prems(2) by (intro loop_step [of check w r w1 wait "backoff_at k" f w2, OF c f]) simp_all
qed


definition demo_down :: "nat PreflightEnv" where
  "demo_down = (demo_preflight ''2.2.2.2'')\<lparr> pe_Pool := (\<lambda>q w. (Inl [ErrEgressUnavailable], w)) \<rparr>"

definition demo_wait :: "duration \<Rightarrow> nat \<Rightarrow> bool \<times> nat" where
  "demo_wait d w = (if int w + d \<le> preflightRetryDeadline then (True, w + nat d) else (False, w))"


end
