(* ===== verification/Tunnel_Client.thy ===== *)
theory Tunnel_Client
  imports Client_Preflight
begin

text \<open>
  The pool service of the client library over the control API (\<^verbatim>\<open>tunnelpool.go\<close>): the request to
  the controller, the mapping of its answers to errors, and the SOCKS5 URL of an assigned lease.

  Marshalling a request, sending it, and decoding the two kinds of answers are parameters; the
  timeout of the client is part of sending.
\<close>

record TunnelPoolClient =
  tp_baseURL :: string
  tp_poolID :: string
  tp_bearerToken :: string
  tp_timeout :: duration

definition WithPool :: "string \<Rightarrow> TunnelPoolClient \<Rightarrow> TunnelPoolClient" where
  "WithPool pool t = t\<lparr> tp_poolID := pool \<rparr>"

definition WithBearerToken :: "string \<Rightarrow> TunnelPoolClient \<Rightarrow> TunnelPoolClient" where
  "WithBearerToken token t = t\<lparr> tp_bearerToken := token \<rparr>"

definition NewTunnelPoolClient ::
  "string \<Rightarrow> duration \<Rightarrow> (TunnelPoolClient \<Rightarrow> TunnelPoolClient) list \<Rightarrow> TunnelPoolClient" where
  "NewTunnelPoolClient baseURL timeout opts =
     foldl (\<lambda>c opt. opt c)
       \<lparr> tp_baseURL = baseURL, tp_poolID = [], tp_bearerToken = [], tp_timeout = timeout \<rparr> opts"

record WireRequest =
  wq_Country :: string
  wq_Pool :: string
  wq_ExcludeProxy :: string
  wq_FallbackOK :: bool

record WireResponse =
  wr_SOCKS5 :: string
  wr_HTTP :: string
  wr_Pool :: string
  wr_ExitCountry :: string
  wr_ExitIP :: string

record ApiCall =
  ac_URL :: string
  ac_ContentType :: string
  ac_Authorization :: string
  ac_Body :: string

record 'w TunnelEnv =
  te_marshal :: "WireRequest \<Rightarrow> string option"
  te_validURL :: "string \<Rightarrow> bool"
  te_Do :: "ApiCall \<Rightarrow> 'w \<Rightarrow> (cerror + int \<times> (cerror + string)) \<times> 'w"
  te_errorCode :: "string \<Rightarrow> string option"
  te_decode :: "string \<Rightarrow> WireResponse option"
  te_lit :: "string \<Rightarrow> string option"

definition newProxyRequest :: "'w TunnelEnv \<Rightarrow> TunnelPoolClient \<Rightarrow> PoolRequest \<Rightarrow> cerror + ApiCall" where
  "newProxyRequest te c proxyRequest =
     (let wireRequest =
            \<lparr> wq_Country = (if tp_poolID c \<noteq> [] then [] else po_Country proxyRequest), wq_Pool = tp_poolID c,
              wq_ExcludeProxy = (case po_ExcludeProxy proxyRequest of None \<Rightarrow> [] | Some u \<Rightarrow> url_String u),
              wq_FallbackOK = po_FallbackOK proxyRequest \<rparr>;
          endpoint = tp_baseURL c @ ''/v1/proxies''
      in case te_marshal te wireRequest of
           None \<Rightarrow> Inl [ErrEgressUnavailable]
         | Some payload \<Rightarrow>
             if \<not> te_validURL te endpoint then Inl [ErrEgressUnavailable]
             else Inr \<lparr> ac_URL = endpoint, ac_ContentType = ''application/json'',
                        ac_Authorization = (if tp_bearerToken c \<noteq> [] then ''Bearer '' @ tp_bearerToken c else []),
                        ac_Body = payload \<rparr>)"

definition isPoolExhaustedResponse :: "'w TunnelEnv \<Rightarrow> int \<Rightarrow> string \<Rightarrow> bool" where
  "isPoolExhaustedResponse te statusCode body =
     (if statusCode \<noteq> 503 then False
      else case te_errorCode te body of None \<Rightarrow> False | Some code \<Rightarrow> code = ''SERVICE_UNAVAILABLE'')"

definition executeProxyRequest :: "'w TunnelEnv \<Rightarrow> ApiCall \<Rightarrow> 'w \<Rightarrow> (cerror + string) \<times> 'w" where
  "executeProxyRequest te call w =
     (case te_Do te call w of
        (Inl e, w) \<Rightarrow> (Inl [ErrEgressUnavailable], w)
      | (Inr (statusCode, Inl e), w) \<Rightarrow> (Inl [ErrEgressUnavailable], w)
      | (Inr (statusCode, Inr full), w) \<Rightarrow>
          let body = take 65536 full
          in if \<not> (statusCode \<ge> 200 \<and> statusCode < 300)
             then (Inl [if isPoolExhaustedResponse te statusCode body then Client_ErrPoolExhausted
                        else ErrEgressUnavailable], w)
             else (Inr body, w))"

definition doProxyRequest :: "'w TunnelEnv \<Rightarrow> TunnelPoolClient \<Rightarrow> PoolRequest \<Rightarrow> 'w \<Rightarrow> (cerror + string) \<times> 'w" where
  "doProxyRequest te c proxyRequest w =
     (case newProxyRequest te c proxyRequest of
        Inl e \<Rightarrow> (Inl e, w)
      | Inr call \<Rightarrow> executeProxyRequest te call w)"

definition parseTunnelPoolResponse :: "'w TunnelEnv \<Rightarrow> string \<Rightarrow> cerror + PoolResponse" where
  "parseTunnelPoolResponse te body =
     (case te_decode te body of
        None \<Rightarrow> Inl [ErrEgressUnavailable]
      | Some raw \<Rightarrow>
          if wr_SOCKS5 raw = [] then Inl [ErrEgressUnavailable]
          else case Parse (te_lit te) (wr_SOCKS5 raw) of
                 None \<Rightarrow> Inl [ErrEgressUnavailable]
               | Some proxyURL \<Rightarrow>
                   Inr \<lparr> pp_ProxyURL = Some proxyURL, pp_Pool = wr_Pool raw,
                         pp_ExitCountry = wr_ExitCountry raw, pp_ExitIP = wr_ExitIP raw \<rparr>)"

definition ProxyForCountry ::
  "'w TunnelEnv \<Rightarrow> TunnelPoolClient \<Rightarrow> PoolRequest \<Rightarrow> 'w \<Rightarrow> (cerror + PoolResponse) \<times> 'w" where
  "ProxyForCountry te c req w =
     (case doProxyRequest te c req w of
        (Inl e, w) \<Rightarrow> (Inl e, w)
      | (Inr body, w) \<Rightarrow> (parseTunnelPoolResponse te body, w))"

text \<open>The ellipsis is one character of three bytes.\<close>

definition truncateBody :: "string \<Rightarrow> nat \<Rightarrow> string" where
  "truncateBody s n = (if length s \<le> n then s else take n s @ [CHR 0xE2, CHR 0x80, CHR 0xA6])"

end
