(* ===== verification/Dot_Env.thy ===== *)
theory Dot_Env
  imports Config
begin

text \<open>
  The text side of the setup command (\<^verbatim>\<open>bootstrap.go\<close>): the checks of its options, the environment
  file it writes, the replacement of one value in such a file, and the reading of the API token from
  it. Absolute paths are resolved to the list of their components.
\<close>

section \<open>Paths\<close>

text \<open>
  The components of a path, with \<^verbatim>\<open>.\<close> and \<^verbatim>\<open>..\<close> resolved lexically as \<^verbatim>\<open>filepath.Clean\<close> does for
  absolute paths. The first argument is the reversed list of components so far.
\<close>

fun walk :: "string list \<Rightarrow> string list \<Rightarrow> string list" where
  "walk st [] = st"
| "walk st (c # cs) =
     (if c = '''' \<or> c = ''.'' then walk st cs
      else if c = ''..'' then walk (tl st) cs
      else walk (c # st) cs)"

definition components :: "string \<Rightarrow> string list" where
  "components path = rev (walk [] (split_byte CHR ''/'' path))"

definition Clean :: "string \<Rightarrow> string" where
  "Clean path = CHR ''/'' # join_byte CHR ''/'' (components path)"

definition Join :: "string \<Rightarrow> string \<Rightarrow> string" where
  "Join dir rel = Clean (dir @ CHR ''/'' # rel)"

definition checkedAbsolutePath :: "string \<Rightarrow> error + string" where
  "checkedAbsolutePath value =
     (let path = trim_space value
      in if path = '''' \<or> \<not> has_prefix path ''/'' then Inl ErrConfigInvalid
         else if CHR 0x0D \<in> set path \<or> CHR 0x0A \<in> set path then Inl ErrConfigInvalid
         else Inr (Clean path))"

definition checkedImageReference :: "string \<Rightarrow> error + string" where
  "checkedImageReference value =
     (let image = trim_space value
      in if image = '''' \<or> (\<exists>c \<in> set image. c \<in> {CHR 0x20, CHR 0x09, CHR 0x0D, CHR 0x0A}) then Inl ErrConfigInvalid
         else Inr image)"

text \<open>\<^verbatim>\<open>strconv.ParseUint\<close> with base 10 and 32 bits.\<close>

definition ParseUint32 :: "string \<Rightarrow> nat option" where
  "ParseUint32 s =
     (if s = [] \<or> \<not> list_all (\<lambda>c. CHR ''0'' \<le> c \<and> c \<le> CHR ''9'') s then None
      else let n = foldl (\<lambda>acc c. acc * 10 + (of_char c - 48)) 0 s
           in if n < 2 ^ 32 then Some n else None)"

text \<open>\<open>uid\<close> and \<open>gid\<close> are those of the process, in decimal.\<close>

definition checkedRuntimeUser :: "string \<Rightarrow> string \<Rightarrow> string \<Rightarrow> error + string" where
  "checkedRuntimeUser uid gid value =
     (let runtimeUser = trim_space value
      in if runtimeUser = '''' then Inr (uid @ CHR '':'' # gid)
         else (case cut_byte CHR '':'' runtimeUser of
           None \<Rightarrow> Inl ErrConfigInvalid
         | Some (u, g) \<Rightarrow>
             if u = '''' \<or> g = '''' \<or> CHR '':'' \<in> set g then Inl ErrConfigInvalid
             else if ParseUint32 u = None \<or> ParseUint32 g = None then Inl ErrConfigInvalid
             else Inr runtimeUser))"

section \<open>The environment file\<close>

definition apiTokenEnvName :: string where
  "apiTokenEnvName = ''PR0XTEUS_API_TOKEN''"

definition developmentControllerImage :: string where
  "developmentControllerImage = ''psyb0t/pr0xteus:dev''"

definition env_lines :: "string \<Rightarrow> string \<Rightarrow> string \<Rightarrow> string \<Rightarrow> bool \<Rightarrow> string list" where
  "env_lines hostConfigDir controllerImage runtimeUser apiToken development =
     [''# Generated by pr0xteus config init. Keep this file local.'',
      ''PR0XTEUS_CONFIG_DIR='' @ hostConfigDir,
      ''PR0XTEUS_CONTROLLER_IMAGE='' @ (if development then developmentControllerImage else controllerImage),
      ''PR0XTEUS_RUNTIME_USER='' @ runtimeUser,
      apiTokenEnvName @ ''='' @ apiToken,
      ''PR0XTEUS_HTTP_HOST_PORT=127.0.0.1:8000'',
      ''PR0XTEUS_METRICS_HOST_PORT=127.0.0.1:9091'',
      ''PR0XTEUS_SOCKS_HOST_PORT=127.0.0.1:1080'',
      ''PR0XTEUS_HTTP_PROXY_HOST_PORT=127.0.0.1:8080'',
      ''PR0XTEUS_SOCKS_PUBLIC_ADDRESS=127.0.0.1:1080'',
      ''PR0XTEUS_HTTP_PROXY_PUBLIC_ADDRESS=127.0.0.1:8080'',
      ''PR0XTEUS_DISABLE_HOST_PORTS=false'',
      ''PR0XTEUS_TAILSCALE_ENABLED=false'',
      ''TS_AUTHKEY='',
      ''TS_HOSTNAME=pr0xteus'',
      ''TS_EXTRA_ARGS=--accept-dns=false'',
      ''LOG_LEVEL=info'',
      ''LOG_FORMAT=json'',
      ''LOG_ADD_SOURCE=true'']"

definition renderEnvFile :: "string \<Rightarrow> string \<Rightarrow> string \<Rightarrow> string \<Rightarrow> bool \<Rightarrow> string" where
  "renderEnvFile hostConfigDir controllerImage runtimeUser apiToken development =
     join_byte CHR 0x0A (env_lines hostConfigDir controllerImage runtimeUser apiToken development) @ [CHR 0x0A]"

definition renderEnvExample :: "string \<Rightarrow> string \<Rightarrow> string \<Rightarrow> bool \<Rightarrow> string" where
  "renderEnvExample hostConfigDir controllerImage runtimeUser development =
     join_byte CHR 0x0A
      [''# This file is refreshed by pr0xteus setup and upgrade. Copy values into .env; .env is never overwritten.'',
       ''# Never commit .env, WireGuard bundles, routing policy, or the API token.'',
       '''',
       ''# Docker binds this absolute host directory into the controller at the same path.'',
       ''PR0XTEUS_CONFIG_DIR='' @ hostConfigDir,
       '''',
       ''# The controller runs as this host UID:GID so it can read the private'',
       ''# bind-mounted config without making provider files world-readable.'',
       ''PR0XTEUS_RUNTIME_USER='' @ runtimeUser,
       '''',
       ''# Required private controller bearer token. config init generates a random owner-only value in .env.'',
       apiTokenEnvName @ ''=REPLACE_ME'',
       '''',
       ''# Published controller image. setup and upgrade pin this automatically to a release.'',
       ''PR0XTEUS_CONTROLLER_IMAGE='' @ (if development then developmentControllerImage else controllerImage),
       '''',
       ''# Host-port bindings. Each value is HOST:PORT; defaults stay on host loopback.'',
       ''# Use a real protected host address when changing SOCKS_HOST_PORT: 0.0.0.0 is'',
       ''# valid for binding every interface but is not an address a client can use.'',
       ''PR0XTEUS_HTTP_HOST_PORT=127.0.0.1:8000'',
       ''PR0XTEUS_METRICS_HOST_PORT=127.0.0.1:9091'',
       ''PR0XTEUS_SOCKS_HOST_PORT=127.0.0.1:1080'',
       ''PR0XTEUS_HTTP_PROXY_HOST_PORT=127.0.0.1:8080'',
       '''',
       ''# Addresses returned in allocated proxy URLs. Keep them aligned with reachable'',
       ''# host ports; do not use 0.0.0.0 here.'',
       ''PR0XTEUS_SOCKS_PUBLIC_ADDRESS=127.0.0.1:1080'',
       ''PR0XTEUS_HTTP_PROXY_PUBLIC_ADDRESS=127.0.0.1:8080'',
       '''',
       ''# Set true to remove every pr0xteus host-port binding. Use this for the'',
       ''# Tailscale sidecar or another private Docker-network gateway.'',
       ''PR0XTEUS_DISABLE_HOST_PORTS=false'',
       '''',
       ''# Optional tailnet-only API. Set true and provide a key from your own tailnet.'',
       ''PR0XTEUS_TAILSCALE_ENABLED=false'',
       ''TS_AUTHKEY=your-tailscale-auth-key'',
       ''TS_HOSTNAME=pr0xteus'',
       ''TS_EXTRA_ARGS=--accept-dns=false'',
       '''',
       ''LOG_LEVEL=info'',
       ''LOG_FORMAT=json'',
       ''LOG_ADD_SOURCE=true''] @ [CHR 0x0A]"

subsection \<open>Replacing a value\<close>

definition sets_key :: "string \<Rightarrow> string \<Rightarrow> bool" where
  "sets_key key line \<longleftrightarrow>
     (case cut_byte CHR ''='' line of None \<Rightarrow> False | Some (lineKey, _) \<Rightarrow> trim_space lineKey = key)"

definition replaceDotEnvValue :: "string \<Rightarrow> string \<Rightarrow> string \<Rightarrow> string" where
  "replaceDotEnvValue contents key value =
     (let entry = key @ CHR ''='' # value;
          lines = split_byte CHR 0x0A contents;
          found = list_ex (sets_key key) lines;
          lines = map (\<lambda>line. if sets_key key line then entry else line) lines
      in join_byte CHR 0x0A
           (if found then lines
            else if last lines = '''' then butlast lines @ [entry, '''']
            else lines @ [entry, '''']))"

subsection \<open>Reading the token\<close>

text \<open>
  \<^verbatim>\<open>bufio.Scanner\<close>: lines without their end, a carriage return before it dropped, and an error on a
  line that does not fit its buffer.
\<close>

definition maxScanTokenSize :: nat where
  "maxScanTokenSize = 65536"

definition scanner_lines :: "string \<Rightarrow> string list" where
  "scanner_lines contents =
     (let lines = split_byte CHR 0x0A contents in if last lines = '''' then butlast lines else lines)"

definition drop_cr :: "string \<Rightarrow> string" where
  "drop_cr line = (if line \<noteq> [] \<and> last line = CHR 0x0D then butlast line else line)"

definition trim_quotes :: "string \<Rightarrow> string" where
  "trim_quotes s =
     (let quote = (\<lambda>c. c = CHR 0x22 \<or> c = CHR 0x27)
      in rev (dropWhile quote (rev (dropWhile quote s))))"

fun token_of_lines :: "string list \<Rightarrow> error + string" where
  "token_of_lines [] = Inl ErrConfigInvalid"
| "token_of_lines (l # ls) =
     (if length l \<ge> maxScanTokenSize then Inl (ErrOther ''token too long'')
      else
        let line = trim_space (drop_cr l)
        in if line = '''' \<or> has_prefix line ''#'' then token_of_lines ls
           else (case cut_byte CHR ''='' line of
             None \<Rightarrow> token_of_lines ls
           | Some (key, value) \<Rightarrow>
               if trim_space key \<noteq> apiTokenEnvName then token_of_lines ls
               else ValidateAPIToken (trim_quotes value)))"

text \<open>The file as far as it could be opened and read.\<close>

definition loadAPITokenFromDotEnv :: "(error + string) \<Rightarrow> error + string" where
  "loadAPITokenFromDotEnv file =
     (case file of Inl e \<Rightarrow> Inl e | Inr contents \<Rightarrow> token_of_lines (scanner_lines contents))"

definition randomTokenBytes :: nat where
  "randomTokenBytes = 32"

definition hex_lower :: "nat \<Rightarrow> char" where
  "hex_lower n = (if n < 10 then char_of (48 + n) else char_of (87 + n))"

definition hex_encode :: "string \<Rightarrow> string" where
  "hex_encode s = concat (map (\<lambda>c. [hex_lower (of_char c div 16), hex_lower (of_char c mod 16)]) s)"

definition newAPIToken :: "(nat \<Rightarrow> error + string) \<Rightarrow> error + string" where
  "newAPIToken rand =
     (case rand randomTokenBytes of Inl e \<Rightarrow> Inl e | Inr token \<Rightarrow> Inr (hex_encode token))"

section \<open>Splitting and joining\<close>

lemma split_byte_append: "split_byte c (a @ c # b) = split_byte c a @ split_byte c b"
  by (induction a) (auto split: list.splits)

lemma split_byte_single: "c \<notin> set a \<Longrightarrow> split_byte c a = [a]"
  by (induction a) auto

lemma split_byte_parts: "l \<in> set (split_byte c s) \<Longrightarrow> c \<notin> set l"
  by (induction s arbitrary: l) (auto split: list.splits if_splits)

lemma split_join: "ls \<noteq> [] \<Longrightarrow> \<forall>l \<in> set ls. c \<notin> set l \<Longrightarrow> split_byte c (join_byte c ls) = ls"
  by (induction c ls rule: join_byte.induct) (auto simp: split_byte_append split_byte_single)

lemma join_snoc: "ls \<noteq> [] \<Longrightarrow> join_byte c ls @ [c] = join_byte c (ls @ [[]])"
  by (induction c ls rule: join_byte.induct) auto

lemma cut_entry: "c \<notin> set a \<Longrightarrow> cut_byte c (a @ c # b) = Some (a, b)"
  by (simp add: cut_byte_def takeWhile_append)

section \<open>A value is replaced and nothing else\<close>

lemma sets_key_entry:
  "CHR ''='' \<notin> set key \<Longrightarrow> trim_space key = key \<Longrightarrow> sets_key key (key @ CHR ''='' # v)"
  by (simp add: sets_key_def cut_entry)

lemma sets_key_nonempty: "sets_key key line \<Longrightarrow> line \<noteq> []"
  by (auto simp: sets_key_def cut_byte_def)

lemma replaced_lines:
  assumes "CHR 0x0A \<notin> set key" "CHR 0x0A \<notin> set v"
  shows "split_byte CHR 0x0A (replaceDotEnvValue contents key v) =
    (let entry = key @ CHR ''='' # v; lines = split_byte CHR 0x0A contents in
     if list_ex (sets_key key) lines then map (\<lambda>line. if sets_key key line then entry else line) lines
     else if last lines = '''' then butlast lines @ [entry, ''''] else lines @ [entry, ''''])"
proof -
  let ?entry = "key @ CHR ''='' # v" and ?lines = "split_byte CHR 0x0A contents"
  have e: "CHR 0x0A \<notin> set ?entry" using assms by simp
  have l: "\<forall>line \<in> set ?lines. CHR 0x0A \<notin> set line" using split_byte_parts by blast
  have b: "\<forall>line \<in> set (butlast ?lines). CHR 0x0A \<notin> set line" using l in_set_butlastD by metis
  have same: "\<not> list_ex (sets_key key) ?lines \<Longrightarrow> map (\<lambda>line. if sets_key key line then ?entry else line) ?lines = ?lines"
    by (rule map_idI) (auto simp: list_ex_iff)
  show ?thesis
    unfolding replaceDotEnvValue_def Let_def
    by (subst split_join) (use e l b same in \<open>auto simp del: split_byte.simps\<close>)
qed

text \<open>replacing a value in an environment file sets exactly that key. Every line of the result that
  sets the key is the new entry, and there is one; the other lines that are not empty are the same as
  before, in the same order; and a second replacement changes nothing.\<close>

theorem dotenv_replaced:
  assumes "CHR 0x0A \<notin> set key" "CHR 0x0A \<notin> set v" "CHR ''='' \<notin> set key" "trim_space key = key"
  shows "let lines = split_byte CHR 0x0A contents;
             lines' = split_byte CHR 0x0A (replaceDotEnvValue contents key v)
         in (\<exists>line \<in> set lines'. sets_key key line)
            \<and> (\<forall>line \<in> set lines'. sets_key key line \<longrightarrow> line = key @ CHR ''='' # v)
            \<and> filter (\<lambda>line. \<not> sets_key key line \<and> line \<noteq> '''') lines' =
                filter (\<lambda>line. \<not> sets_key key line \<and> line \<noteq> '''') lines
            \<and> replaceDotEnvValue (replaceDotEnvValue contents key v) key v = replaceDotEnvValue contents key v"
proof -
  define entry where "entry = key @ CHR ''='' # v"
  define lines where "lines = split_byte CHR 0x0A contents"
  define lines' where "lines' = split_byte CHR 0x0A (replaceDotEnvValue contents key v)"
  have ne: "lines \<noteq> []" by (simp add: lines_def)
  have entry: "sets_key key entry" using sets_key_entry assms(3,4) by (simp add: entry_def)
  have l': "lines' = (if list_ex (sets_key key) lines then map (\<lambda>line. if sets_key key line then entry else line) lines
     else if last lines = '''' then butlast lines @ [entry, ''''] else lines @ [entry, ''''])"
    unfolding lines'_def lines_def entry_def using replaced_lines [OF assms(1,2)] by (simp add: Let_def)
  have some: "\<exists>line \<in> set lines'. sets_key key line" using entry by (auto simp: l' list_ex_iff)
  have empty: "\<not> sets_key key ''''" using sets_key_nonempty by blast
  have old: "line \<in> set lines" if "line \<in> set (butlast lines)" for line using that by (rule in_set_butlastD)
  have all: "\<forall>line \<in> set lines'. sets_key key line \<longrightarrow> line = entry"
    using empty old by (auto simp: l' list_ex_iff)
  have "filter (\<lambda>line. \<not> sets_key key line \<and> line \<noteq> '''') (map (\<lambda>line. if sets_key key line then entry else line) ls) =
      filter (\<lambda>line. \<not> sets_key key line \<and> line \<noteq> '''') ls" for ls
    using entry by (induction ls) auto
  moreover have "filter P (butlast lines) = filter P lines" if "last lines = ''''" "\<not> P ''''" for P
    using that append_butlast_last_id [OF ne] filter_append [of P "butlast lines" "[last lines]"] by simp
  ultimately have rest: "filter (\<lambda>line. \<not> sets_key key line \<and> line \<noteq> '''') lines' =
      filter (\<lambda>line. \<not> sets_key key line \<and> line \<noteq> '''') lines"
    using entry by (simp add: l')
  have "map (\<lambda>line. if sets_key key line then entry else line) lines' = lines'"
    using all by (intro map_idI) auto
  then have "replaceDotEnvValue (replaceDotEnvValue contents key v) key v = join_byte CHR 0x0A lines'"
    using some unfolding replaceDotEnvValue_def [of "replaceDotEnvValue contents key v"] lines'_def [symmetric]
    by (auto simp: Let_def entry_def [symmetric] list_ex_iff)
  then have "replaceDotEnvValue (replaceDotEnvValue contents key v) key v = replaceDotEnvValue contents key v"
    by (simp add: lines'_def)
  then show ?thesis
    using some all rest unfolding lines_def lines'_def entry_def Let_def by blast
qed

theorem dotenv_replaced_witness:
  "replaceDotEnvValue (''A=1'' @ [CHR 0x0A] @ ''B=2'' @ [CHR 0x0A]) ''A'' ''3'' = ''A=3'' @ [CHR 0x0A] @ ''B=2'' @ [CHR 0x0A]
   \<and> replaceDotEnvValue (replaceDotEnvValue ''B=2'' ''A'' ''3'') ''A'' ''3'' = replaceDotEnvValue ''B=2'' ''A'' ''3''"
proof -
  have "trim_space ''A'' = ''A''" by code_simp
  then have "replaceDotEnvValue (replaceDotEnvValue ''B=2'' ''A'' ''3'') ''A'' ''3'' = replaceDotEnvValue ''B=2'' ''A'' ''3''"
    using dotenv_replaced [of "''A''" "''3''" "''B=2''"] by (simp add: Let_def)
  moreover have "replaceDotEnvValue (''A=1'' @ [CHR 0x0A] @ ''B=2'' @ [CHR 0x0A]) ''A'' ''3''
      = ''A=3'' @ [CHR 0x0A] @ ''B=2'' @ [CHR 0x0A]"
    by code_simp
  ultimately show ?thesis by blast
qed

section \<open>The token that was written is the token that is read\<close>

text \<open>Printable ASCII characters: none of them occurs in the encoding of a white space character.\<close>

definition printable :: "char \<Rightarrow> bool" where
  "printable c \<longleftrightarrow> CHR ''!'' \<le> c \<and> c \<le> CHR ''~''"

lemma printable_space: "printable c \<Longrightarrow> w \<in> set utf8_spaces \<Longrightarrow> c \<notin> set w"
proof -
  have "list_all (\<lambda>w. list_all (\<lambda>c. \<not> printable c) w) utf8_spaces" by code_simp
  then show "printable c \<Longrightarrow> w \<in> set utf8_spaces \<Longrightarrow> c \<notin> set w" by (auto simp: list_all_iff)
qed

lemma strip_front_stop:
  "(\<And>w. w \<in> set ws \<Longrightarrow> c \<notin> set w) \<Longrightarrow> \<exists>x'. strip_front ws (x @ c # y) = x' @ c # y"
proof (induction "length x" arbitrary: x rule: less_induct)
  case less
  show ?case
  proof (cases "find (\<lambda>w. w \<noteq> [] \<and> has_prefix (x @ c # y) w) ws")
    case None
    then show ?thesis by (auto simp: strip_front_id)
  next
    case (Some w)
    then have w: "w \<in> set ws" "w \<noteq> []" "has_prefix (x @ c # y) w"
      by (auto simp: find_Some_iff)
    have "length w \<le> length x"
    proof (rule ccontr)
      assume "\<not> length w \<le> length x"
      then have "take (length w) (x @ c # y) = x @ c # take (length w - Suc (length x)) y"
        by (simp add: take_Cons')
      then have "c \<in> set w" using w(3) unfolding has_prefix_def by (metis in_set_conv_decomp)
      with less.prems w(1) show False by blast
    qed
    then have d: "drop (length w) (x @ c # y) = drop (length w) x @ c # y" by simp
    have "length (drop (length w) x) < length x" using w(2) \<open>length w \<le> length x\<close> by (cases w) auto
    moreover have "strip_front ws (x @ c # y) = strip_front ws (drop (length w) x @ c # y)"
      by (subst strip_front.simps) (simp only: Some option.case d)
    ultimately show ?thesis using less.hyps [OF _ less.prems, of "drop (length w) x"] by simp
  qed
qed

lemma trim_left_printable: "printable c \<Longrightarrow> trim_left (c # s) = c # s"
  unfolding trim_left_def
  by (rule strip_front_id) (use printable_space in \<open>fastforce simp: find_None_iff has_prefix_append Cons_eq_append_conv\<close>)

lemma trim_right_keeps: "printable c \<Longrightarrow> \<exists>v'. trim_right (a @ c # v) = a @ c # v'"
proof -
  assume c: "printable c"
  have "c \<notin> set w" if "w \<in> set (map rev utf8_spaces)" for w using that printable_space [OF c] by auto
  then obtain x where "strip_front (map rev utf8_spaces) (rev v @ c # rev a) = x @ c # rev a"
    using strip_front_stop by blast
  then have "trim_right (a @ c # v) = a @ c # rev x" by (simp add: trim_right_def)
  then show ?thesis by blast
qed

lemma trim_space_printable:
  assumes "list_all printable s"
  shows "trim_space s = s"
proof (cases s rule: rev_cases)
  case Nil
  have "trim_space [] = []" by code_simp
  with Nil show ?thesis by simp
next
  case (snoc a c)
  then obtain v' where v: "trim_right s = a @ c # v'" using trim_right_keeps [of c a "[]"] assms by auto
  moreover obtain r where "s = trim_right s @ r" using trim_right_prefix by blast
  ultimately have "trim_right s = s" using snoc by simp
  moreover have "trim_left s = s" using snoc assms by (cases a) (auto simp: trim_left_printable)
  ultimately show ?thesis by (simp add: trim_space_def)
qed

text \<open>A line that sets another key is passed over, whatever its value.\<close>

lemma skip_line:
  assumes "list_all printable key" "key \<noteq> []" "hd key \<noteq> CHR ''#''" "CHR ''='' \<notin> set key" "key \<noteq> apiTokenEnvName"
    and "length key + length v < maxScanTokenSize - 1"
  shows "token_of_lines ((key @ CHR ''='' # v) # ls) = token_of_lines ls"
proof -
  have eq: "printable CHR ''=''" by code_simp
  define v1 where "v1 = drop_cr v"
  have v1: "drop_cr (key @ CHR ''='' # v) = key @ CHR ''='' # v1"
    by (cases "v = []") (auto simp: v1_def drop_cr_def butlast_append)
  obtain v2 where "trim_right (key @ CHR ''='' # v1) = key @ CHR ''='' # v2" using trim_right_keeps [OF eq] by blast
  moreover have "trim_left (key @ CHR ''='' # v1) = key @ CHR ''='' # v1"
    using assms(1,2) by (cases key) (auto simp: trim_left_printable)
  ultimately have line: "trim_space (drop_cr (key @ CHR ''='' # v)) = key @ CHR ''='' # v2"
    by (simp add: trim_space_def v1)
  have "\<not> has_prefix (key @ CHR ''='' # v2) ''#''" using assms(2,3) by (cases key) (auto simp: has_prefix_def)
  then show ?thesis
    using assms(1,2,4-6) line by (simp add: Let_def cut_entry trim_space_printable maxScanTokenSize_def)
qed

lemma hex_encode_printable: "list_all printable (hex_encode s)" "length (hex_encode s) = 2 * length s"
  "CHR 0x22 \<notin> set (hex_encode s)" "CHR 0x27 \<notin> set (hex_encode s)"
proof -
  have h: "printable (hex_lower n) \<and> hex_lower n \<noteq> CHR 0x22 \<and> hex_lower n \<noteq> CHR 0x27" if "n < 16" for n
  proof -
    have "48 \<le> (of_char (hex_lower n) :: nat)" "(of_char (hex_lower n) :: nat) \<le> 102"
      using that by (auto simp: hex_lower_def)
    then show ?thesis by (auto simp: printable_def char_le_nat)
  qed
  have b: "(of_char c :: nat) div 16 < 16" "(of_char c :: nat) mod 16 < 16" for c
    using of_char_of [of "of_char c :: nat"] by (cases c; simp add: of_char_def)+
  have "list_all (\<lambda>c. printable c \<and> c \<noteq> CHR 0x22 \<and> c \<noteq> CHR 0x27) (hex_encode s)"
    by (induction s) (simp_all add: hex_encode_def h b)
  then show "list_all printable (hex_encode s)" "CHR 0x22 \<notin> set (hex_encode s)" "CHR 0x27 \<notin> set (hex_encode s)"
    by (auto simp: list_all_iff)
  show "length (hex_encode s) = 2 * length s" by (induction s) (simp_all add: hex_encode_def)
qed

lemma trim_quotes_none: "CHR 0x22 \<notin> set s \<Longrightarrow> CHR 0x27 \<notin> set s \<Longrightarrow> trim_quotes s = s"
proof -
  have d: "dropWhile (\<lambda>c. c = CHR 0x22 \<or> c = CHR 0x27) r = r" if "CHR 0x22 \<notin> set r" "CHR 0x27 \<notin> set r" for r
    using that by (cases r) auto
  show "CHR 0x22 \<notin> set s \<Longrightarrow> CHR 0x27 \<notin> set s \<Longrightarrow> trim_quotes s = s"
    by (simp add: trim_quotes_def Let_def d)
qed

lemma token_line:
  assumes "list_all printable token" "CHR 0x22 \<notin> set token" "CHR 0x27 \<notin> set token" "0 < length token" "length token \<le> 4096"
  shows "token_of_lines ((apiTokenEnvName @ ''='' @ token) # ls) = Inr token"
proof -
  let ?l = "apiTokenEnvName @ ''='' @ token"
  have name: "list_all printable apiTokenEnvName" "printable CHR ''=''" "\<not> printable CHR 0x0D"
    "CHR ''='' \<notin> set apiTokenEnvName" "length apiTokenEnvName = 18" "\<not> has_prefix apiTokenEnvName ''#''"
    by code_simp+
  then have p: "list_all printable ?l" using assms(1) by simp
  have "last ?l \<in> set ?l" by (rule last_in_set) simp
  then have "last ?l \<noteq> CHR 0x0D" using p name(3) unfolding list_all_iff by metis
  then have line: "trim_space (drop_cr ?l) = ?l" using trim_space_printable [OF p] by (simp add: drop_cr_def)
  have "\<not> has_prefix ?l ''#''" using name(6) by (simp add: has_prefix_def apiTokenEnvName_def)
  moreover have "cut_byte CHR ''='' ?l = Some (apiTokenEnvName, token)" using cut_entry [OF name(4)] by simp
  moreover have "?l \<noteq> []" by simp
  ultimately show ?thesis
    using assms name(1,5) line
    by (simp add: Let_def trim_space_printable trim_quotes_none ValidateAPIToken_def maxAPITokenBytes_def maxScanTokenSize_def)
qed

lemma scanner_lines_render:
  assumes "ls \<noteq> []" "\<forall>l \<in> set ls. CHR 0x0A \<notin> set l"
  shows "scanner_lines (join_byte CHR 0x0A ls @ [CHR 0x0A]) = ls"
proof -
  have "split_byte CHR 0x0A (join_byte CHR 0x0A ls @ [CHR 0x0A]) = ls @ [[]]"
    unfolding join_snoc [OF assms(1)] using assms(2) by (intro split_join) auto
  then show ?thesis by (simp add: scanner_lines_def)
qed

lemma printable_no_newline: "list_all printable s \<Longrightarrow> CHR 0x0A \<notin> set s"
proof -
  have "\<not> printable CHR 0x0A" by code_simp
  then show "list_all printable s \<Longrightarrow> CHR 0x0A \<notin> set s" by (auto simp: list_all_iff)
qed

lemma env_lines_plain:
  assumes "CHR 0x0A \<notin> set host" "CHR 0x0A \<notin> set img" "CHR 0x0A \<notin> set user" "CHR 0x0A \<notin> set token"
  shows "\<forall>l \<in> set (env_lines host img user token development). CHR 0x0A \<notin> set l"
  using assms by (simp add: env_lines_def developmentControllerImage_def apiTokenEnvName_def)

lemma env_lines_head:
  assumes "length host < 65000" "length img < 65000" "length user < 65000"
  shows "token_of_lines (env_lines host img user token development) =
    token_of_lines ((apiTokenEnvName @ ''='' @ token) # drop 5 (env_lines host img user token development))"
proof -
  have keys: "list_all printable k \<and> k \<noteq> [] \<and> hd k \<noteq> CHR ''#'' \<and> CHR ''='' \<notin> set k \<and> k \<noteq> apiTokenEnvName \<and> length k < 500"
    if "k \<in> {''PR0XTEUS_CONFIG_DIR'', ''PR0XTEUS_CONTROLLER_IMAGE'', ''PR0XTEUS_RUNTIME_USER''}" for k
    using that by (elim insertE emptyE; simp only:) code_simp+
  have skip: "token_of_lines ((k @ CHR ''='' # v) # ls) = token_of_lines ls"
    if "k \<in> {''PR0XTEUS_CONFIG_DIR'', ''PR0XTEUS_CONTROLLER_IMAGE'', ''PR0XTEUS_RUNTIME_USER''}" "length v < 65000" for k v ls
    using keys [OF that(1)] that(2) by (intro skip_line) (auto simp: maxScanTokenSize_def)
  have comment: "token_of_lines (''# Generated by pr0xteus config init. Keep this file local.'' # ls) = token_of_lines ls" for ls
  proof -
    let ?c = "''# Generated by pr0xteus config init. Keep this file local.''"
    have "trim_space (drop_cr ?c) = ?c" "has_prefix ?c ''#''" by code_simp+
    moreover have "length ?c < maxScanTokenSize" by (simp add: maxScanTokenSize_def)
    ultimately show ?thesis by (simp add: Let_def)
  qed
  have image: "length (if development then developmentControllerImage else img) < 65000"
    using assms(2) by (simp add: developmentControllerImage_def)
  have "env_lines host img user token development =
      ''# Generated by pr0xteus config init. Keep this file local.'' # (''PR0XTEUS_CONFIG_DIR'' @ CHR ''='' # host)
      # (''PR0XTEUS_CONTROLLER_IMAGE'' @ CHR ''='' # (if development then developmentControllerImage else img))
      # (''PR0XTEUS_RUNTIME_USER'' @ CHR ''='' # user) # (apiTokenEnvName @ ''='' @ token)
      # drop 5 (env_lines host img user token development)"
    by (simp add: env_lines_def)
  then have "token_of_lines (env_lines host img user token development) = token_of_lines
      (''# Generated by pr0xteus config init. Keep this file local.'' # (''PR0XTEUS_CONFIG_DIR'' @ CHR ''='' # host)
      # (''PR0XTEUS_CONTROLLER_IMAGE'' @ CHR ''='' # (if development then developmentControllerImage else img))
      # (''PR0XTEUS_RUNTIME_USER'' @ CHR ''='' # user) # (apiTokenEnvName @ ''='' @ token)
      # drop 5 (env_lines host img user token development))"
    by (rule arg_cong)
  also have "\<dots> = token_of_lines ((apiTokenEnvName @ ''='' @ token) # drop 5 (env_lines host img user token development))"
    unfolding comment by (subst skip [OF _ assms(1)], simp, subst skip [OF _ image], simp, subst skip [OF _ assms(3)], simp, rule refl)
  finally show ?thesis .
qed

text \<open>the token that the setup command generates and writes to a new environment file is the one that
  is read from that file and accepted by the controller, for every configuration directory, image and
  user that contain no line break and fit the line buffer of the reader.\<close>

theorem token_read_back:
  assumes "newAPIToken rand = Inr token" "\<And>bytes. rand randomTokenBytes = Inr bytes \<Longrightarrow> length bytes = randomTokenBytes"
    and "CHR 0x0A \<notin> set host" "CHR 0x0A \<notin> set img" "CHR 0x0A \<notin> set user"
    and "length host < 65000" "length img < 65000" "length user < 65000"
  shows "loadAPITokenFromDotEnv (Inr (renderEnvFile host img user token development)) = Inr token
    \<and> length token = 64"
proof -
  obtain bytes where b: "rand randomTokenBytes = Inr bytes" "token = hex_encode bytes"
    using assms(1) by (auto simp: newAPIToken_def split: sum.splits)
  then have len: "length token = 64" using assms(2) by (simp add: hex_encode_printable(2) randomTokenBytes_def)
  have tok: "token_of_lines ((apiTokenEnvName @ ''='' @ token) # ls) = Inr token" for ls
    using len hex_encode_printable(1,3,4) unfolding b(2) by (intro token_line) simp_all
  have "CHR 0x0A \<notin> set token" using printable_no_newline hex_encode_printable(1) b(2) by blast
  note plain = env_lines_plain [OF assms(3-5) this, of development]
  have "token_of_lines (env_lines host img user token development) = Inr token"
    unfolding env_lines_head [OF assms(6-8)] by (rule tok)
  moreover have "scanner_lines (renderEnvFile host img user token development) = env_lines host img user token development"
    unfolding renderEnvFile_def by (rule scanner_lines_render [OF _ plain]) (simp add: env_lines_def)
  ultimately show ?thesis using len by (simp add: loadAPITokenFromDotEnv_def)
qed

theorem token_read_back_witness:
  "loadAPITokenFromDotEnv (Inr (renderEnvFile ''/etc/pr0xteus'' ''img'' ''0:0'' (hex_encode (replicate 32 CHR ''k'')) False))
     = Inr (hex_encode (replicate 32 CHR ''k''))"
proof -
  have "newAPIToken (\<lambda>n. Inr (replicate n CHR ''k'')) = Inr (hex_encode (replicate 32 CHR ''k''))"
    by (simp add: newAPIToken_def randomTokenBytes_def)
  from token_read_back [OF this, of "''/etc/pr0xteus''" "''img''" "''0:0''" False] show ?thesis
    by auto
qed

end
