(* ===== verification/Bootstrap.thy ===== *)
theory Bootstrap
  imports Dot_Env Pool_Specs Routing
begin

text \<open>
  The setup command (\<^verbatim>\<open>bootstrap.go\<close>) on a file system: creating the private directories, writing the
  starter files without replacing what is there, refreshing the generated ones by an atomic rename,
  updating one value of the environment file, and checking a configuration. Every call of the
  operating system may fail.
\<close>

section \<open>The file system\<close>

text \<open>
  A file system maps the components of absolute paths to nodes; \<open>Other\<close> is a symbolic link or another
  node that is neither a directory nor a regular file. No directory of the configuration is reached
  under two names. A call takes one tick, and \<open>fl_fails\<close> says at which ticks calls fail. A write that
  fails leaves \<open>fl_partial\<close> bytes, a directory creation that fails leaves that many levels.
\<close>

datatype node = Dir nat | File nat string | Other

record disk =
  dk_fs :: "string list \<rightharpoonup> node"
  dk_tick :: nat

record faults =
  fl_fails :: "nat \<Rightarrow> bool"
  fl_partial :: "nat \<Rightarrow> nat"
  fl_umask :: "nat \<Rightarrow> nat"
  fl_temp :: "nat \<Rightarrow> string"

definition errNotExist :: error where
  "errNotExist = ErrOther ''file does not exist''"

definition errIO :: error where
  "errIO = ErrOther ''input/output error''"

definition put :: "string list \<Rightarrow> node option \<Rightarrow> disk \<Rightarrow> disk" where
  "put p n s = s\<lparr> dk_fs := (dk_fs s)(p := n) \<rparr>"

definition next_tick :: "disk \<Rightarrow> disk" where
  "next_tick s = s\<lparr> dk_tick := Suc (dk_tick s) \<rparr>"

definition os_Lstat :: "faults \<Rightarrow> string \<Rightarrow> disk \<Rightarrow> (error + node) \<times> disk" where
  "os_Lstat fl path s =
     ((if fl_fails fl (dk_tick s) then Inl errIO
       else case dk_fs s (components path) of None \<Rightarrow> Inl errNotExist | Some n \<Rightarrow> Inr n), next_tick s)"

definition is_file :: "node option \<Rightarrow> bool" where
  "is_file n \<longleftrightarrow> (case n of Some (File _ _) \<Rightarrow> True | _ \<Rightarrow> False)"

definition os_MkdirAll :: "faults \<Rightarrow> string \<Rightarrow> nat \<Rightarrow> disk \<Rightarrow> error option \<times> disk" where
  "os_MkdirAll fl path mode s =
     (let cs = components path;
          levels = map (\<lambda>k. take k cs) [0..<Suc (length cs)];
          failed = fl_fails fl (dk_tick s);
          made = (if failed then take (fl_partial fl (dk_tick s)) levels else levels)
      in if list_ex (\<lambda>p. is_file (dk_fs s p)) levels then (Some errIO, next_tick s)
         else (if failed then Some errIO else None,
               next_tick (s\<lparr> dk_fs := (\<lambda>p. if dk_fs s p = None \<and> p \<in> set made then Some (Dir (fl_umask fl mode))
                                            else dk_fs s p) \<rparr>)))"

definition os_Chmod :: "faults \<Rightarrow> string list \<Rightarrow> nat \<Rightarrow> disk \<Rightarrow> error option \<times> disk" where
  "os_Chmod fl p mode s =
     (if fl_fails fl (dk_tick s) then (Some errIO, next_tick s)
      else case dk_fs s p of
        None \<Rightarrow> (Some errNotExist, next_tick s)
      | Some (Dir _) \<Rightarrow> (None, next_tick (put p (Some (Dir mode)) s))
      | Some (File _ c) \<Rightarrow> (None, next_tick (put p (Some (File mode c)) s))
      | Some Other \<Rightarrow> (None, next_tick s))"

text \<open>Opening with \<^verbatim>\<open>O_CREATE\<close> and \<^verbatim>\<open>O_EXCL\<close>: the path must be new and its directory must be there.\<close>

definition os_Create :: "faults \<Rightarrow> string list \<Rightarrow> nat \<Rightarrow> disk \<Rightarrow> error option \<times> disk" where
  "os_Create fl p mode s =
     (if fl_fails fl (dk_tick s) \<or> dk_fs s p \<noteq> None \<or> p = [] \<or> dk_fs s (butlast p) = None \<or> is_file (dk_fs s (butlast p))
      then (Some errIO, next_tick s)
      else (None, next_tick (put p (Some (File (fl_umask fl mode) [])) s)))"

definition file_Write :: "faults \<Rightarrow> string list \<Rightarrow> string \<Rightarrow> disk \<Rightarrow> error option \<times> disk" where
  "file_Write fl p contents s =
     (case dk_fs s p of
        Some (File mode c) \<Rightarrow>
          if fl_fails fl (dk_tick s)
          then (Some errIO, next_tick (put p (Some (File mode (c @ take (fl_partial fl (dk_tick s)) contents))) s))
          else (None, next_tick (put p (Some (File mode (c @ contents))) s))
      | _ \<Rightarrow> (Some errIO, next_tick s))"

definition file_Close :: "faults \<Rightarrow> disk \<Rightarrow> error option \<times> disk" where
  "file_Close fl s = (if fl_fails fl (dk_tick s) then Some errIO else None, next_tick s)"

definition os_ReadFile :: "faults \<Rightarrow> string \<Rightarrow> disk \<Rightarrow> (error + string) \<times> disk" where
  "os_ReadFile fl path s =
     ((if fl_fails fl (dk_tick s) then Inl errIO
       else case dk_fs s (components path) of Some (File _ c) \<Rightarrow> Inr c | _ \<Rightarrow> Inl errIO), next_tick s)"

definition os_Rename :: "faults \<Rightarrow> string list \<Rightarrow> string list \<Rightarrow> disk \<Rightarrow> error option \<times> disk" where
  "os_Rename fl old new s =
     (if fl_fails fl (dk_tick s) then (Some errIO, next_tick s)
      else case (dk_fs s old, dk_fs s new) of
        (None, _) \<Rightarrow> (Some errNotExist, next_tick s)
      | (_, Some (Dir _)) \<Rightarrow> (Some errIO, next_tick s)
      | (Some n, _) \<Rightarrow> (None, next_tick (put new (Some n) (put old None s))))"

definition os_Remove :: "faults \<Rightarrow> string list \<Rightarrow> disk \<Rightarrow> disk" where
  "os_Remove fl p s = (if fl_fails fl (dk_tick s) then next_tick s else next_tick (put p None s))"

section \<open>Writing files\<close>

definition bootstrapDirectoryMode :: nat where
  "bootstrapDirectoryMode = 448"

definition bootstrapFileMode :: nat where
  "bootstrapFileMode = 384"

definition bootstrapExampleMode :: nat where
  "bootstrapExampleMode = 420"

definition ensurePrivateDirectory :: "faults \<Rightarrow> string \<Rightarrow> disk \<Rightarrow> error option \<times> disk" where
  "ensurePrivateDirectory fl path s =
     (case os_Lstat fl path s of
        (Inl e, s) \<Rightarrow>
          if e = errNotExist then
            (case os_MkdirAll fl path bootstrapDirectoryMode s of
               (Some e, s) \<Rightarrow> (Some e, s)
             | (None, s) \<Rightarrow> os_Chmod fl (components path) bootstrapDirectoryMode s)
          else (Some e, s)
      | (Inr (Dir _), s) \<Rightarrow> (None, s)
      | (Inr _, s) \<Rightarrow> (Some ErrConfigInvalid, s))"

definition writeFileIfAbsent :: "faults \<Rightarrow> string \<Rightarrow> string \<Rightarrow> disk \<Rightarrow> (error + bool) \<times> disk" where
  "writeFileIfAbsent fl path contents s =
     (case os_Lstat fl path s of
        (Inr (File _ _), s) \<Rightarrow> (Inr False, s)
      | (Inr _, s) \<Rightarrow> (Inl ErrConfigInvalid, s)
      | (Inl e, s) \<Rightarrow>
          if e \<noteq> errNotExist then (Inl e, s)
          else (case os_Create fl (components path) bootstrapFileMode s of
            (Some e, s) \<Rightarrow> (Inl e, s)
          | (None, s) \<Rightarrow>
              (case file_Write fl (components path) contents s of
                 (Some e, s) \<Rightarrow>
                   (case file_Close fl s of (Some closeErr, s) \<Rightarrow> (Inl closeErr, s) | (None, s) \<Rightarrow> (Inl e, s))
               | (None, s) \<Rightarrow>
                   (case file_Close fl s of (Some e, s) \<Rightarrow> (Inl e, s) | (None, s) \<Rightarrow> (Inr True, s)))))"

definition validateExamplePath :: "faults \<Rightarrow> string \<Rightarrow> disk \<Rightarrow> error option \<times> disk" where
  "validateExamplePath fl path s =
     (case os_Lstat fl path s of
        (Inl e, s) \<Rightarrow> if e = errNotExist then (None, s) else (Some e, s)
      | (Inr (File _ _), s) \<Rightarrow> (None, s)
      | (Inr _, s) \<Rightarrow> (Some ErrConfigInvalid, s))"

text \<open>The temporary file is in the directory of the path; its name has a random suffix.\<close>

definition temp_path :: "faults \<Rightarrow> string \<Rightarrow> nat \<Rightarrow> string list" where
  "temp_path fl path n = butlast (components path) @ [''.env.example-'' @ fl_temp fl n]"

definition write_temp :: "faults \<Rightarrow> string list \<Rightarrow> string list \<Rightarrow> string \<Rightarrow> nat \<Rightarrow> disk \<Rightarrow> error option \<times> disk" where
  "write_temp fl tmp p contents mode s =
     (case os_Chmod fl tmp mode s of
        (Some e, s) \<Rightarrow> (Some e, snd (file_Close fl s))
      | (None, s) \<Rightarrow>
          (case file_Write fl tmp contents s of
             (Some e, s) \<Rightarrow> (Some e, snd (file_Close fl s))
           | (None, s) \<Rightarrow>
               (case file_Close fl s of
                  (Some e, s) \<Rightarrow> (Some e, s)
                | (None, s) \<Rightarrow> os_Rename fl tmp p s)))"

definition writeRefreshedFile :: "faults \<Rightarrow> string \<Rightarrow> string \<Rightarrow> nat \<Rightarrow> disk \<Rightarrow> error option \<times> disk" where
  "writeRefreshedFile fl path contents mode s =
     (case validateExamplePath fl path s of
        (Some e, s) \<Rightarrow> (Some e, s)
      | (None, s) \<Rightarrow>
          let tmp = temp_path fl path (dk_tick s)
          in case os_Create fl tmp bootstrapFileMode s of
               (Some e, s) \<Rightarrow> (Some e, s)
             | (None, s) \<Rightarrow>
                 (case write_temp fl tmp (components path) contents mode s of
                    (r, s) \<Rightarrow> (r, os_Remove fl tmp s)))"

definition readRegularDotEnv :: "faults \<Rightarrow> string \<Rightarrow> disk \<Rightarrow> (error + string) \<times> disk" where
  "readRegularDotEnv fl path s =
     (case os_Lstat fl path s of
        (Inl e, s) \<Rightarrow> (Inl e, s)
      | (Inr (File _ _), s) \<Rightarrow> os_ReadFile fl path s
      | (Inr _, s) \<Rightarrow> (Inl ErrConfigInvalid, s))"

definition upsertDotEnvValue :: "faults \<Rightarrow> string \<Rightarrow> string \<Rightarrow> string \<Rightarrow> disk \<Rightarrow> error option \<times> disk" where
  "upsertDotEnvValue fl path key value s =
     (case readRegularDotEnv fl path s of
        (Inl e, s) \<Rightarrow> (Some e, s)
      | (Inr contents, s) \<Rightarrow>
          let updated = replaceDotEnvValue contents key value
          in if updated = contents then (None, s) else writeRefreshedFile fl path updated bootstrapFileMode s)"

section \<open>The setup command\<close>

record BootstrapOptions =
  bo_ConfigDir :: string
  bo_HostConfigDir :: string
  bo_ControllerImage :: string
  bo_RuntimeUser :: string
  bo_Development :: bool
  bo_RefreshRuntimeTemplates :: bool

record BootstrapResult =
  br_Created :: "string list"
  br_Preserved :: "string list"
  br_Refreshed :: "string list"

record bootstrapFile =
  bf_path :: string
  bf_operatorPath :: string
  bf_data :: string
  bf_runtime :: bool

record bootstrapInput =
  bi_configDir :: string
  bi_hostConfigDir :: string
  bi_controllerImage :: string
  bi_runtimeUser :: string

text \<open>The embedded files, and the user and group of the process.\<close>

record BootEnv =
  be_pools :: string
  be_routing :: string
  be_compose :: string
  be_hostPorts :: string
  be_noHostPorts :: string
  be_uid :: string
  be_gid :: string
  be_rand :: "nat \<Rightarrow> error + string"

definition dotEnvFileName :: string where
  "dotEnvFileName = ''.env''"

definition dotEnvExampleFileName :: string where
  "dotEnvExampleFileName = ''.env.example''"

definition result_add :: "string \<Rightarrow> bool \<Rightarrow> BootstrapResult \<Rightarrow> BootstrapResult" where
  "result_add path created result =
     (if created then result\<lparr> br_Created := br_Created result @ [path] \<rparr>
      else result\<lparr> br_Preserved := br_Preserved result @ [path] \<rparr>)"

definition checkedAbsoluteDirectory :: "faults \<Rightarrow> string \<Rightarrow> disk \<Rightarrow> (error + string) \<times> disk" where
  "checkedAbsoluteDirectory fl value s =
     (case checkedAbsolutePath value of
        Inl e \<Rightarrow> (Inl e, s)
      | Inr path \<Rightarrow>
          (case ensurePrivateDirectory fl path s of
             (Some e, s) \<Rightarrow> (Inl e, s)
           | (None, s) \<Rightarrow> (Inr path, s)))"

definition checkedBootstrapInput ::
  "faults \<Rightarrow> BootEnv \<Rightarrow> BootstrapOptions \<Rightarrow> disk \<Rightarrow> (error + bootstrapInput) \<times> disk" where
  "checkedBootstrapInput fl be options s =
     (case checkedAbsoluteDirectory fl (bo_ConfigDir options) s of
        (Inl e, s) \<Rightarrow> (Inl e, s)
      | (Inr configDir, s) \<Rightarrow>
          (case checkedAbsolutePath (bo_HostConfigDir options) of
             Inl e \<Rightarrow> (Inl e, s)
           | Inr hostConfigDir \<Rightarrow>
               (case checkedImageReference (bo_ControllerImage options) of
                  Inl e \<Rightarrow> (Inl e, s)
                | Inr controllerImage \<Rightarrow>
                    (case checkedRuntimeUser (be_uid be) (be_gid be) (bo_RuntimeUser options) of
                       Inl e \<Rightarrow> (Inl e, s)
                     | Inr runtimeUser \<Rightarrow>
                         (Inr \<lparr> bi_configDir = configDir, bi_hostConfigDir = hostConfigDir,
                                bi_controllerImage = controllerImage, bi_runtimeUser = runtimeUser \<rparr>, s)))))"

fun ensure_all :: "faults \<Rightarrow> string list \<Rightarrow> disk \<Rightarrow> error option \<times> disk" where
  "ensure_all fl [] s = (None, s)"
| "ensure_all fl (d # ds) s =
     (case ensurePrivateDirectory fl d s of (Some e, s) \<Rightarrow> (Some e, s) | (None, s) \<Rightarrow> ensure_all fl ds s)"

definition createBootstrapDirectories :: "faults \<Rightarrow> string \<Rightarrow> disk \<Rightarrow> error option \<times> disk" where
  "createBootstrapDirectories fl configDir s =
     ensure_all fl
       [Join configDir ''secrets'', Join configDir ''secrets/wireguard'', Join configDir ''config'',
        Join configDir ''tailscale/state''] s"

definition bootstrapFiles :: "BootEnv \<Rightarrow> string \<Rightarrow> string \<Rightarrow> bootstrapFile list" where
  "bootstrapFiles be configDir hostConfigDir =
     map (\<lambda>(rel, contents, runtime).
            \<lparr> bf_path = Join configDir rel, bf_operatorPath = Join hostConfigDir rel, bf_data = contents,
              bf_runtime = runtime \<rparr>)
       [(''secrets/pools.yaml'', be_pools be, False),
        (''config/egress-routing.yaml'', be_routing be, False),
        (''docker-compose.yml'', be_compose be, True),
        (''docker-compose.host-ports.yml'', be_hostPorts be, True),
        (''docker-compose.no-host-ports.yml'', be_noHostPorts be, True)]"

definition writeBootstrapFile ::
  "faults \<Rightarrow> bool \<Rightarrow> bootstrapFile \<Rightarrow> BootstrapResult \<Rightarrow> disk \<Rightarrow> (error + BootstrapResult) \<times> disk" where
  "writeBootstrapFile fl refresh file result s =
     (if refresh \<and> bf_runtime file then
        (case writeRefreshedFile fl (bf_path file) (bf_data file) bootstrapFileMode s of
           (Some e, s) \<Rightarrow> (Inl e, s)
         | (None, s) \<Rightarrow> (Inr (result\<lparr> br_Refreshed := br_Refreshed result @ [bf_operatorPath file] \<rparr>), s))
      else
        (case writeFileIfAbsent fl (bf_path file) (bf_data file) s of
           (Inl e, s) \<Rightarrow> (Inl e, s)
         | (Inr created, s) \<Rightarrow> (Inr (result_add (bf_operatorPath file) created result), s)))"

fun write_all ::
  "faults \<Rightarrow> bool \<Rightarrow> bootstrapFile list \<Rightarrow> BootstrapResult \<Rightarrow> disk \<Rightarrow> (error + BootstrapResult) \<times> disk" where
  "write_all fl refresh [] result s = (Inr result, s)"
| "write_all fl refresh (f # fs) result s =
     (case writeBootstrapFile fl refresh f result s of
        (Inl e, s) \<Rightarrow> (Inl e, s)
      | (Inr result, s) \<Rightarrow> write_all fl refresh fs result s)"

definition writeBootstrapFiles ::
  "faults \<Rightarrow> BootEnv \<Rightarrow> bootstrapInput \<Rightarrow> bool \<Rightarrow> bool \<Rightarrow> BootstrapResult \<Rightarrow> disk
     \<Rightarrow> (error + BootstrapResult) \<times> disk" where
  "writeBootstrapFiles fl be bi development refresh result s =
     (case write_all fl refresh (bootstrapFiles be (bi_configDir bi) (bi_hostConfigDir bi)) result s of
        (Inl e, s) \<Rightarrow> (Inl e, s)
      | (Inr result, s) \<Rightarrow>
          (case writeRefreshedFile fl (Join (bi_configDir bi) dotEnvExampleFileName)
                  (renderEnvExample (bi_hostConfigDir bi) (bi_controllerImage bi) (bi_runtimeUser bi) development)
                  bootstrapExampleMode s of
             (Some e, s) \<Rightarrow> (Inl e, s)
           | (None, s) \<Rightarrow>
               (Inr (result\<lparr> br_Refreshed := br_Refreshed result @ [Join (bi_hostConfigDir bi) dotEnvExampleFileName] \<rparr>),
                s)))"

definition write_env ::
  "faults \<Rightarrow> BootEnv \<Rightarrow> bootstrapInput \<Rightarrow> bool \<Rightarrow> disk \<Rightarrow> (error + bool) \<times> disk" where
  "write_env fl be bi development s =
     (case newAPIToken (be_rand be) of
        Inl e \<Rightarrow> (Inl e, s)
      | Inr token \<Rightarrow>
          let envPath = Join (bi_configDir bi) dotEnvFileName
          in case writeFileIfAbsent fl envPath
                    (renderEnvFile (bi_hostConfigDir bi) (bi_controllerImage bi) (bi_runtimeUser bi) token development) s of
               (Inl e, s) \<Rightarrow> (Inl e, s)
             | (Inr True, s) \<Rightarrow> (Inr True, s)
             | (Inr False, s) \<Rightarrow>
                 (case upsertDotEnvValue fl envPath ''PR0XTEUS_RUNTIME_USER'' (bi_runtimeUser bi) s of
                    (Some e, s) \<Rightarrow> (Inl e, s)
                  | (None, s) \<Rightarrow> (Inr False, s)))"

definition BootstrapConfig ::
  "faults \<Rightarrow> BootEnv \<Rightarrow> BootstrapOptions \<Rightarrow> disk \<Rightarrow> (error + BootstrapResult) \<times> disk" where
  "BootstrapConfig fl be options s =
     (case checkedBootstrapInput fl be options s of
        (Inl e, s) \<Rightarrow> (Inl e, s)
      | (Inr bi, s) \<Rightarrow>
          (case createBootstrapDirectories fl (bi_configDir bi) s of
             (Some e, s) \<Rightarrow> (Inl e, s)
           | (None, s) \<Rightarrow>
               (case writeBootstrapFiles fl be bi (bo_Development options) (bo_RefreshRuntimeTemplates options)
                       \<lparr> br_Created = [], br_Preserved = [], br_Refreshed = [] \<rparr> s of
                  (Inl e, s) \<Rightarrow> (Inl e, s)
                | (Inr result, s) \<Rightarrow>
                    (case write_env fl be bi (bo_Development options) s of
                       (Inl e, s) \<Rightarrow> (Inl e, s)
                     | (Inr created, s) \<Rightarrow>
                         (Inr (result_add (Join (bi_hostConfigDir bi) dotEnvFileName) created result), s)))))"

section \<open>Where the files are\<close>

definition plain_component :: "string \<Rightarrow> bool" where
  "plain_component c \<longleftrightarrow> c \<noteq> '''' \<and> c \<noteq> ''.'' \<and> c \<noteq> ''..'' \<and> CHR ''/'' \<notin> set c"

lemma walk_append: "walk st (cs @ ds) = walk (walk st cs) ds"
  by (induction st cs rule: walk.induct) auto

lemma walk_plain: "list_all plain_component cs \<Longrightarrow> walk st cs = rev cs @ st"
  by (induction cs arbitrary: st) (auto simp: plain_component_def)

lemma walk_plain_result:
  "list_all plain_component st \<Longrightarrow> \<forall>c \<in> set cs. CHR ''/'' \<notin> set c \<Longrightarrow> list_all plain_component (walk st cs)"
proof (induction st cs rule: walk.induct)
  case (2 st c cs)
  then show ?case by (cases st) (auto simp: plain_component_def)
qed simp

lemma components_plain: "list_all plain_component (components path)"
  using walk_plain_result [of "[]" "split_byte CHR ''/'' path"] split_byte_parts
  by (force simp: components_def list_all_iff)

lemma components_Clean [simp]: "components (Clean path) = components path"
proof (cases "components path = []")
  case True
  then show ?thesis by (simp add: Clean_def components_def [of "[CHR ''/'']"])
next
  case False
  have "split_byte CHR ''/'' (Clean path) = [] # components path"
    unfolding Clean_def using split_join [OF False, of "CHR ''/''"] components_plain [of path]
    by (simp add: plain_component_def list_all_iff)
  then show ?thesis
    using walk_plain [OF components_plain [of path], of "[]"] by (simp add: components_def [of "Clean path"])
qed

lemma components_Join:
  assumes "list_all plain_component (split_byte CHR ''/'' rel)"
  shows "components (Join dir rel) = components dir @ split_byte CHR ''/'' rel"
  using assms
  by (simp add: Join_def components_def [of "dir @ CHR ''/'' # rel"] split_byte_append walk_append walk_plain)
     (simp add: components_def)

section \<open>What setup leaves of existing files\<close>

text \<open>
  Every node that was there is still there, and it is the same unless it is a regular file that became
  one of the contents that \<open>R\<close> allows at its place.
\<close>

definition keeps :: "(string list \<Rightarrow> node \<Rightarrow> bool) \<Rightarrow> disk \<Rightarrow> disk \<Rightarrow> bool" where
  "keeps R s s' \<longleftrightarrow>
     (\<forall>p n. dk_fs s p = Some n \<longrightarrow> (\<exists>n'. dk_fs s' p = Some n' \<and> (n' = n \<or> is_file (Some n) \<and> R p n')))"

lemma keeps_refl [simp]: "dk_fs s' = dk_fs s \<Longrightarrow> keeps R s s'"
  by (simp add: keeps_def)

lemma keeps_trans: "keeps R s s' \<Longrightarrow> keeps R s' s'' \<Longrightarrow> keeps R s s''"
  unfolding keeps_def by metis

lemma keeps_mono: "keeps R s s' \<Longrightarrow> (\<And>p n. R p n \<Longrightarrow> R' p n) \<Longrightarrow> keeps R' s s'"
  unfolding keeps_def by blast

lemma keeps_new: "dk_fs s p = None \<Longrightarrow> (\<And>q. q \<noteq> p \<Longrightarrow> dk_fs s q = None \<or> dk_fs s' q = dk_fs s q) \<Longrightarrow> keeps R s s'"
  unfolding keeps_def by (metis option.distinct(1))

lemma tick_fs [simp]: "dk_fs (next_tick s) = dk_fs s" "dk_fs (put p n s) = (dk_fs s)(p := n)"
  by (simp_all add: next_tick_def put_def)

lemma os_Lstat_cases:
  assumes "os_Lstat fl path s = (r, s')"
  shows "dk_fs s' = dk_fs s \<and> (\<forall>n. r = Inr n \<longrightarrow> dk_fs s (components path) = Some n)
    \<and> (r = Inl errNotExist \<longrightarrow> dk_fs s (components path) = None)"
  using assms by (auto simp: os_Lstat_def errIO_def errNotExist_def split: if_splits option.splits)

lemma os_MkdirAll_fs:
  assumes "os_MkdirAll fl path mode s = (r, s')" "dk_fs s p = Some n"
  shows "dk_fs s' p = Some n"
  using assms by (auto simp: os_MkdirAll_def Let_def split: if_splits)

lemma os_Chmod_fs: "os_Chmod fl p mode s = (r, s') \<Longrightarrow> q \<noteq> p \<Longrightarrow> dk_fs s' q = dk_fs s q"
  by (auto simp: os_Chmod_def split: if_splits option.splits node.splits)

lemma file_Close_fs [simp]: "dk_fs (snd (file_Close fl s)) = dk_fs s"
  by (simp add: file_Close_def)

lemma file_Close_fs': "file_Close fl s = (r, s') \<Longrightarrow> dk_fs s' = dk_fs s"
  by (auto simp: file_Close_def)

lemma os_Create_fs:
  "os_Create fl p mode s = (r, s') \<Longrightarrow> (q \<noteq> p \<longrightarrow> dk_fs s' q = dk_fs s q)
     \<and> (r \<noteq> None \<longrightarrow> dk_fs s' = dk_fs s)
     \<and> (r = None \<longrightarrow> dk_fs s p = None \<and> dk_fs s' p = Some (File (fl_umask fl mode) []))"
  by (auto simp: os_Create_def split: if_splits)

lemma file_Write_fs:
  "file_Write fl p contents s = (r, s') \<Longrightarrow> (q \<noteq> p \<longrightarrow> dk_fs s' q = dk_fs s q)
     \<and> (\<forall>m c. r = None \<and> dk_fs s p = Some (File m c) \<longrightarrow> dk_fs s' p = Some (File m (c @ contents)))"
  by (auto simp: file_Write_def split: if_splits option.splits node.splits)

lemma ensurePrivateDirectory_keeps:
  assumes "ensurePrivateDirectory fl path s = (r, s')"
  shows "keeps R s s'"
proof -
  obtain l s1 where l: "os_Lstat fl path s = (l, s1)" by fastforce
  note stat = os_Lstat_cases [OF l]
  show ?thesis
  proof (cases "l = Inl errNotExist")
    case True
    obtain m s2 where m: "os_MkdirAll fl path bootstrapDirectoryMode s1 = (m, s2)" by fastforce
    obtain c s3 where c: "os_Chmod fl (components path) bootstrapDirectoryMode s2 = (c, s3)" by fastforce
    have "dk_fs s q = None \<or> dk_fs s' q = dk_fs s q" if "q \<noteq> components path" for q
      using assms l m c True stat os_MkdirAll_fs [OF m, of q] os_Chmod_fs [OF c that]
      by (cases "dk_fs s q") (auto simp: ensurePrivateDirectory_def split: option.splits)
    then show ?thesis using stat True by (intro keeps_new [of _ "components path"]) auto
  next
    case False
    then show ?thesis
      using assms l stat by (auto simp: ensurePrivateDirectory_def split: sum.splits node.splits if_splits)
  qed
qed

lemma writeFileIfAbsent_keeps:
  assumes "writeFileIfAbsent fl path contents s = (r, s')"
  shows "keeps R s s'" "dk_fs s (components path) \<noteq> None \<Longrightarrow> dk_fs s' = dk_fs s"
    "r = Inr False \<Longrightarrow> is_file (dk_fs s (components path)) \<and> dk_fs s' = dk_fs s"
proof -
  obtain l s1 where l: "os_Lstat fl path s = (l, s1)" by fastforce
  note stat = os_Lstat_cases [OF l]
  let ?p = "components path"
  obtain c s2 where c: "os_Create fl ?p bootstrapFileMode s1 = (c, s2)" by fastforce
  obtain w s3 where w: "file_Write fl ?p contents s2 = (w, s3)" by fastforce
  obtain e s4 where e: "file_Close fl s3 = (e, s4)" by fastforce
  have same: "dk_fs s' = dk_fs s" if "l \<noteq> Inl errNotExist"
    using assms l stat that by (auto simp: writeFileIfAbsent_def split: sum.splits node.splits if_splits)
  have other: "dk_fs s' q = dk_fs s q" if "q \<noteq> ?p" "l = Inl errNotExist" for q
    using assms l c w e stat that os_Create_fs [OF c, of q] file_Write_fs [OF w, of q] file_Close_fs' [OF e]
    by (auto simp: writeFileIfAbsent_def split: option.splits)
  show "keeps R s s'"
    using same other stat keeps_new [of s ?p s' R] by (cases "l = Inl errNotExist") auto
  show "dk_fs s' = dk_fs s" if "dk_fs s ?p \<noteq> None" using same stat that by blast
  show "is_file (dk_fs s ?p) \<and> dk_fs s' = dk_fs s" if "r = Inr False"
    using assms l stat that c w e
    by (auto simp: writeFileIfAbsent_def is_file_def split: sum.splits node.splits if_splits option.splits)
qed

lemma os_Rename_fs:
  "os_Rename fl old new s = (r, s') \<Longrightarrow> (\<forall>q. q \<noteq> old \<and> q \<noteq> new \<longrightarrow> dk_fs s' q = dk_fs s q)
     \<and> (old \<noteq> new \<longrightarrow> dk_fs s' new = dk_fs s new \<or> dk_fs s' new = dk_fs s old)"
  by (auto simp: os_Rename_def split: if_splits option.splits node.splits)

lemma os_Chmod_file:
  "os_Chmod fl p mode s = (None, s') \<Longrightarrow> dk_fs s p = Some (File m c) \<Longrightarrow> dk_fs s' p = Some (File mode c)"
  by (auto simp: os_Chmod_def split: if_splits)

lemma write_temp_fs:
  assumes "write_temp fl tmp p contents mode s = (r, s')" "dk_fs s tmp = Some (File m [])"
  shows "(\<forall>q. q \<noteq> tmp \<and> q \<noteq> p \<longrightarrow> dk_fs s' q = dk_fs s q)
    \<and> (tmp \<noteq> p \<longrightarrow> dk_fs s' p = dk_fs s p \<or> dk_fs s' p = Some (File mode contents))"
proof -
  obtain a s1 where a: "os_Chmod fl tmp mode s = (a, s1)" by fastforce
  obtain b s2 where b: "file_Write fl tmp contents s1 = (b, s2)" by fastforce
  obtain c s3 where c: "file_Close fl s2 = (c, s3)" by fastforce
  obtain d s4 where d: "os_Rename fl tmp p s3 = (d, s4)" by fastforce
  have s1: "dk_fs s1 q = dk_fs s q" if "q \<noteq> tmp" for q using os_Chmod_fs [OF a that] .
  have s2: "dk_fs s2 q = dk_fs s q" if "q \<noteq> tmp" for q using file_Write_fs [OF b, of q] s1 [OF that] that by simp
  have s3: "dk_fs s3 = dk_fs s2" by (rule file_Close_fs' [OF c])
  have full: "dk_fs s3 tmp = Some (File mode contents)" if "a = None" "b = None"
    using file_Write_fs [OF b] os_Chmod_file [OF a [unfolded that(1)] assms(2)] that s3 by simp
  have s4: "(\<forall>q. q \<noteq> tmp \<and> q \<noteq> p \<longrightarrow> dk_fs s4 q = dk_fs s q)
      \<and> (tmp \<noteq> p \<longrightarrow> dk_fs s4 p = dk_fs s p \<or> dk_fs s4 p = Some (File mode contents))" if "a = None" "b = None"
    using os_Rename_fs [OF d] s2 s3 full [OF that] by force
  show ?thesis
    using assms(1) a b c d s1 s2 s3 s4 by (auto simp: write_temp_def split: option.splits)
qed

lemma writeRefreshedFile_keeps:
  assumes "writeRefreshedFile fl path contents mode s = (r, s')"
  shows "keeps (\<lambda>p n. p = components path \<and> n = File mode contents) s s'"
proof -
  let ?p = "components path"
  obtain v s1 where v: "validateExamplePath fl path s = (v, s1)" by fastforce
  obtain l s1' where l: "os_Lstat fl path s = (l, s1')" by fastforce
  have s1: "dk_fs s1 = dk_fs s"
    using v l os_Lstat_cases [OF l] by (auto simp: validateExamplePath_def split: sum.splits node.splits if_splits)
  have regular: "is_file (Some n)" if "v = None" "dk_fs s ?p = Some n" for n
    using that v l os_Lstat_cases [OF l]
    by (auto simp: validateExamplePath_def is_file_def split: sum.splits node.splits if_splits)
  define tmp where "tmp = temp_path fl path (dk_tick s1)"
  obtain c s2 where c: "os_Create fl tmp bootstrapFileMode s1 = (c, s2)" by fastforce
  obtain w s3 where w: "write_temp fl tmp ?p contents mode s2 = (w, s3)" by fastforce
  show ?thesis
  proof (cases "v = None \<and> c = None")
    case False
    then show ?thesis
      using assms v s1 c os_Create_fs [OF c]
      by (auto simp: writeRefreshedFile_def Let_def tmp_def [symmetric] split: option.splits)
  next
    case True
    have s': "s' = os_Remove fl tmp s3"
      using assms v c w True by (simp add: writeRefreshedFile_def Let_def tmp_def [symmetric])
    then have rem: "dk_fs s' q = dk_fs s3 q" if "q \<noteq> tmp" for q using that by (simp add: os_Remove_def)
    have made: "dk_fs s tmp = None" "dk_fs s2 tmp = Some (File (fl_umask fl bootstrapFileMode) [])"
      "\<And>q. q \<noteq> tmp \<Longrightarrow> dk_fs s2 q = dk_fs s q"
      using os_Create_fs [OF c] True s1 by auto
    have "\<exists>n'. dk_fs s' q = Some n' \<and> (n' = n \<or> is_file (Some n) \<and> q = ?p \<and> n' = File mode contents)"
      if n: "dk_fs s q = Some n" for q n
    proof -
      have q: "q \<noteq> tmp" using n made(1) by auto
      show ?thesis
        using write_temp_fs [OF w made(2)] rem [OF q] made(3) q n regular True by (cases "q = ?p") auto
    qed
    then show ?thesis unfolding keeps_def by blast
  qed
qed

lemma ensure_all_keeps: "ensure_all fl ds s = (r, s') \<Longrightarrow> keeps R s s'"
proof (induction ds arbitrary: s)
  case (Cons d ds)
  obtain a s1 where a: "ensurePrivateDirectory fl d s = (a, s1)" by fastforce
  show ?case
    using Cons.prems Cons.IH [of s1] ensurePrivateDirectory_keeps [OF a, of R] a keeps_trans
    by (auto split: option.splits)
qed simp

lemma checkedBootstrapInput_keeps:
  assumes "checkedBootstrapInput fl be options s = (r, s')"
  shows "keeps R s s'" "r = Inr bi \<Longrightarrow> checkedAbsolutePath (bo_ConfigDir options) = Inr (bi_configDir bi)
      \<and> checkedAbsolutePath (bo_HostConfigDir options) = Inr (bi_hostConfigDir bi)
      \<and> checkedImageReference (bo_ControllerImage options) = Inr (bi_controllerImage bi)
      \<and> checkedRuntimeUser (be_uid be) (be_gid be) (bo_RuntimeUser options) = Inr (bi_runtimeUser bi)"
proof -
  obtain d s1 where d: "checkedAbsoluteDirectory fl (bo_ConfigDir options) s = (d, s1)" by fastforce
  have s': "s' = s1" using assms d by (auto simp: checkedBootstrapInput_def split: sum.splits)
  show "keeps R s s'"
    using d ensurePrivateDirectory_keeps unfolding s'
    by (auto simp: checkedAbsoluteDirectory_def split: sum.splits prod.splits option.splits)
  show "r = Inr bi \<Longrightarrow> checkedAbsolutePath (bo_ConfigDir options) = Inr (bi_configDir bi)
      \<and> checkedAbsolutePath (bo_HostConfigDir options) = Inr (bi_hostConfigDir bi)
      \<and> checkedImageReference (bo_ControllerImage options) = Inr (bi_controllerImage bi)
      \<and> checkedRuntimeUser (be_uid be) (be_gid be) (bo_RuntimeUser options) = Inr (bi_runtimeUser bi)"
    using assms
    by (auto simp: checkedBootstrapInput_def checkedAbsoluteDirectory_def split: sum.splits prod.splits option.splits)
qed

lemma write_all_keeps:
  "write_all fl refresh fs result s = (r, s') \<Longrightarrow>
     keeps (\<lambda>p n. refresh \<and> (\<exists>f \<in> set fs. bf_runtime f \<and> p = components (bf_path f)
       \<and> n = File bootstrapFileMode (bf_data f))) s s'"
proof (induction fs arbitrary: result s)
  case (Cons f fs)
  let ?R = "\<lambda>p n. refresh \<and> (\<exists>g \<in> set (f # fs). bf_runtime g \<and> p = components (bf_path g)
       \<and> n = File bootstrapFileMode (bf_data g))"
  obtain a s1 where a: "writeBootstrapFile fl refresh f result s = (a, s1)" by fastforce
  have one: "keeps ?R s s1"
  proof (cases "refresh \<and> bf_runtime f")
    case True
    obtain b s2 where b: "writeRefreshedFile fl (bf_path f) (bf_data f) bootstrapFileMode s = (b, s2)" by fastforce
    then have "s2 = s1" using a True by (auto simp: writeBootstrapFile_def split: option.splits)
    then show ?thesis
      using True by (intro keeps_mono [OF writeRefreshedFile_keeps [OF b [unfolded \<open>s2 = s1\<close>]]]) auto
  next
    case False
    obtain b s2 where b: "writeFileIfAbsent fl (bf_path f) (bf_data f) s = (b, s2)" by fastforce
    then have "s2 = s1" using a False by (auto simp: writeBootstrapFile_def split: sum.splits)
    then show ?thesis using writeFileIfAbsent_keeps(1) [OF b] by simp
  qed
  show ?case
  proof (cases a)
    case (Inl e)
    then show ?thesis using one a Cons.prems by simp
  next
    case (Inr result')
    have "keeps ?R s1 s'"
      using Cons.prems a Inr by (intro keeps_mono [OF Cons.IH [of result' s1]]) auto
    with one show ?thesis by (rule keeps_trans)
  qed
qed simp

lemma write_env_keeps:
  assumes "write_env fl be bi development s = (r, s')"
  shows "keeps (\<lambda>p n. p = components (Join (bi_configDir bi) dotEnvFileName)
    \<and> (\<exists>m c. dk_fs s p = Some (File m c)
         \<and> n = File bootstrapFileMode (replaceDotEnvValue c ''PR0XTEUS_RUNTIME_USER'' (bi_runtimeUser bi)))) s s'"
    (is "keeps ?R s s'")
proof (cases "newAPIToken (be_rand be)")
  case (Inl e)
  then show ?thesis using assms by (simp add: write_env_def)
next
  case (Inr token)
  let ?path = "Join (bi_configDir bi) dotEnvFileName"
  obtain a s1 where a: "writeFileIfAbsent fl ?path
      (renderEnvFile (bi_hostConfigDir bi) (bi_controllerImage bi) (bi_runtimeUser bi) token development) s = (a, s1)"
    by fastforce
  obtain u s2 where u: "upsertDotEnvValue fl ?path ''PR0XTEUS_RUNTIME_USER'' (bi_runtimeUser bi) s1 = (u, s2)" by fastforce
  show ?thesis
  proof (cases "a = Inr False")
    case False
    then have "s' = s1" using assms Inr a by (auto simp: write_env_def Let_def split: sum.splits bool.splits)
    then show ?thesis using writeFileIfAbsent_keeps(1) [OF a] by simp
  next
    case True
    have s': "s' = s2" using assms Inr a u True by (auto simp: write_env_def Let_def split: option.splits)
    have s1: "dk_fs s1 = dk_fs s" using writeFileIfAbsent_keeps(3) [OF a True] by simp
    obtain rd s3 where rd: "readRegularDotEnv fl ?path s1 = (rd, s3)" by fastforce
    have s3: "dk_fs s3 = dk_fs s" "\<forall>c. rd = Inr c \<longrightarrow> (\<exists>m. dk_fs s (components ?path) = Some (File m c))"
      using rd s1 by (auto simp: readRegularDotEnv_def os_Lstat_def os_ReadFile_def split: if_splits option.splits node.splits sum.splits)
    show ?thesis
    proof (cases "\<exists>c. rd = Inr c \<and> replaceDotEnvValue c ''PR0XTEUS_RUNTIME_USER'' (bi_runtimeUser bi) \<noteq> c")
      case True
      then obtain c where c: "rd = Inr c" "replaceDotEnvValue c ''PR0XTEUS_RUNTIME_USER'' (bi_runtimeUser bi) \<noteq> c" by blast
      then have w: "writeRefreshedFile fl ?path (replaceDotEnvValue c ''PR0XTEUS_RUNTIME_USER'' (bi_runtimeUser bi))
          bootstrapFileMode s3 = (u, s2)"
        using u rd by (simp add: upsertDotEnvValue_def)
      have "keeps ?R s3 s2"
        using s3 c(1) by (intro keeps_mono [OF writeRefreshedFile_keeps [OF w]]) auto
      then show ?thesis using s3(1) keeps_trans [of ?R s s3 s2] s' by simp
    next
      case False
      then have "s2 = s3" using u rd by (auto simp: upsertDotEnvValue_def Let_def split: sum.splits)
      then show ?thesis using s3(1) s' by simp
    qed
  qed
qed

lemma setup_paths:
  "components (Join dir ''docker-compose.yml'') = components dir @ [''docker-compose.yml'']"
  "components (Join dir ''docker-compose.host-ports.yml'') = components dir @ [''docker-compose.host-ports.yml'']"
  "components (Join dir ''docker-compose.no-host-ports.yml'') = components dir @ [''docker-compose.no-host-ports.yml'']"
  "components (Join dir dotEnvFileName) = components dir @ [''.env'']"
  "components (Join dir dotEnvExampleFileName) = components dir @ [''.env.example'']"
  by (subst components_Join; simp add: plain_component_def dotEnvFileName_def dotEnvExampleFileName_def)+

text \<open>What a run before the environment file may have made of a regular file.\<close>

definition regenerated :: "BootEnv \<Rightarrow> bootstrapInput \<Rightarrow> bool \<Rightarrow> bool \<Rightarrow> string list \<Rightarrow> node \<Rightarrow> bool" where
  "regenerated be bi development refresh p n \<longleftrightarrow>
     p = components (bi_configDir bi) @ [''.env.example'']
       \<and> n = File 420 (renderEnvExample (bi_hostConfigDir bi) (bi_controllerImage bi) (bi_runtimeUser bi) development)
     \<or> refresh \<and> (\<exists>(name, contents) \<in> {(''docker-compose.yml'', be_compose be),
            (''docker-compose.host-ports.yml'', be_hostPorts be), (''docker-compose.no-host-ports.yml'', be_noHostPorts be)}.
          p = components (bi_configDir bi) @ [name] \<and> n = File 384 contents)"

lemma writeBootstrapFiles_keeps:
  assumes "writeBootstrapFiles fl be bi development refresh result s = (r, s')"
  shows "keeps (regenerated be bi development refresh) s s'"
proof -
  obtain a s1 where a: "write_all fl refresh (bootstrapFiles be (bi_configDir bi) (bi_hostConfigDir bi)) result s = (a, s1)"
    by fastforce
  have first: "keeps (regenerated be bi development refresh) s s1"
    by (rule keeps_mono [OF write_all_keeps [OF a]])
       (auto simp: bootstrapFiles_def regenerated_def setup_paths bootstrapFileMode_def)
  let ?x = "renderEnvExample (bi_hostConfigDir bi) (bi_controllerImage bi) (bi_runtimeUser bi) development"
  obtain b s2 where b: "writeRefreshedFile fl (Join (bi_configDir bi) dotEnvExampleFileName) ?x bootstrapExampleMode s1 = (b, s2)"
    by fastforce
  have "keeps (regenerated be bi development refresh) s1 s2"
    by (rule keeps_mono [OF writeRefreshedFile_keeps [OF b]]) (simp add: regenerated_def setup_paths bootstrapExampleMode_def)
  then show ?thesis
    using assms a b first keeps_trans [OF first] by (auto simp: writeBootstrapFiles_def split: sum.splits option.splits)
qed

lemma BootstrapConfig_fate:
  assumes "BootstrapConfig fl be options s = (res, s')" "checkedBootstrapInput fl be options s = (Inr bi, s1)"
    and "dk_fs s p = Some n"
  shows "\<exists>n'. dk_fs s' p = Some n' \<and> (n' = n
    \<or> is_file (Some n) \<and> regenerated be bi (bo_Development options) (bo_RefreshRuntimeTemplates options) p n'
    \<or> p = components (bi_configDir bi) @ [''.env''] \<and> (\<exists>m c. n = File m c
        \<and> n' = File 384 (replaceDotEnvValue c ''PR0XTEUS_RUNTIME_USER'' (bi_runtimeUser bi))))"
proof -
  let ?R = "regenerated be bi (bo_Development options) (bo_RefreshRuntimeTemplates options)"
  let ?env = "components (bi_configDir bi) @ [''.env'']"
  obtain rd s2 where rd: "createBootstrapDirectories fl (bi_configDir bi) s1 = (rd, s2)" by fastforce
  obtain rf s3 where rf: "writeBootstrapFiles fl be bi (bo_Development options) (bo_RefreshRuntimeTemplates options)
      \<lparr> br_Created = [], br_Preserved = [], br_Refreshed = [] \<rparr> s2 = (rf, s3)" by fastforce
  obtain re s4 where re: "write_env fl be bi (bo_Development options) s3 = (re, s4)" by fastforce
  have k2: "keeps ?R s s2"
    using keeps_trans [OF checkedBootstrapInput_keeps(1) [OF assms(2)] ensure_all_keeps] rd
    unfolding createBootstrapDirectories_def by blast
  have k3: "keeps ?R s s3" by (rule keeps_trans [OF k2 writeBootstrapFiles_keeps [OF rf]])
  have fin: "s' \<in> {s2, s3, s4}"
    using assms(1,2) rd rf re by (auto simp: BootstrapConfig_def split: sum.splits option.splits)
  have env3: "dk_fs s3 ?env = Some n" if "p = ?env"
    using k3 assms(3) that by (auto simp: keeps_def regenerated_def)
  obtain n3 where n3: "dk_fs s3 p = Some n3" "n3 = n \<or> is_file (Some n) \<and> ?R p n3"
    using k3 assms(3) unfolding keeps_def by blast
  obtain n2 where n2: "dk_fs s2 p = Some n2" "n2 = n \<or> is_file (Some n) \<and> ?R p n2"
    using k2 assms(3) unfolding keeps_def by blast
  obtain n4 where n4: "dk_fs s4 p = Some n4" "n4 = n3 \<or> p = ?env \<and> (\<exists>m c. dk_fs s3 p = Some (File m c)
      \<and> n4 = File 384 (replaceDotEnvValue c ''PR0XTEUS_RUNTIME_USER'' (bi_runtimeUser bi)))"
    using write_env_keeps [OF re] n3(1) unfolding keeps_def setup_paths bootstrapFileMode_def by blast
  show ?thesis
    using fin n2 n3 n4 env3 by auto
qed

text \<open>C33: setup never damages what is there, even when any calls of the operating system fail. Whatever the
  outcome, every node that existed is the same afterwards, except for regular files in three places
  of the configuration directory: the example file, which then has its complete new contents; the
  compose files if a refresh was asked for, likewise; and the environment file, which then is the old
  one with the runtime user replaced. In particular pools, routing and provider files are untouched.\<close>

theorem bootstrap_preserves:
  assumes "BootstrapConfig fl be options s = (res, s')" "dk_fs s p = Some n"
  shows "dk_fs s' p = Some n \<or>
    (\<exists>dir host img user m old.
       checkedAbsolutePath (bo_ConfigDir options) = Inr dir \<and> checkedAbsolutePath (bo_HostConfigDir options) = Inr host
       \<and> checkedImageReference (bo_ControllerImage options) = Inr img
       \<and> checkedRuntimeUser (be_uid be) (be_gid be) (bo_RuntimeUser options) = Inr user \<and> n = File m old
       \<and> (p = components dir @ [''.env.example'']
            \<and> dk_fs s' p = Some (File 420 (renderEnvExample host img user (bo_Development options)))
          \<or> p = components dir @ [''.env'']
            \<and> dk_fs s' p = Some (File 384 (replaceDotEnvValue old ''PR0XTEUS_RUNTIME_USER'' user))
          \<or> bo_RefreshRuntimeTemplates options
            \<and> (\<exists>(name, contents) \<in> {(''docker-compose.yml'', be_compose be),
                 (''docker-compose.host-ports.yml'', be_hostPorts be), (''docker-compose.no-host-ports.yml'', be_noHostPorts be)}.
                 p = components dir @ [name] \<and> dk_fs s' p = Some (File 384 contents))))"
proof -
  obtain ri s1 where ri: "checkedBootstrapInput fl be options s = (ri, s1)" by fastforce
  show ?thesis
  proof (cases ri)
    case (Inl e)
    then show ?thesis
      using assms ri checkedBootstrapInput_keeps(1) [OF ri, of "\<lambda>_ _. False"] by (auto simp: BootstrapConfig_def keeps_def)
  next
    case (Inr bi)
    let ?R = "regenerated be bi (bo_Development options) (bo_RefreshRuntimeTemplates options)"
    let ?env = "components (bi_configDir bi) @ [''.env'']"
    have c: "checkedAbsolutePath (bo_ConfigDir options) = Inr (bi_configDir bi)"
      "checkedAbsolutePath (bo_HostConfigDir options) = Inr (bi_hostConfigDir bi)"
      "checkedImageReference (bo_ControllerImage options) = Inr (bi_controllerImage bi)"
      "checkedRuntimeUser (be_uid be) (be_gid be) (bo_RuntimeUser options) = Inr (bi_runtimeUser bi)"
      using checkedBootstrapInput_keeps(2) [OF ri Inr] by simp_all
    obtain n' where n': "dk_fs s' p = Some n'" "n' = n \<or> is_file (Some n) \<and> ?R p n' \<or> p = ?env \<and> (\<exists>m c. n = File m c
        \<and> n' = File 384 (replaceDotEnvValue c ''PR0XTEUS_RUNTIME_USER'' (bi_runtimeUser bi)))"
      using BootstrapConfig_fate [OF assms(1) ri [unfolded Inr] assms(2)] by blast
    from n'(2) show ?thesis
    proof (elim disjE)
      assume "is_file (Some n) \<and> ?R p n'"
      then obtain m old where r: "n = File m old" "?R p n'" by (auto simp: is_file_def split: node.splits)
      have mid: "A \<or> C \<Longrightarrow> A \<or> B \<or> C" for A B C by blast
      show ?thesis
        unfolding n'(1) option.inject
        by (rule disjI2, rule exI [of _ "bi_configDir bi"], rule exI [of _ "bi_hostConfigDir bi"],
            rule exI [of _ "bi_controllerImage bi"], rule exI [of _ "bi_runtimeUser bi"], rule exI [of _ m],
            rule exI [of _ old], intro conjI, rule c, rule c, rule c, rule c, rule r, rule mid,
            rule r(2) [unfolded regenerated_def])
    next
      assume "p = ?env \<and> (\<exists>m c. n = File m c
        \<and> n' = File 384 (replaceDotEnvValue c ''PR0XTEUS_RUNTIME_USER'' (bi_runtimeUser bi)))"
      with c show ?thesis unfolding n'(1) option.inject by blast
    qed (simp add: n'(1))
  qed
qed

definition demo_faults :: faults where
  "demo_faults = \<lparr> fl_fails = (\<lambda>n. n = 7), fl_partial = (\<lambda>_. 1), fl_umask = id, fl_temp = (\<lambda>_. ''x'') \<rparr>"

definition demo_boot :: BootEnv where
  "demo_boot =
     \<lparr> be_pools = ''p'', be_routing = ''r'', be_compose = ''c'', be_hostPorts = ''h'', be_noHostPorts = ''n'',
       be_uid = ''0'', be_gid = ''0'', be_rand = (\<lambda>n. Inr (replicate n CHR ''k'')) \<rparr>"

definition demo_options :: BootstrapOptions where
  "demo_options =
     \<lparr> bo_ConfigDir = ''/c'', bo_HostConfigDir = ''/c'', bo_ControllerImage = ''i'', bo_RuntimeUser = '''',
       bo_Development = False, bo_RefreshRuntimeTemplates = True \<rparr>"

definition demo_disk :: disk where
  "demo_disk =
     \<lparr> dk_fs = [[] \<mapsto> Dir 493, [''c''] \<mapsto> Dir 448, [''c'', ''secrets''] \<mapsto> Dir 448,
         [''c'', ''secrets'', ''pools.yaml''] \<mapsto> File 384 ''mine''], dk_tick = 0 \<rparr>"

theorem bootstrap_preserves_witness:
  "dk_fs (snd (BootstrapConfig demo_faults demo_boot demo_options demo_disk)) [''c'', ''secrets'', ''pools.yaml'']
     = Some (File 384 ''mine'')"
proof -
  obtain res s' where b: "BootstrapConfig demo_faults demo_boot demo_options demo_disk = (res, s')" by fastforce
  have d: "dk_fs demo_disk [''c'', ''secrets'', ''pools.yaml''] = Some (File 384 ''mine'')" by (simp add: demo_disk_def)
  have "checkedAbsolutePath ''/c'' = Inr ''/c''" "components ''/c'' = [''c'']" by code_simp+
  then show ?thesis
    using bootstrap_preserves [OF b d] b by (auto simp: demo_options_def)
qed

text \<open>
  A first write that fails halfway leaves the part it wrote, and every later run takes it for the
  file of the operator.
\<close>

lemma partial_file_kept:
  assumes "dk_fs s (components path) = None" "dk_fs s (butlast (components path)) = Some (Dir m)" "components path \<noteq> []"
    and "fl_fails fl = (\<lambda>n. n = dk_tick s + 2)" "fl_fails fl' = (\<lambda>_. False)"
  shows "\<exists>s1 s2. writeFileIfAbsent fl path contents s = (Inl errIO, s1)
    \<and> writeFileIfAbsent fl' path contents s1 = (Inr False, s2)
    \<and> dk_fs s2 (components path) = Some (File (fl_umask fl bootstrapFileMode) (take (fl_partial fl (dk_tick s + 2)) contents))"
  using assms
  by (simp add: writeFileIfAbsent_def os_Lstat_def os_Create_def file_Write_def file_Close_def is_file_def next_tick_def put_def)

section \<open>Checking a configuration\<close>

definition checkedExistingDirectory :: "(string \<Rightarrow> error + node) \<Rightarrow> string \<Rightarrow> error + string" where
  "checkedExistingDirectory lstat value =
     (case checkedAbsolutePath value of
        Inl e \<Rightarrow> Inl e
      | Inr path \<Rightarrow>
          (case lstat path of
             Inl e \<Rightarrow> Inl e
           | Inr (Dir _) \<Rightarrow> Inr path
           | Inr _ \<Rightarrow> Inl ErrConfigInvalid))"

text \<open>
  What the loaders read from: the files and directories as the process sees them, the two YAML
  decoders, and the Unicode tables. Loaded pools are as many as known names, so there are none if and
  only if none is known.
\<close>

record Loaders =
  ld_lower :: "string \<Rightarrow> string"
  ld_upper :: "string \<Rightarrow> string"
  ld_lstat :: "string \<Rightarrow> error + node"
  ld_readFile :: "string \<Rightarrow> string option"
  ld_readDir :: "string \<Rightarrow> dirEntry list option"
  ld_pools :: "string \<Rightarrow> poolsFile option"
  ld_routing :: "string \<Rightarrow> routingFile option"

definition CheckConfig :: "Loaders \<Rightarrow> string \<Rightarrow> error option" where
  "CheckConfig ld configDir =
     (case checkedExistingDirectory (ld_lstat ld) configDir of
        Inl e \<Rightarrow> Some e
      | Inr dir \<Rightarrow>
          (case loadAPITokenFromDotEnv
                  (case ld_readFile ld (Join dir dotEnvFileName) of None \<Rightarrow> Inl errIO | Some c \<Rightarrow> Inr c) of
             Inl e \<Rightarrow> Some e
           | Inr _ \<Rightarrow>
               (case LoadPoolSpecs (ld_upper ld) (ld_readFile ld) (ld_pools ld) (ld_readDir ld)
                       (Join dir ''secrets/pools.yaml'') (Join dir ''secrets/wireguard'') of
                  Inl e \<Rightarrow> Some e
                | Inr (specs, knownPools) \<Rightarrow>
                    if knownPools = {} then Some ErrConfigInvalid
                    else (case LoadRouter (ld_lower ld) (ld_readFile ld) (ld_routing ld)
                                 (Join dir ''config/egress-routing.yaml'') '''' knownPools of
                            Inl e \<Rightarrow> Some e
                          | Inr _ \<Rightarrow> None))))"

end
