(* ===== verification/Http_Headers.thy ===== *)
theory Http_Headers
  imports Go_Prelude
begin

text \<open>
  What the HTTP proxy of the controller does with header fields (\<^verbatim>\<open>http_proxy_gateway.go\<close>): reading
  the Basic credentials of a request, removing the fields that concern only one connection, and
  copying the fields of a response. The parts of \<^verbatim>\<open>encoding/base64\<close>, \<^verbatim>\<open>net/textproto\<close> and
  \<^verbatim>\<open>strings.EqualFold\<close> that it uses come first.
\<close>

section \<open>Standard Base64\<close>

definition std_char :: "nat \<Rightarrow> char" where
  "std_char n =
     (if n < 26 then char_of (65 + n)
      else if n < 52 then char_of (71 + n)
      else if n < 62 then char_of (n - 4)
      else if n = 62 then CHR ''+'' else CHR ''/'')"

definition std_value :: "char \<Rightarrow> nat option" where
  "std_value c =
     (let n = of_char c
      in if 65 \<le> n \<and> n \<le> 90 then Some (n - 65)
         else if 97 \<le> n \<and> n \<le> 122 then Some (n - 71)
         else if 48 \<le> n \<and> n \<le> 57 then Some (n + 4)
         else if c = CHR ''+'' then Some 62
         else if c = CHR ''/'' then Some 63
         else None)"

fun std_encode :: "string \<Rightarrow> string" where
  "std_encode [] = []"
| "std_encode [a] =
     (let n = of_char a * 16 in [std_char (n div 64), std_char (n mod 64), CHR ''='', CHR ''=''])"
| "std_encode [a, b] =
     (let n = (of_char a * 256 + of_char b) * 4
      in [std_char (n div 4096), std_char (n div 64 mod 64), std_char (n mod 64), CHR ''=''])"
| "std_encode (a # b # c # s) =
     (let n = of_char a * 65536 + of_char b * 256 + of_char c
      in [std_char (n div 262144), std_char (n div 4096 mod 64), std_char (n div 64 mod 64),
          std_char (n mod 64)] @ std_encode s)"

text \<open>
  Decoding takes four characters at a time. Padding is required, it ends the input, and the bits
  that do not fill a byte are dropped. Line breaks are skipped wherever they are.
\<close>

fun std_quanta :: "string \<Rightarrow> string option" where
  "std_quanta [] = Some []"
| "std_quanta (a # b # c # d # s) =
     (case (std_value a, std_value b) of
        (Some x, Some y) \<Rightarrow>
          if c = CHR ''='' then
            (if d = CHR ''='' \<and> s = [] then Some [char_of ((x * 64 + y) div 16)] else None)
          else (case std_value c of
            None \<Rightarrow> None
          | Some z \<Rightarrow>
              if d = CHR ''='' then
                (if s = [] then
                   let n = (x * 4096 + y * 64 + z) div 4
                   in Some [char_of (n div 256), char_of (n mod 256)]
                 else None)
              else (case std_value d of
                None \<Rightarrow> None
              | Some v \<Rightarrow>
                  let n = x * 262144 + y * 4096 + z * 64 + v
                  in map_option ((@) [char_of (n div 65536), char_of (n div 256 mod 256), char_of (n mod 256)])
                       (std_quanta s)))
      | _ \<Rightarrow> None)"
| "std_quanta _ = None"

definition std_decode :: "string \<Rightarrow> string option" where
  "std_decode s = std_quanta (filter (\<lambda>c. c \<notin> {CHR 0x0A, CHR 0x0D}) s)"

lemma std_value_char: "n < 64 \<Longrightarrow> std_value (std_char n) = Some n"
proof -
  assume "n < 64"
  then consider "n < 26" | "26 \<le> n" "n < 52" | "52 \<le> n" "n < 62" | "n = 62" | "n = 63" by linarith
  then show ?thesis by cases (auto simp: std_value_def std_char_def Let_def)
qed

lemma std_char_plain: "n < 64 \<Longrightarrow> std_char n \<noteq> c" if "std_value c = None"
  using std_value_char that by fastforce

lemma std_value_none [simp]: "std_value CHR 0x0A = None" "std_value CHR 0x0D = None" "std_value CHR ''='' = None"
  by (simp_all add: std_value_def)

lemma byte_bound: "(of_char c :: nat) < 256"
  by (cases c) (simp add: of_char_def)

lemma base_step: "c < b \<Longrightarrow> (x * b + c) div b = x \<and> (x * b + c) mod b = (c :: nat)"
  by simp

lemma std_triple:
  assumes "a < 256" "b < 256" "c < (256 :: nat)" and n: "n = a * 65536 + b * 256 + c"
  shows "n div 262144 < 64" "n div 4096 mod 64 < 64" "n div 64 mod 64 < 64" "n mod 64 < 64"
    "n div 262144 * 262144 + n div 4096 mod 64 * 4096 + n div 64 mod 64 * 64 + n mod 64 = n"
    "n div 65536 = a" "n div 256 mod 256 = b" "n mod 256 = c"
proof -
  have "a \<le> 255" "b \<le> 255" "c \<le> 255" using assms by simp_all
  then have "n < 64 * 262144" using n by linarith
  then show "n div 262144 < 64" by (simp add: less_mult_imp_div_less)
  have d: "n div 4096 = n div 64 div 64" "n div 262144 = n div 64 div 64 div 64"
    by (simp_all add: div_mult2_eq [symmetric])
  show "n div 262144 * 262144 + n div 4096 mod 64 * 4096 + n div 64 mod 64 * 64 + n mod 64 = n"
    unfolding d using div_mult_mod_eq [of n 64] div_mult_mod_eq [of "n div 64" 64]
      div_mult_mod_eq [of "n div 64 div 64" 64] by linarith
  have "n = (a * 256 + b) * 256 + c" using n by simp
  then have q: "n div 256 = a * 256 + b" "n mod 256 = c" using assms(3) base_step by metis+
  then show "n div 256 mod 256 = b" "n mod 256 = c" using assms(2) by simp_all
  have "n div 65536 = n div 256 div 256" by (simp add: div_mult2_eq [symmetric])
  then show "n div 65536 = a" using q assms(2) by simp
qed simp_all

lemma std_pair:
  assumes "a < 256" "b < (256 :: nat)" and n: "n = (a * 256 + b) * 4"
  shows "n div 4096 < 64" "n div 64 mod 64 < 64" "n mod 64 < 64"
    "(n div 4096 * 4096 + n div 64 mod 64 * 64 + n mod 64) div 4 = a * 256 + b"
proof -
  have "a \<le> 255" "b \<le> 255" using assms by simp_all
  moreover have "n = a * 1024 + b * 4" using n by simp
  ultimately have "n < 64 * 4096" by linarith
  then show "n div 4096 < 64" by (simp add: less_mult_imp_div_less)
  have d: "n div 4096 = n div 64 div 64" by (simp add: div_mult2_eq [symmetric])
  have "n div 4096 * 4096 + n div 64 mod 64 * 64 + n mod 64 = n"
    unfolding d using div_mult_mod_eq [of n 64] div_mult_mod_eq [of "n div 64" 64] by linarith
  then show "(n div 4096 * 4096 + n div 64 mod 64 * 64 + n mod 64) div 4 = a * 256 + b" using n by simp
qed simp_all

lemma std_single:
  assumes "a < (256 :: nat)" and n: "n = a * 16"
  shows "n div 64 < 64" "n mod 64 < 64" "(n div 64 * 64 + n mod 64) div 16 = a"
proof -
  have "n < 64 * 64" using assms by linarith
  then show "n div 64 < 64" by (simp add: less_mult_imp_div_less)
  show "(n div 64 * 64 + n mod 64) div 16 = a" unfolding div_mult_mod_eq using n by simp
qed simp

lemma std_quanta_encode: "std_quanta (std_encode s) = Some s"
proof (induction s rule: std_encode.induct)
  case (2 a)
  note b = std_single [OF byte_bound [of a] refl]
  show ?case
    by (simp only: std_encode.simps Let_def std_quanta.simps std_value_char [OF b(1)] std_value_char [OF b(2)] b(3)
        option.case prod.case refl if_True simp_thms char_of_char)
next
  case (3 a b)
  note b = std_pair [OF byte_bound [of a] byte_bound [of b] refl]
  have "(of_char a * 256 + of_char b) div 256 = (of_char a :: nat)" "(of_char a * 256 + of_char b) mod 256 = (of_char b :: nat)"
    using byte_bound [of b] by simp_all
  then show ?case
    by (simp only: std_encode.simps Let_def std_quanta.simps std_value_char [OF b(1)] std_value_char [OF b(2)]
        std_value_char [OF b(3)] std_char_plain [OF std_value_none(3) b(3)] b(4)
        option.case prod.case refl if_True if_False simp_thms char_of_char)
next
  case (4 a b c s)
  note b = std_triple [OF byte_bound [of a] byte_bound [of b] byte_bound [of c] refl]
  show ?case
    by (simp only: std_encode.simps Let_def append.simps std_quanta.simps std_value_char [OF b(1)] std_value_char [OF b(2)]
        std_value_char [OF b(3)] std_value_char [OF b(4)] std_char_plain [OF std_value_none(3) b(3)]
        std_char_plain [OF std_value_none(3) b(4)] b(5-8) "4.IH"
        option.case prod.case option.map refl if_True if_False simp_thms char_of_char)
qed simp

lemma std_encode_plain: "c \<in> set (std_encode s) \<Longrightarrow> c \<notin> {CHR 0x0A, CHR 0x0D}"
proof (induction s rule: std_encode.induct)
  case (2 a)
  show ?case
    using 2 std_char_plain [OF std_value_none(1)] std_char_plain [OF std_value_none(2)] std_single [OF byte_bound [of a] refl]
    by (auto simp: Let_def)
next
  case (3 a b)
  show ?case
    using 3 std_char_plain [OF std_value_none(1)] std_char_plain [OF std_value_none(2)]
      std_pair [OF byte_bound [of a] byte_bound [of b] refl]
    by (auto simp: Let_def)
next
  case (4 a b c s)
  show ?case
    using 4 std_char_plain [OF std_value_none(1)] std_char_plain [OF std_value_none(2)]
      std_triple [OF byte_bound [of a] byte_bound [of b] byte_bound [of c] refl]
    by (auto simp: Let_def)
qed simp

lemma std_decode_encode [simp]: "std_decode (std_encode s) = Some s"
proof -
  have "filter (\<lambda>c. c \<notin> {CHR 0x0A, CHR 0x0D}) (std_encode s) = std_encode s"
    using std_encode_plain by (intro filter_True) blast
  then show ?thesis by (simp add: std_decode_def std_quanta_encode)
qed

section \<open>Header fields\<close>

text \<open>
  \<^verbatim>\<open>strings.EqualFold\<close> compares ASCII strings up to the case of letters. On other strings it follows
  the Unicode tables, which are the parameter \<open>uf\<close>.
\<close>

definition equal_fold :: "(string \<Rightarrow> string \<Rightarrow> bool) \<Rightarrow> string \<Rightarrow> string \<Rightarrow> bool" where
  "equal_fold uf s t \<longleftrightarrow>
     (if is_ascii s \<and> is_ascii t then map lower_char s = map lower_char t else uf s t)"

text \<open>\<^verbatim>\<open>http.Header\<close>, and the canonical form of a field name that \<^verbatim>\<open>Get\<close> and \<^verbatim>\<open>Add\<close> use.\<close>

type_synonym header = "string \<rightharpoonup> string list"

definition valid_field_byte :: "char \<Rightarrow> bool" where
  "valid_field_byte c \<longleftrightarrow>
     is_lower_alpha c \<or> is_upper_alpha c \<or> (CHR ''0'' \<le> c \<and> c \<le> CHR ''9'')
     \<or> c \<in> set (CHR 0x27 # ''!#$%&*+-.^_`|~'')"

fun canonical_from :: "bool \<Rightarrow> string \<Rightarrow> string" where
  "canonical_from upper [] = []"
| "canonical_from upper (c # s) =
     (if upper then upper_char c else lower_char c) # canonical_from (c = CHR ''-'') s"

definition canonical_key :: "string \<Rightarrow> string" where
  "canonical_key s = (if list_all valid_field_byte s then canonical_from True s else s)"

definition header_Get :: "header \<Rightarrow> string \<Rightarrow> string" where
  "header_Get h name =
     (case h (canonical_key name) of Some (v # _) \<Rightarrow> v | _ \<Rightarrow> '''')"

definition header_Add :: "string \<Rightarrow> string \<Rightarrow> header \<Rightarrow> header" where
  "header_Add name v h =
     h(canonical_key name \<mapsto> (case h (canonical_key name) of None \<Rightarrow> [v] | Some vs \<Rightarrow> vs @ [v]))"

definition httpProxyAuthHeader :: string where
  "httpProxyAuthHeader = ''Proxy-Authorization''"

definition httpProxyAuthenticate :: string where
  "httpProxyAuthenticate = ''Proxy-Authenticate''"

definition httpProxyBasicScheme :: string where
  "httpProxyBasicScheme = ''Basic''"

definition httpProxyRealm :: string where
  "httpProxyRealm = ''pr0xteus''"

definition proxyBasicCredentials :: "(string \<Rightarrow> string \<Rightarrow> bool) \<Rightarrow> header \<Rightarrow> (string \<times> string) option" where
  "proxyBasicCredentials uf h =
     (case cut_byte CHR 0x20 (header_Get h httpProxyAuthHeader) of
        None \<Rightarrow> None
      | Some (scheme, encoded) \<Rightarrow>
          if \<not> equal_fold uf scheme httpProxyBasicScheme \<or> encoded = '''' then None
          else (case std_decode encoded of
            None \<Rightarrow> None
          | Some decoded \<Rightarrow>
              (case cut_byte CHR '':'' decoded of
                 None \<Rightarrow> None
               | Some (username, password) \<Rightarrow>
                   if username = '''' \<or> password = '''' then None else Some (username, password))))"

definition deleteHTTPHeader :: "(string \<Rightarrow> string \<Rightarrow> bool) \<Rightarrow> string \<Rightarrow> header \<Rightarrow> header" where
  "deleteHTTPHeader uf target h = (\<lambda>name. if equal_fold uf name target then None else h name)"

text \<open>
  The loop over a header that deletes from it: \<open>order\<close> lists the names in the order of the visit,
  and a name that was deleted before its turn is not visited.
\<close>

fun delete_targets :: "(string \<Rightarrow> string \<Rightarrow> bool) \<Rightarrow> string list \<Rightarrow> header \<Rightarrow> header" where
  "delete_targets uf [] h = h"
| "delete_targets uf (target # targets) h = delete_targets uf targets (deleteHTTPHeader uf (trim_space target) h)"

fun stripConnectionNominatedHeaders :: "(string \<Rightarrow> string \<Rightarrow> bool) \<Rightarrow> string list \<Rightarrow> header \<Rightarrow> header" where
  "stripConnectionNominatedHeaders uf [] h = h"
| "stripConnectionNominatedHeaders uf (name # order) h =
     stripConnectionNominatedHeaders uf order
       (case h name of
          None \<Rightarrow> h
        | Some vs \<Rightarrow>
            if equal_fold uf name ''Connection''
            then delete_targets uf (concat (map (split_byte CHR '','') vs)) h else h)"

definition hop_response_headers :: "string list" where
  "hop_response_headers =
     [''Connection'', ''Keep-Alive'', ''Proxy-Connection'', ''TE'', ''Trailer'', ''Transfer-Encoding'', ''Upgrade'']"

definition hop_request_headers :: "string list" where
  "hop_request_headers =
     [''Connection'', ''Keep-Alive'', ''Proxy-Connection'', httpProxyAuthHeader, ''TE'', ''Trailer'',
      ''Transfer-Encoding'', ''Upgrade'']"

definition stripProxyRequestHeaders :: "(string \<Rightarrow> string \<Rightarrow> bool) \<Rightarrow> string list \<Rightarrow> header \<Rightarrow> header" where
  "stripProxyRequestHeaders uf order h =
     fold (deleteHTTPHeader uf) hop_request_headers (stripConnectionNominatedHeaders uf order h)"

definition stripProxyResponseHeaders :: "(string \<Rightarrow> string \<Rightarrow> bool) \<Rightarrow> string list \<Rightarrow> header \<Rightarrow> header" where
  "stripProxyResponseHeaders uf order h =
     fold (deleteHTTPHeader uf) hop_response_headers (stripConnectionNominatedHeaders uf order h)"

fun copyHTTPHeaders :: "string list \<Rightarrow> header \<Rightarrow> header \<Rightarrow> header" where
  "copyHTTPHeaders [] source destination = destination"
| "copyHTTPHeaders (name # order) source destination =
     copyHTTPHeaders order source
       (fold (header_Add name) (case source name of None \<Rightarrow> [] | Some vs \<Rightarrow> vs) destination)"

subsection \<open>What is left of a header\<close>

text \<open>A field that a \<^verbatim>\<open>Connection\<close> field of the header names.\<close>

definition nominated :: "(string \<Rightarrow> string \<Rightarrow> bool) \<Rightarrow> header \<Rightarrow> string \<Rightarrow> bool" where
  "nominated uf h name \<longleftrightarrow>
     (\<exists>k vs v target. h k = Some vs \<and> equal_fold uf k ''Connection'' \<and> v \<in> set vs
        \<and> target \<in> set (split_byte CHR '','' v) \<and> equal_fold uf name (trim_space target))"

definition one_connection :: "(string \<Rightarrow> string \<Rightarrow> bool) \<Rightarrow> header \<Rightarrow> bool" where
  "one_connection uf h \<longleftrightarrow>
     (\<forall>k k'. k \<in> dom h \<and> k' \<in> dom h \<and> equal_fold uf k ''Connection'' \<and> equal_fold uf k' ''Connection'' \<longrightarrow> k = k')"

lemma delete_targets_eq:
  "delete_targets uf targets h name =
     (if \<exists>target \<in> set targets. equal_fold uf name (trim_space target) then None else h name)"
  by (induction targets arbitrary: h) (auto simp: deleteHTTPHeader_def)

lemma delete_fold_eq:
  "fold (deleteHTTPHeader uf) targets h name =
     (if \<exists>target \<in> set targets. equal_fold uf name target then None else h name)"
  by (induction targets arbitrary: h) (auto simp: deleteHTTPHeader_def)

lemma strip_no_connection:
  "(\<And>k. k \<in> set order \<Longrightarrow> k \<in> dom h \<Longrightarrow> \<not> equal_fold uf k ''Connection'') \<Longrightarrow>
     stripConnectionNominatedHeaders uf order h = h"
  by (induction order) (auto split: option.splits)

lemma nominated_by:
  assumes "one_connection uf h" "h k = Some vs" "equal_fold uf k ''Connection''"
  shows "nominated uf h name \<longleftrightarrow>
    (\<exists>v \<in> set vs. \<exists>target \<in> set (split_byte CHR '','' v). equal_fold uf name (trim_space target))"
proof
  assume "nominated uf h name"
  then obtain k' vs' v target where n: "h k' = Some vs'" "equal_fold uf k' ''Connection''" "v \<in> set vs'"
    "target \<in> set (split_byte CHR '','' v)" "equal_fold uf name (trim_space target)"
    unfolding nominated_def by blast
  then have "k' = k" using assms unfolding one_connection_def by blast
  with n assms(2) show "\<exists>v \<in> set vs. \<exists>target \<in> set (split_byte CHR '','' v). equal_fold uf name (trim_space target)"
    by auto
next
  assume "\<exists>v \<in> set vs. \<exists>target \<in> set (split_byte CHR '','' v). equal_fold uf name (trim_space target)"
  then show "nominated uf h name" using assms(2,3) unfolding nominated_def by blast
qed

lemma strip_nominated:
  assumes "one_connection uf h" "distinct order" "\<And>k. k \<in> dom h \<Longrightarrow> equal_fold uf k ''Connection'' \<Longrightarrow> k \<in> set order"
  shows "stripConnectionNominatedHeaders uf order h name = (if nominated uf h name then None else h name)"
  using assms(2,3)
proof (induction order)
  case Nil
  then have "\<not> nominated uf h name" by (auto simp: nominated_def)
  then show ?case by simp
next
  case (Cons k order)
  show ?case
  proof (cases "k \<in> dom h \<and> equal_fold uf k ''Connection''")
    case True
    then obtain vs where vs: "h k = Some vs" by blast
    let ?h = "delete_targets uf (concat (map (split_byte CHR '','') vs)) h"
    have "\<not> equal_fold uf k' ''Connection''" if "k' \<in> set order" "k' \<in> dom ?h" for k'
      using that True assms(1) Cons.prems(1)
      by (auto simp: one_connection_def delete_targets_eq dom_def split: if_splits)
    then have "stripConnectionNominatedHeaders uf order ?h = ?h" by (rule strip_no_connection)
    moreover have "nominated uf h name \<longleftrightarrow>
        (\<exists>target \<in> set (concat (map (split_byte CHR '','') vs)). equal_fold uf name (trim_space target))"
      using nominated_by [OF assms(1) vs] True by simp
    ultimately show ?thesis using True vs by (simp add: delete_targets_eq)
  next
    case False
    have "k' \<in> set order" if "k' \<in> dom h" "equal_fold uf k' ''Connection''" for k'
      using Cons.prems(2) [OF that] that False by auto
    with False Cons.IH Cons.prems(1) show ?thesis by (auto split: option.splits)
  qed
qed

text \<open>C32: the proxy forwards exactly the end-to-end fields of a request. A field is removed when it is one
  of the hop-by-hop fields, the credentials among them, or is named by the \<^verbatim>\<open>Connection\<close> field,
  and every other field is kept with all its values, whatever the order in which the map is visited.
  The header has one spelling of \<^verbatim>\<open>Connection\<close>, as every header that \<^verbatim>\<open>net/http\<close> has read.\<close>

theorem forward_end_to_end:
  assumes "range_order order h" "one_connection uf h"
  shows "stripProxyRequestHeaders uf order h name =
    (if nominated uf h name
       \<or> (\<exists>hop \<in> {''Connection'', ''Keep-Alive'', ''Proxy-Connection'', ''Proxy-Authorization'', ''TE'', ''Trailer'',
            ''Transfer-Encoding'', ''Upgrade''}. equal_fold uf name hop)
     then None else h name)"
proof -
  have "set hop_request_headers = {''Connection'', ''Keep-Alive'', ''Proxy-Connection'', ''Proxy-Authorization'', ''TE'',
      ''Trailer'', ''Transfer-Encoding'', ''Upgrade''}"
    by (simp add: hop_request_headers_def httpProxyAuthHeader_def)
  then show ?thesis
    using strip_nominated [of uf h order name] assms
    by (simp add: stripProxyRequestHeaders_def delete_fold_eq range_order_def domIff)
qed

theorem forward_end_to_end_witness:
  "stripProxyRequestHeaders (=) [''Connection'', ''X-Trace'', ''Accept'']
     [''Connection'' \<mapsto> [''close, x-trace''], ''X-Trace'' \<mapsto> [''1''], ''Accept'' \<mapsto> [''a'', ''b'']] ''X-Trace'' = None
   \<and> stripProxyRequestHeaders (=) [''Connection'', ''X-Trace'', ''Accept'']
     [''Connection'' \<mapsto> [''close, x-trace''], ''X-Trace'' \<mapsto> [''1''], ''Accept'' \<mapsto> [''a'', ''b'']] ''Accept''
       = Some [''a'', ''b'']"
proof -
  let ?h = "[''Connection'' \<mapsto> [''close, x-trace''], ''X-Trace'' \<mapsto> [''1''], ''Accept'' \<mapsto> [''a'', ''b'']] :: header"
  let ?o = "[''Connection'', ''X-Trace'', ''Accept'']"
  have o: "range_order ?o ?h" by (auto simp: range_order_def)
  have fold: "\<not> equal_fold (=) ''X-Trace'' ''Connection''" "\<not> equal_fold (=) ''Accept'' ''Connection''"
    "equal_fold (=) ''Connection'' ''Connection''"
    by (simp_all add: equal_fold_def is_ascii_def)
  then have one: "one_connection (=) ?h" by (auto simp: one_connection_def split: if_splits)
  have targets: "split_byte CHR '','' ''close, x-trace'' = [''close'', '' x-trace'']"
    "trim_space ''close'' = ''close''" "trim_space '' x-trace'' = ''x-trace''"
    by code_simp+
  have nom: "nominated (=) ?h name \<longleftrightarrow> equal_fold (=) name ''close'' \<or> equal_fold (=) name ''x-trace''" for name
    using nominated_by [OF one _ fold(3), of "[''close, x-trace'']" name] by (simp add: targets)
  have "equal_fold (=) ''X-Trace'' ''x-trace''" "\<not> equal_fold (=) ''Accept'' ''close''" "\<not> equal_fold (=) ''Accept'' ''x-trace''"
    "\<forall>hop \<in> {''Connection'', ''Keep-Alive'', ''Proxy-Connection'', ''Proxy-Authorization'', ''TE'', ''Trailer'',
       ''Transfer-Encoding'', ''Upgrade''}. \<not> equal_fold (=) ''Accept'' hop"
    by code_simp+
  then show ?thesis
    using forward_end_to_end [OF o one, of "''X-Trace''"] forward_end_to_end [OF o one, of "''Accept''"] nom
    by simp
qed

text \<open>A client that sends a user name and a password as Basic credentials is understood.\<close>

definition basic_value :: "string \<Rightarrow> string \<Rightarrow> string" where
  "basic_value username password = ''Basic '' @ std_encode (username @ CHR '':'' # password)"

lemma cut_first: "c \<notin> set a \<Longrightarrow> cut_byte c (a @ c # b) = Some (a, b)"
  by (simp add: cut_byte_def takeWhile_append)

lemma canonical_auth: "canonical_key httpProxyAuthHeader = httpProxyAuthHeader"
  by code_simp

lemma std_encode_empty: "std_encode s = [] \<longleftrightarrow> s = []"
  by (cases s rule: std_encode.cases) (simp_all add: Let_def)

lemma basic_credentials:
  assumes "h httpProxyAuthHeader = Some [basic_value username password]"
    and "username \<noteq> []" "password \<noteq> []" "CHR '':'' \<notin> set username"
  shows "proxyBasicCredentials uf h = Some (username, password)"
proof -
  have "basic_value username password = ''Basic'' @ CHR 0x20 # std_encode (username @ CHR '':'' # password)"
    by (simp add: basic_value_def)
  then have "cut_byte CHR 0x20 (header_Get h httpProxyAuthHeader)
      = Some (''Basic'', std_encode (username @ CHR '':'' # password))"
    using assms(1) by (simp add: header_Get_def canonical_auth cut_byte_def)
  moreover have "equal_fold uf ''Basic'' httpProxyBasicScheme"
    by (simp add: equal_fold_def httpProxyBasicScheme_def is_ascii_def)
  ultimately show ?thesis
    using assms(2-4) by (simp add: proxyBasicCredentials_def std_encode_empty cut_first)
qed

subsection \<open>The fields of a response\<close>

lemma fold_header_Add:
  "canonical_key name = name \<Longrightarrow> vs \<noteq> [] \<Longrightarrow>
     fold (header_Add name) vs h = h(name \<mapsto> (case h name of None \<Rightarrow> vs | Some us \<Rightarrow> us @ vs))"
proof (induction vs arbitrary: h)
  case (Cons v vs)
  then show ?case
    by (cases "vs = []") (auto simp: header_Add_def fun_eq_iff split: option.splits)
qed simp

lemma copy_canonical:
  assumes "distinct order" "\<And>name. name \<in> set order \<Longrightarrow> canonical_key name = name \<and> source name \<noteq> Some []"
    and "\<And>name. name \<in> set order \<Longrightarrow> destination name = None"
  shows "copyHTTPHeaders order source destination name =
    (if name \<in> set order then source name else destination name)"
  using assms
proof (induction order arbitrary: destination)
  case (Cons k order)
  let ?d = "fold (header_Add k) (case source k of None \<Rightarrow> [] | Some vs \<Rightarrow> vs) destination"
  have d: "?d = destination(k := source k)"
    using Cons.prems(2) [of k] Cons.prems(3) [of k]
    by (auto simp: fold_header_Add fun_eq_iff split: option.splits)
  have "copyHTTPHeaders order source ?d name = (if name \<in> set order then source name else ?d name)"
    using Cons.prems by (intro Cons.IH) (auto simp: d)
  then show ?case by (auto simp: d)
qed simp

end
