(* ===== verification/Gateway.thy ===== *)
theory Gateway
  imports Acquisition Http_Headers
begin

text \<open>
  The two proxies that the controller offers to the holders of leases: the SOCKS5 gateway
  (\<^verbatim>\<open>proxy_gateway.go\<close>) and the HTTP proxy (\<^verbatim>\<open>http_proxy_gateway.go\<close>). Both reach a destination only
  through \<^const>\<open>dialLease\<close>. The SOCKS5 server and \<^verbatim>\<open>net/http\<close> are parameters: the connections they
  hand over, the exchange over a dialled connection, and the ends of the copy loops. A handler takes
  the manager, the gateway and the world and returns them updated.
\<close>

section \<open>The SOCKS5 gateway\<close>

record 'l ProxyGateway =
  pg_listenAddr :: string
  pg_listener :: "'l option"

definition NewProxyGateway :: "string \<Rightarrow> 'l ProxyGateway" where
  "NewProxyGateway listenAddr = \<lparr> pg_listenAddr = listenAddr, pg_listener = None \<rparr>"

text \<open>\<open>listen\<close> opens a listener; serving it and closing it at the end are left to the caller.\<close>

definition ProxyGateway_Start ::
  "(string \<Rightarrow> 'w \<Rightarrow> (error + 'l) \<times> 'w) \<Rightarrow> 'l ProxyGateway \<Rightarrow> 'w \<Rightarrow> error option \<times> 'l ProxyGateway \<times> 'w" where
  "ProxyGateway_Start listen g w =
     (case listen (pg_listenAddr g) w of
        (Inl e, w) \<Rightarrow> (Some e, g, w)
      | (Inr listener, w) \<Rightarrow> (None, g\<lparr> pg_listener := Some listener \<rparr>, w))"

definition ProxyGateway_Close ::
  "('l \<Rightarrow> 'w \<Rightarrow> error option \<times> 'w) \<Rightarrow> 'l ProxyGateway \<Rightarrow> 'w \<Rightarrow> error option \<times> 'l ProxyGateway \<times> 'w" where
  "ProxyGateway_Close close_listener g w =
     (case pg_listener g of
        None \<Rightarrow> (None, g, w)
      | Some listener \<Rightarrow>
          let (err, w) = close_listener listener w in (err, g\<lparr> pg_listener := None \<rparr>, w))"

text \<open>The payload of the authentication context, if the server attached one.\<close>

definition ProxyGateway_dial ::
  "(string \<Rightarrow> string) \<Rightarrow> 'w Env \<Rightarrow> ('u, 'c, 'w) Dialer \<Rightarrow> string \<Rightarrow> string \<Rightarrow> (string \<rightharpoonup> string) option
     \<Rightarrow> Manager \<Rightarrow> 'w \<Rightarrow> (error + 'c releaseConn) \<times> Manager \<times> 'w" where
  "ProxyGateway_dial sha256 env dl network address auth m w =
     (case auth of
        None \<Rightarrow> (Inl (ErrOther ''missing proxy lease authentication''), m, w)
      | Some payload \<Rightarrow>
          let username = (case payload ''username'' of None \<Rightarrow> '''' | Some v \<Rightarrow> v);
              password = (case payload ''password'' of None \<Rightarrow> '''' | Some v \<Rightarrow> v)
          in dialLease sha256 env dl username password network address m w)"

definition proxyLeaseCredentials_Valid ::
  "(string \<Rightarrow> string) \<Rightarrow> 'w Env \<Rightarrow> string \<Rightarrow> string \<Rightarrow> Manager \<Rightarrow> 'w \<Rightarrow> bool \<times> Manager \<times> 'w" where
  "proxyLeaseCredentials_Valid sha256 env username password m w =
     (case Lookup sha256 env username password (m_leases m) w of
        (rec, r, w) \<Rightarrow> (rec \<noteq> None, m\<lparr> m_leases := r \<rparr>, w))"

text \<open>No address is resolved here, so the name reaches the cell.\<close>

definition cellResolver_Resolve :: "string \<Rightarrow> string option" where
  "cellResolver_Resolve name = None"

datatype socks5FailureReason =
    socks5FailureAuthenticationFailed
  | socks5FailureClientDisconnected
  | socks5FailureProtocolError
  | socks5FailureUpstreamConnect

definition classifySOCKS5Failure :: "string \<Rightarrow> socks5FailureReason" where
  "classifySOCKS5Failure message =
     (if contains message ''EOF'' then socks5FailureClientDisconnected
      else if contains message ''failed to authenticate'' then socks5FailureAuthenticationFailed
      else if contains message ''connect to'' then socks5FailureUpstreamConnect
      else socks5FailureProtocolError)"

section \<open>The HTTP proxy\<close>

record GwRequest =
  gq_Method :: string
  gq_Host :: string
  gq_URL :: url
  gq_Header :: header

record GwResponse =
  gr_StatusCode :: int
  gr_Header :: header
  gr_Body :: string

record ('k, 's) HTTPProxyGateway =
  hg_listenAddr :: string
  hg_server :: "'s option"
  hg_hijacked :: "'k set"

text \<open>
  What the HTTP proxy uses of \<^verbatim>\<open>net/http\<close> and \<^verbatim>\<open>io\<close>: taking over the connection of a request (nothing
  when the writer does not support it), writing to and closing it, waiting for the next of the two
  copy loops of a tunnel to end, the address that the transport dials for a request and the exchange
  over the dialled connection, and what of a body reaches the client. \<open>ge_order\<close> is the order in
  which a header is visited.
\<close>

record ('k, 'u, 'c, 'w) GwEnv =
  ge_sha256 :: "string \<Rightarrow> string"
  ge_env :: "'w Env"
  ge_dialer :: "('u, 'c, 'w) Dialer"
  ge_fold :: "string \<Rightarrow> string \<Rightarrow> bool"
  ge_order :: "header \<Rightarrow> string list"
  ge_Hijack :: "'w \<Rightarrow> (error + 'k) option \<times> 'w"
  ge_WriteString :: "'k \<Rightarrow> string \<Rightarrow> 'w \<Rightarrow> error option \<times> 'w"
  ge_CloseClient :: "'k \<Rightarrow> 'w \<Rightarrow> error option \<times> 'w"
  ge_CopyDone :: "'k \<Rightarrow> 'c \<Rightarrow> 'w \<Rightarrow> error option \<times> 'w"
  ge_hostport :: "url \<Rightarrow> string"
  ge_Exchange :: "'c \<Rightarrow> GwRequest \<Rightarrow> 'w \<Rightarrow> (error + GwResponse) \<times> 'w"
  ge_CopyBody :: "string \<Rightarrow> 'w \<Rightarrow> string \<times> 'w"

definition NewHTTPProxyGateway :: "string \<Rightarrow> ('k, 's) HTTPProxyGateway" where
  "NewHTTPProxyGateway listenAddr = \<lparr> hg_listenAddr = listenAddr, hg_server = None, hg_hijacked = {} \<rparr>"

definition HTTPProxyGateway_Start ::
  "(string \<Rightarrow> 'w \<Rightarrow> (error + 's) \<times> 'w) \<Rightarrow> ('k, 's) HTTPProxyGateway \<Rightarrow> 'w
     \<Rightarrow> error option \<times> ('k, 's) HTTPProxyGateway \<times> 'w" where
  "HTTPProxyGateway_Start listen g w =
     (case listen (hg_listenAddr g) w of
        (Inl e, w) \<Rightarrow> (Some e, g, w)
      | (Inr server, w) \<Rightarrow> (None, g\<lparr> hg_server := Some server \<rparr>, w))"

text \<open>
  \<open>order\<close> lists the hijacked connections as the map is visited. An error that says the connection is
  closed already does not count. The result is the list of joined errors.
\<close>

fun close_hijacked ::
  "('k, 'u, 'c, 'w) GwEnv \<Rightarrow> 'k list \<Rightarrow> 'w \<Rightarrow> error list \<times> 'w" where
  "close_hijacked ge [] w = ([], w)"
| "close_hijacked ge (k # ks) w =
     (let (err, w) = ge_CloseClient ge k w; (errs, w) = close_hijacked ge ks w
      in ((case err of
             Some e \<Rightarrow> if e = ErrOther ''use of closed network connection'' then errs else e # errs
           | None \<Rightarrow> errs), w))"

definition HTTPProxyGateway_Close ::
  "('k, 'u, 'c, 'w) GwEnv \<Rightarrow> ('s \<Rightarrow> 'w \<Rightarrow> error option \<times> 'w) \<Rightarrow> 'k list \<Rightarrow> ('k, 's) HTTPProxyGateway \<Rightarrow> 'w
     \<Rightarrow> error list \<times> ('k, 's) HTTPProxyGateway \<times> 'w" where
  "HTTPProxyGateway_Close ge shutdown order g w =
     (let server = hg_server g;
          g = g\<lparr> hg_server := None \<rparr>;
          (closeErr, w) = close_hijacked ge order w
      in case server of
           None \<Rightarrow> (closeErr, g, w)
         | Some s \<Rightarrow>
             (case shutdown s w of
                (Some e, w) \<Rightarrow> (closeErr @ [e], g, w)
              | (None, w) \<Rightarrow> (closeErr, g, w)))"

subsection \<open>Replies\<close>

definition status_text :: "int \<Rightarrow> string" where
  "status_text code =
     (if code = 400 then ''Bad Request''
      else if code = 407 then ''Proxy Authentication Required''
      else if code = 500 then ''Internal Server Error''
      else if code = 502 then ''Bad Gateway'' else '''')"

text \<open>\<^verbatim>\<open>http.Error\<close> with the text of the status, on a writer that has the given fields set.\<close>

definition http_Error :: "int \<Rightarrow> header \<Rightarrow> GwResponse" where
  "http_Error code h =
     \<lparr> gr_StatusCode = code,
       gr_Header = h(''Content-Type'' \<mapsto> [''text/plain; charset=utf-8''], ''X-Content-Type-Options'' \<mapsto> [''nosniff'']),
       gr_Body = status_text code @ [CHR 0x0A] \<rparr>"

definition writeHTTPProxyAuthenticationRequired :: GwResponse where
  "writeHTTPProxyAuthenticationRequired =
     http_Error 407 [httpProxyAuthenticate \<mapsto>
       [httpProxyBasicScheme @ '' realm='' @ [CHR 0x22] @ httpProxyRealm @ [CHR 0x22]]]"

subsection \<open>Tunnels\<close>

definition trackHijacked :: "'k \<Rightarrow> ('k, 's) HTTPProxyGateway \<Rightarrow> ('k, 's) HTTPProxyGateway" where
  "trackHijacked connection g = g\<lparr> hg_hijacked := insert connection (hg_hijacked g) \<rparr>"

definition untrackHijacked :: "'k \<Rightarrow> ('k, 's) HTTPProxyGateway \<Rightarrow> ('k, 's) HTTPProxyGateway" where
  "untrackHijacked connection g = g\<lparr> hg_hijacked := hg_hijacked g - {connection} \<rparr>"

definition closeConnectTunnels ::
  "('k, 'u, 'c, 'w) GwEnv \<Rightarrow> 'k \<Rightarrow> 'c releaseConn \<Rightarrow> Manager \<Rightarrow> ('k, 's) HTTPProxyGateway \<Rightarrow> 'w
     \<Rightarrow> 'c releaseConn \<times> Manager \<times> ('k, 's) HTTPProxyGateway \<times> 'w" where
  "closeConnectTunnels ge client upstream m g w =
     (let g = untrackHijacked client g;
          (_, w) = ge_CloseClient ge client w;
          (_, upstream, m, w) = releaseConn_Close (ge_dialer ge) upstream m w
      in (upstream, m, g, w))"

definition relayConnect ::
  "('k, 'u, 'c, 'w) GwEnv \<Rightarrow> 'k \<Rightarrow> 'c releaseConn \<Rightarrow> Manager \<Rightarrow> 'w \<Rightarrow> 'c releaseConn \<times> Manager \<times> 'w" where
  "relayConnect ge client upstream m w =
     (let (_, w) = ge_CopyDone ge client (rc_Conn upstream) w;
          (_, w) = ge_CloseClient ge client w;
          (_, upstream, m, w) = releaseConn_Close (ge_dialer ge) upstream m w;
          (_, w) = ge_CopyDone ge client (rc_Conn upstream) w
      in (upstream, m, w))"

definition httpProxyConnectSuccess :: string where
  "httpProxyConnectSuccess = ''HTTP/1.1 200 Connection Established'' @ [CHR 0x0D, CHR 0x0A, CHR 0x0D, CHR 0x0A]"

text \<open>
  \<^verbatim>\<open>handleConnect\<close> up to the point where the tunnel is open: either there is none, with the reply if
  one is written, or the two ends of the tunnel.
\<close>

definition connect_open ::
  "('k, 'u, 'c, 'w) GwEnv \<Rightarrow> GwRequest \<Rightarrow> string \<Rightarrow> string \<Rightarrow> Manager \<Rightarrow> ('k, 's) HTTPProxyGateway \<Rightarrow> 'w
     \<Rightarrow> (GwResponse option + 'k \<times> 'c releaseConn) \<times> Manager \<times> ('k, 's) HTTPProxyGateway \<times> 'w" where
  "connect_open ge r username password m g w =
     (if gq_Host r = '''' then (Inl (Some (http_Error 400 Map.empty)), m, g, w)
      else case dialLease (ge_sha256 ge) (ge_env ge) (ge_dialer ge) username password ''tcp'' (gq_Host r) m w of
        (Inl e, m, w) \<Rightarrow> (Inl (Some (http_Error 502 Map.empty)), m, g, w)
      | (Inr upstream, m, w) \<Rightarrow>
          (case ge_Hijack ge w of
             (None, w) \<Rightarrow>
               let (_, _, m, w) = releaseConn_Close (ge_dialer ge) upstream m w
               in (Inl (Some (http_Error 500 Map.empty)), m, g, w)
           | (Some (Inl e), w) \<Rightarrow>
               let (_, _, m, w) = releaseConn_Close (ge_dialer ge) upstream m w
               in (Inl None, m, g, w)
           | (Some (Inr client), w) \<Rightarrow> (Inr (client, upstream), m, trackHijacked client g, w)))"

definition handleConnect ::
  "('k, 'u, 'c, 'w) GwEnv \<Rightarrow> GwRequest \<Rightarrow> string \<Rightarrow> string \<Rightarrow> Manager \<Rightarrow> ('k, 's) HTTPProxyGateway \<Rightarrow> 'w
     \<Rightarrow> GwResponse option \<times> Manager \<times> ('k, 's) HTTPProxyGateway \<times> 'w" where
  "handleConnect ge r username password m g w =
     (case connect_open ge r username password m g w of
        (Inl reply, m, g, w) \<Rightarrow> (reply, m, g, w)
      | (Inr (client, upstream), m, g, w) \<Rightarrow>
          let (upstream, m, w) =
                (case ge_WriteString ge client httpProxyConnectSuccess w of
                   (Some e, w) \<Rightarrow> (upstream, m, w)
                 | (None, w) \<Rightarrow> relayConnect ge client upstream m w);
              (_, m, g, w) = closeConnectTunnels ge client upstream m g w
          in (None, m, g, w))"

subsection \<open>Forwarded requests\<close>

text \<open>
  The transport of a forwarded request keeps no connections: it dials one, and closes it when the
  exchange fails or when the body of the response is closed.
\<close>

definition handleForwardRequest ::
  "('k, 'u, 'c, 'w) GwEnv \<Rightarrow> GwRequest \<Rightarrow> string \<Rightarrow> string \<Rightarrow> Manager \<Rightarrow> 'w \<Rightarrow> GwResponse \<times> Manager \<times> 'w" where
  "handleForwardRequest ge r username password m w =
     (if url_Scheme (gq_URL r) = '''' \<or> url_Scheme (gq_URL r) \<noteq> proxySchemeHTTP \<or> url_Host (gq_URL r) = ''''
      then (http_Error 400 Map.empty, m, w)
      else
        let outbound = r\<lparr> gq_Header := stripProxyRequestHeaders (ge_fold ge) (ge_order ge (gq_Header r)) (gq_Header r) \<rparr>
        in case dialLease (ge_sha256 ge) (ge_env ge) (ge_dialer ge) username password ''tcp''
                  (ge_hostport ge (gq_URL r)) m w of
             (Inl e, m, w) \<Rightarrow> (http_Error 502 Map.empty, m, w)
           | (Inr connection, m, w) \<Rightarrow>
               (case ge_Exchange ge (rc_Conn connection) outbound w of
                  (Inl e, w) \<Rightarrow>
                    let (_, _, m, w) = releaseConn_Close (ge_dialer ge) connection m w
                    in (http_Error 502 Map.empty, m, w)
                | (Inr response, w) \<Rightarrow>
                    let header = stripProxyResponseHeaders (ge_fold ge) (ge_order ge (gr_Header response)) (gr_Header response);
                        header = copyHTTPHeaders (ge_order ge header) header Map.empty;
                        (body, w) = ge_CopyBody ge (gr_Body response) w;
                        (_, _, m, w) = releaseConn_Close (ge_dialer ge) connection m w
                    in (\<lparr> gr_StatusCode = gr_StatusCode response, gr_Header = header, gr_Body = body \<rparr>, m, w)))"

definition gateway_handle ::
  "('k, 'u, 'c, 'w) GwEnv \<Rightarrow> GwRequest \<Rightarrow> Manager \<Rightarrow> ('k, 's) HTTPProxyGateway \<Rightarrow> 'w
     \<Rightarrow> GwResponse option \<times> Manager \<times> ('k, 's) HTTPProxyGateway \<times> 'w" where
  "gateway_handle ge r m g w =
     (case proxyBasicCredentials (ge_fold ge) (gq_Header r) of
        None \<Rightarrow> (Some writeHTTPProxyAuthenticationRequired, m, g, w)
      | Some (username, password) \<Rightarrow>
          (case validLease (ge_sha256 ge) (ge_env ge) username password m w of
             (False, m, w) \<Rightarrow> (Some writeHTTPProxyAuthenticationRequired, m, g, w)
           | (True, m, w) \<Rightarrow>
               if gq_Method r = ''CONNECT'' then handleConnect ge r username password m g w
               else let (response, m, w) = handleForwardRequest ge r username password m w
                    in (Some response, m, g, w)))"

section \<open>The contract of a lease dialer\<close>

text \<open>
  What both gateways rely on: dialling reserves the cell of one pool, a refusal reserves nothing, and
  the first close of a connection gives its reservation back, later ones nothing.
\<close>

locale lease_dialer =
  fixes dial :: "'a \<Rightarrow> 's \<Rightarrow> (error + 'c) \<times> 's"
    and close :: "'c \<Rightarrow> 's \<Rightarrow> 'c \<times> 's"
    and ok :: "'s \<Rightarrow> bool"
    and held :: "'s \<Rightarrow> string \<Rightarrow> int"
    and is_closed :: "'c \<Rightarrow> bool"
    and pool_of :: "'c \<Rightarrow> string"
  assumes dial_ok: "ok s \<Longrightarrow> dial a s = (r, s') \<Longrightarrow> ok s'"
    and dial_refused: "ok s \<Longrightarrow> dial a s = (Inl e, s') \<Longrightarrow> held s' = held s"
    and dial_counted: "ok s \<Longrightarrow> dial a s = (Inr c, s') \<Longrightarrow>
          \<not> is_closed c \<and> held s' = (held s)(pool_of c := held s (pool_of c) + 1)"
    and close_ok: "ok s \<Longrightarrow> close c s = (c', s') \<Longrightarrow> ok s'"
    and close_marks: "close c s = (c', s') \<Longrightarrow> is_closed c' \<and> pool_of c' = pool_of c"
    and close_again: "is_closed c \<Longrightarrow> close c s = (c', s') \<Longrightarrow> held s' = held s"
    and close_first: "\<not> is_closed c \<Longrightarrow> 0 < held s (pool_of c) \<Longrightarrow> close c s = (c', s') \<Longrightarrow>
          held s' = (held s)(pool_of c := held s (pool_of c) - 1)"
    and held_nonneg: "ok s \<Longrightarrow> 0 \<le> held s p"
begin

definition accounted :: "(string \<Rightarrow> int) \<Rightarrow> 'c list \<Rightarrow> 's \<Rightarrow> bool" where
  "accounted base cs s \<longleftrightarrow>
     ok s \<and> (\<forall>p. 0 \<le> base p \<and> held s p = base p + int (length (filter (\<lambda>c. \<not> is_closed c \<and> pool_of c = p) cs)))"

lemma accounted_start: "ok s \<Longrightarrow> accounted (held s) [] s"
  by (simp add: accounted_def held_nonneg)

lemma accounted_dial:
  assumes "accounted base cs s" "dial a s = (r, s')"
  shows "accounted base (case r of Inl e \<Rightarrow> cs | Inr c \<Rightarrow> cs @ [c]) s'"
proof (cases r)
  case (Inl e)
  then show ?thesis using assms dial_ok dial_refused by (auto simp: accounted_def)
next
  case (Inr c)
  then show ?thesis
    using assms dial_ok [of s a r s'] dial_counted [of s a c s'] by (auto simp: accounted_def)
qed

lemma accounted_close:
  assumes "accounted base (us @ c # vs) s" "close c s = (c', s')"
  shows "accounted base (us @ c' # vs) s'"
proof (cases "is_closed c")
  case True
  then show ?thesis
    using assms close_again [OF True assms(2)] close_marks [OF assms(2)] close_ok
    by (auto simp: accounted_def)
next
  case False
  have "0 < held s (pool_of c)"
    using assms(1) False unfolding accounted_def by (simp add: add_nonneg_pos)
  then show ?thesis
    using assms close_first [OF False _ assms(2)] close_marks [OF assms(2)] close_ok False
    by (auto simp: accounted_def)
qed

lemma accounted_drop: "accounted base (us @ c # vs) s \<Longrightarrow> is_closed c \<Longrightarrow> accounted base (us @ vs) s"
  by (simp add: accounted_def)

lemma accounted_cong: "accounted base cs s \<Longrightarrow> ok s' \<Longrightarrow> held s' = held s \<Longrightarrow> accounted base cs s'"
  by (simp add: accounted_def)

lemma accounted_end: "accounted base [] s \<Longrightarrow> held s = base \<and> ok s"
  by (auto simp: accounted_def)

text \<open>A connection that is dialled and closed, once or twice, leaves the counters alone.\<close>

lemma dial_close:
  assumes "ok s" "dial a s = (Inr c, s1)" "ok s2" "held s2 = held s1" "close c s2 = (c', s3)"
  shows "ok s3 \<and> held s3 = held s \<and> is_closed c'"
proof -
  have "accounted (held s) [c] s1"
    using accounted_dial [OF accounted_start [OF assms(1)] assms(2)] by simp
  then have "accounted (held s) [c] s2" by (rule accounted_cong [OF _ assms(3,4)])
  then have "accounted (held s) [c'] s3"
    using accounted_close [where us = "[]" and vs = "[]", OF _ assms(5)] by simp
  then show ?thesis
    using accounted_drop [where us = "[]" and vs = "[]"] accounted_end close_marks [OF assms(5)] by force
qed

end

text \<open>The manager is such a dialer. A destination is its network and its address.\<close>

definition lease_dial ::
  "(string \<Rightarrow> string) \<Rightarrow> 'w Env \<Rightarrow> ('u, 'c, 'w) Dialer \<Rightarrow> (string \<times> string) \<times> string \<times> string
     \<Rightarrow> Manager \<times> 'w \<Rightarrow> (error + 'c releaseConn) \<times> Manager \<times> 'w" where
  "lease_dial sha256 env dl a s =
     dialLease sha256 env dl (fst (fst a)) (snd (fst a)) (fst (snd a)) (snd (snd a)) (fst s) (snd s)"

definition conn_close ::
  "('u, 'c, 'w) Dialer \<Rightarrow> 'c releaseConn \<Rightarrow> Manager \<times> 'w \<Rightarrow> 'c releaseConn \<times> Manager \<times> 'w" where
  "conn_close dl c s = snd (releaseConn_Close dl c (fst s) (snd s))"

lemma inflight_nonneg: "mgr_wf m \<Longrightarrow> 0 \<le> inflight m p"
  using slot_wf_InFlight [OF mgr_wf_slot]
  by (fastforce simp: inflight_def slots_def split: option.splits)

lemma inflight_held:
  assumes "0 < inflight m p"
  obtains t where "slots m p = Some (Some t)" "0 < tun_InFlight t"
  using assms by (auto simp: inflight_def split: option.splits)

lemma dialLease_counts:
  assumes "mgr_wf m" "dialLease sha256 env dl u pw network address m w = (res, m', w')"
  shows "(\<forall>e. res = Inl e \<longrightarrow> inflight m' = inflight m)
    \<and> (\<forall>c. res = Inr c \<longrightarrow> \<not> rc_once c
         \<and> inflight m' = (inflight m)(acq_Pool (rc_release c) := inflight m (acq_Pool (rc_release c)) + 1))"
proof -
  obtain a m1 wa where l: "AcquireForLease sha256 env u pw m w = (a, m1, wa)" by (metis surj_pair)
  show ?thesis
  proof (cases a)
    case (Inl e)
    have "slots m1 = slots m"
      using assms(1) l [unfolded Inl]
      by (cases rule: AcquireForLease_cases) (auto simp: slots_def fun_eq_iff)
    then show ?thesis
      using assms(2) l Inl by (auto simp: dialLease_def inflight_def fun_eq_iff)
  next
    case (Inr acq)
    then show ?thesis
      using assms(2) l lease_inflight [OF assms(1) l [unfolded Inr]]
      by (auto simp: dialLease_def Let_def split: sum.splits if_splits prod.splits)
  qed
qed

lemma conn_close_first:
  assumes "\<not> rc_once c" "0 < inflight (fst s) (acq_Pool (rc_release c))" "conn_close dl c s = (c', s')"
  shows "inflight (fst s') =
    (inflight (fst s))(acq_Pool (rc_release c) := inflight (fst s) (acq_Pool (rc_release c)) - 1)"
proof -
  obtain t where "slots (fst s) (acq_Pool (rc_release c)) = Some (Some t)" "0 < tun_InFlight t"
    using assms(2) by (rule inflight_held)
  then show ?thesis
    using assms(1,3)
    by (auto simp: conn_close_def releaseConn_Close_def inflight_release inflight_def [of "fst s" "acq_Pool (rc_release c)"]
        split: prod.splits)
qed

interpretation lease: lease_dialer "lease_dial sha256 env dl" "conn_close dl" "\<lambda>s. mgr_wf (fst s)"
  "\<lambda>s. inflight (fst s)" rc_once "\<lambda>c. acq_Pool (rc_release c)" for sha256 env dl
  by unfold_locales
    (auto simp: lease_dial_def conn_close_first inflight_nonneg dest: dialLease_counts dialLease_wf,
     auto simp: conn_close_def releaseConn_Close_def manager_Release_wf split: prod.splits if_splits)

section \<open>Reservations of the HTTP proxy\<close>

text \<open>The in-flight counters are those of \<open>base\<close> and one more for every open connection of a list.\<close>

definition reserved_by :: "(string \<Rightarrow> int) \<Rightarrow> 'c releaseConn list \<Rightarrow> Manager \<Rightarrow> bool" where
  "reserved_by base cs m \<longleftrightarrow>
     mgr_wf m \<and> (\<forall>p. 0 \<le> base p \<and> inflight m p =
       base p + int (length (filter (\<lambda>c. \<not> rc_once c \<and> acq_Pool (rc_release c) = p) cs)))"

lemma reserved_world: "lease.accounted base cs s \<longleftrightarrow> reserved_by base cs (fst s)"
  unfolding lease.accounted_def reserved_by_def ..

lemma reserved_start: "mgr_wf m \<Longrightarrow> reserved_by (inflight m) [] m"
  by (simp add: reserved_by_def inflight_nonneg)

lemma reserved_end: "reserved_by base [] m \<Longrightarrow> inflight m = base \<and> mgr_wf m"
  by (auto simp: reserved_by_def)

lemma reserved_drop: "reserved_by base (us @ c # vs) m \<Longrightarrow> rc_once c \<Longrightarrow> reserved_by base (us @ vs) m"
  by (simp add: reserved_by_def)

lemma reserved_cong: "reserved_by base cs m \<Longrightarrow> mgr_wf m' \<Longrightarrow> inflight m' = inflight m \<Longrightarrow> reserved_by base cs m'"
  by (simp add: reserved_by_def)

lemma reserved_dial:
  assumes "reserved_by base cs m" "dialLease sha256 env dl u pw network address m w = (r, m', w')"
  shows "reserved_by base (case r of Inl e \<Rightarrow> cs | Inr c \<Rightarrow> cs @ [c]) m'"
  using lease.accounted_dial [of base cs "(m, w)" sha256 env dl "((u, pw), network, address)" r "(m', w')"] assms
  by (simp add: reserved_world lease_dial_def)

lemma reserved_close:
  assumes "reserved_by base (us @ c # vs) m" "releaseConn_Close dl c m w = (err, c', m', w')"
  shows "reserved_by base (us @ c' # vs) m' \<and> rc_once c'"
  using lease.accounted_close [of base us c vs "(m, w)" dl c' "(m', w')"]
    lease.close_marks [of dl c "(m, w)" c' "(m', w')"] assms
  by (simp add: reserved_world conn_close_def)

lemma reserved_session:
  assumes "reserved_by base (cs @ [c]) m" "releaseConn_Close dl c m w = (err, c', m', w')"
  shows "reserved_by base cs m'"
  using reserved_close [of base cs c "[]" m, OF _ assms(2)] assms(1) reserved_drop [of base cs c' "[]" m'] by simp

lemma connect_open_reserved:
  assumes "reserved_by base cs m" "connect_open ge r u pw m g w = (res, m', g', w')"
  shows "reserved_by base (case res of Inl reply \<Rightarrow> cs | Inr (client, upstream) \<Rightarrow> cs @ [upstream]) m'
    \<and> g' = (case res of Inl reply \<Rightarrow> g | Inr (client, upstream) \<Rightarrow> trackHijacked client g)
    \<and> (\<forall>client upstream. res = Inr (client, upstream) \<longrightarrow> (\<exists>w1. ge_Hijack ge w1 = (Some (Inr client), w')))"
proof -
  obtain d m1 w1 where d: "dialLease (ge_sha256 ge) (ge_env ge) (ge_dialer ge) u pw ''tcp'' (gq_Host r) m w = (d, m1, w1)"
    by (metis surj_pair)
  note reserved = reserved_dial [OF assms(1) d]
  show ?thesis
  proof (cases "gq_Host r = ''''")
    case True
    then show ?thesis using assms by (auto simp: connect_open_def)
  next
    case False
    obtain h w2 where h: "ge_Hijack ge w1 = (h, w2)" by fastforce
    show ?thesis
    proof (cases d)
      case (Inl e)
      then show ?thesis using assms(2) False d reserved by (auto simp: connect_open_def)
    next
      case (Inr c)
      obtain err c' m2 w3 where c: "releaseConn_Close (ge_dialer ge) c m1 w2 = (err, c', m2, w3)" by (metis surj_pair)
      have "reserved_by base cs m2" using reserved_session [OF _ c] reserved Inr by simp
      then show ?thesis
        using assms(2) False d reserved Inr h c by (auto simp: connect_open_def split: option.splits sum.splits)
    qed
  qed
qed

lemma relayConnect_reserved:
  assumes "reserved_by base (us @ c # vs) m" "relayConnect ge client c m w = (c', m', w')"
  shows "reserved_by base (us @ c' # vs) m' \<and> rc_once c'"
  using assms by (auto simp: relayConnect_def Let_def split: prod.splits dest: reserved_close)

lemma closeConnectTunnels_reserved:
  assumes "reserved_by base (us @ c # vs) m" "closeConnectTunnels ge client c m g w = (c', m', g', w')"
  shows "reserved_by base (us @ c' # vs) m' \<and> rc_once c' \<and> g' = untrackHijacked client g"
  using assms by (auto simp: closeConnectTunnels_def Let_def split: prod.splits dest: reserved_close)

lemma handleConnect_reserved:
  fixes ge :: "('k, 'u, 'c, 'w) GwEnv" and cs :: "'c releaseConn list"
  assumes "reserved_by base cs m" "handleConnect ge r u pw m g w = (reply, m', g', w')"
    and fresh: "\<And>w k w'. ge_Hijack ge w = (Some (Inr k), w') \<Longrightarrow> k \<notin> hg_hijacked g"
  shows "reserved_by base cs m' \<and> g' = g"
proof -
  obtain res m1 g1 w1 where o: "connect_open ge r u pw m g w = (res, m1, g1, w1)" by (metis prod_cases4)
  note opened = connect_open_reserved [OF assms(1) o]
  show ?thesis
  proof (cases res)
    case (Inl reply')
    then show ?thesis using opened o assms(2) by (auto simp: handleConnect_def)
  next
    case (Inr pr)
    obtain client c where pr: "pr = (client, c)" by fastforce
    have start: "reserved_by base (cs @ [c]) m1" "g1 = trackHijacked client g" "client \<notin> hg_hijacked g"
      using opened Inr pr fresh by auto
    obtain err wa where wr: "ge_WriteString ge client httpProxyConnectSuccess w1 = (err, wa)" by fastforce
    obtain c1 ma wb where rl: "relayConnect ge client c m1 wa = (c1, ma, wb)" by (metis surj_pair)
    define c2 m2 w2 where "c2 = (if err = None then c1 else c)" and "m2 = (if err = None then ma else m1)"
      and "w2 = (if err = None then wb else wa)"
    then have r: "(case ge_WriteString ge client httpProxyConnectSuccess w1 of
        (Some e, w) \<Rightarrow> (c, m1, w) | (None, w) \<Rightarrow> relayConnect ge client c m1 w) = (c2, m2, w2)"
      by (simp add: wr rl split: option.splits)
    have "reserved_by base (cs @ [c2]) m2"
      using start(1) relayConnect_reserved [OF start(1) rl] by (simp add: c2_def m2_def)
    moreover obtain c3 m3 g3 w3 where e: "closeConnectTunnels ge client c2 m2 g1 w2 = (c3, m3, g3, w3)"
      by (metis prod_cases4)
    ultimately have "reserved_by base (cs @ [c3]) m3 \<and> rc_once c3 \<and> g3 = untrackHijacked client g1"
      by (intro closeConnectTunnels_reserved [where us = cs and vs = "[]"])
    moreover have "m' = m3" "g' = g3" using assms(2) o Inr pr r e by (simp_all add: handleConnect_def)
    ultimately show ?thesis
      using start reserved_drop [of base cs c3 "[]"] by (simp add: trackHijacked_def untrackHijacked_def)
  qed
qed

lemma handleForward_reserved:
  fixes ge :: "('k, 'u, 'c, 'w) GwEnv" and cs :: "'c releaseConn list"
  assumes "reserved_by base cs m" "handleForwardRequest ge r u pw m w = (response, m', w')"
  shows "reserved_by base cs m'"
proof -
  obtain d m1 w1 where d: "dialLease (ge_sha256 ge) (ge_env ge) (ge_dialer ge) u pw ''tcp''
      (ge_hostport ge (gq_URL r)) m w = (d, m1, w1)"
    by (metis surj_pair)
  note reserved = reserved_dial [OF assms(1) d]
  show ?thesis
  proof (cases d)
    case (Inl e)
    then show ?thesis using assms d reserved by (auto simp: handleForwardRequest_def Let_def split: if_splits)
  next
    case (Inr c)
    have "reserved_by base cs m2" if "releaseConn_Close (ge_dialer ge) c m1 w2 = (err, c', m2, w3)" for err c' m2 w2 w3
      using reserved_session [OF _ that] reserved Inr by simp
    then show ?thesis
      using assms d Inr
      by (auto simp: handleForwardRequest_def Let_def split: if_splits prod.splits sum.splits)
  qed
qed

lemma validLease_reserved:
  assumes "reserved_by base cs m" "validLease sha256 env u pw m w = (b, m', w')"
  shows "reserved_by base cs m'"
proof -
  have "mgr_wf m'" using validLease_wf assms by (auto simp: reserved_by_def)
  moreover have "inflight m' = inflight m"
    using assms(2) by (auto simp: validLease_def inflight_def slots_def fun_eq_iff split: prod.splits)
  ultimately show ?thesis by (rule reserved_cong [OF assms(1)])
qed

text \<open>C29: the HTTP proxy serves lease holders only and keeps nothing. A request whose header does not
  carry the credentials of a valid lease is answered with 407 and the challenge, after at most a look
  at the clock, and changes no slot. Whatever else happens to a request, including a failed dial, a
  failed takeover of the connection, or a failed exchange, all in-flight counters and the set of
  tunnels are the same after it as before.\<close>

theorem http_proxy_guarded:
  fixes ge :: "('k, 'u, 'c, 'w) GwEnv"
  assumes "mgr_wf m" "gateway_handle ge r m g w = (reply, m', g', w')"
    and "\<And>w k w'. ge_Hijack ge w = (Some (Inr k), w') \<Longrightarrow> k \<notin> hg_hijacked g"
  shows "mgr_wf m' \<and> inflight m' = inflight m \<and> g' = g
    \<and> ((\<nexists>u pw. proxyBasicCredentials (ge_fold ge) (gq_Header r) = Some (u, pw)
          \<and> fst (Lookup (ge_sha256 ge) (ge_env ge) u pw (m_leases m) w) \<noteq> None) \<longrightarrow>
         reply = Some writeHTTPProxyAuthenticationRequired \<and> slots m' = slots m
         \<and> w' \<in> {w, snd (env_Now (ge_env ge) w)})"
proof -
  have start: "reserved_by (inflight m) ([] :: 'c releaseConn list) m" by (rule reserved_start [OF assms(1)])
  show ?thesis
  proof (cases "proxyBasicCredentials (ge_fold ge) (gq_Header r)")
    case None
    then show ?thesis using assms(1,2) by (simp add: gateway_handle_def)
  next
    case (Some up)
    obtain u pw where up: "up = (u, pw)" by fastforce
    obtain b m1 w1 where v: "validLease (ge_sha256 ge) (ge_env ge) u pw m w = (b, m1, w1)" by (metis surj_pair)
    note valid = validLease_reserved [OF start v]
    have look: "b \<longleftrightarrow> fst (Lookup (ge_sha256 ge) (ge_env ge) u pw (m_leases m) w) \<noteq> None"
      "slots m1 = slots m" "w1 = snd (env_Now (ge_env ge) w)"
      using v Lookup_state [of "ge_sha256 ge" "ge_env ge" u pw "m_leases m" w]
      by (auto simp: validLease_def slots_def split: prod.splits)
    show ?thesis
    proof (cases b)
      case False
      then show ?thesis
        using assms(2) Some up v look reserved_end [OF valid] by (auto simp: gateway_handle_def)
    next
      case True
      have "reserved_by (inflight m) ([] :: 'c releaseConn list) m' \<and> g' = g"
      proof (cases "gq_Method r = ''CONNECT''")
        case c: True
        then have "handleConnect ge r u pw m1 g w1 = (reply, m', g', w')"
          using assms(2) Some up v True by (simp add: gateway_handle_def)
        then show ?thesis by (rule handleConnect_reserved [OF valid _ assms(3)])
      next
        case False
        then show ?thesis
          using assms(2) Some up v True handleForward_reserved [OF valid]
          by (auto simp: gateway_handle_def Let_def split: prod.splits)
      qed
      then show ?thesis using reserved_end True look(1) Some up by fastforce
    qed
  qed
qed

definition demo_gateway_env :: "(nat, unit, unit, nat) GwEnv" where
  "demo_gateway_env =
     \<lparr> ge_sha256 = rev, ge_env = demo_env, ge_dialer = demo_dialer, ge_fold = (=), ge_order = (\<lambda>_. []),
       ge_Hijack = (\<lambda>w. (Some (Inr w), w)), ge_WriteString = (\<lambda>_ _ w. (None, w)), ge_CloseClient = (\<lambda>_ w. (None, w)),
       ge_CopyDone = (\<lambda>_ _ w. (None, w)), ge_hostport = url_Host,
       ge_Exchange = (\<lambda>_ _ w. (Inl (ErrOther ''reset''), w)), ge_CopyBody = Pair \<rparr>"

definition demo_connect :: GwRequest where
  "demo_connect =
     \<lparr> gq_Method = ''CONNECT'', gq_Host = ''example.com:443'',
       gq_URL = \<lparr> url_Scheme = '''', url_Host = ''example.com:443'', url_User = None \<rparr>,
       gq_Header = [httpProxyAuthHeader \<mapsto> [basic_value ''id'' ''secret'']] \<rparr>"

lemma demo_inflight: "inflight demo_leased ''eu'' = 0"
  by (simp add: inflight_def demo_leased_slot) (simp add: demo_tunnel_def)

definition demo_gateway :: "(nat, unit) HTTPProxyGateway" where
  "demo_gateway = NewHTTPProxyGateway ''a:1''"

theorem http_proxy_guarded_witness:
  "\<exists>reply m' g' w'. gateway_handle demo_gateway_env demo_connect demo_leased demo_gateway 0 = (reply, m', g', w')
     \<and> inflight m' ''eu'' = 0 \<and> hg_hijacked g' = {}"
proof -
  obtain reply m' g' w' where
    h: "gateway_handle demo_gateway_env demo_connect demo_leased demo_gateway 0 = (reply, m', g', w')"
    by (metis prod_cases4)
  have "inflight m' = inflight demo_leased" "g' = demo_gateway"
    using http_proxy_guarded [OF demo_leased_wf h] by (simp_all add: demo_gateway_def NewHTTPProxyGateway_def)
  then have "inflight m' ''eu'' = 0 \<and> hg_hijacked g' = {}"
    using demo_inflight by (simp add: demo_gateway_def NewHTTPProxyGateway_def)
  with h show ?thesis by blast
qed

section \<open>Concurrent connections\<close>

text \<open>
  Connections of both gateways at the same time. The state is the manager, the HTTP gateway, the open
  connections with the hijacked client end of a tunnel, and the world. A step is a dial of the SOCKS5
  server or of a transport, the opening of a tunnel, a close of a connection by whoever holds it, the
  end of a tunnel or of another connection, a check of credentials, the closing of the HTTP gateway,
  or a change of the world.
\<close>

type_synonym ('k, 's, 'c, 'w) gw_state =
  "Manager \<times> ('k, 's) HTTPProxyGateway \<times> ('k option \<times> 'c releaseConn) list \<times> 'w"

inductive gw_step :: "('k, 'u, 'c, 'w) GwEnv \<Rightarrow> ('k, 's, 'c, 'w) gw_state \<Rightarrow> ('k, 's, 'c, 'w) gw_state \<Rightarrow> bool"
  for ge where
  socks_dial: "ProxyGateway_dial (ge_sha256 ge) (ge_env ge) (ge_dialer ge) network address auth m w = (r, m', w') \<Longrightarrow>
    gw_step ge (m, g, cs, w) (m', g, (case r of Inl e \<Rightarrow> cs | Inr c \<Rightarrow> cs @ [(None, c)]), w')"
| transport_dial: "dialLease (ge_sha256 ge) (ge_env ge) (ge_dialer ge) u pw network address m w = (r, m', w') \<Longrightarrow>
    gw_step ge (m, g, cs, w) (m', g, (case r of Inl e \<Rightarrow> cs | Inr c \<Rightarrow> cs @ [(None, c)]), w')"
| connect: "connect_open ge r u pw m g w = (Inr (k, c), m', g', w') \<Longrightarrow> k \<notin> hg_hijacked g \<Longrightarrow>
    gw_step ge (m, g, cs, w) (m', g', cs @ [(Some k, c)], w')"
| connect_refused: "connect_open ge r u pw m g w = (Inl reply, m', g', w') \<Longrightarrow> gw_step ge (m, g, cs, w) (m', g', cs, w')"
| conn_closed: "releaseConn_Close (ge_dialer ge) c m w = (err, c', m', w') \<Longrightarrow>
    gw_step ge (m, g, us @ (k, c) # vs, w) (m', g, us @ (k, c') # vs, w')"
| tunnel_ends: "closeConnectTunnels ge k c m g w = (c', m', g', w') \<Longrightarrow>
    gw_step ge (m, g, us @ (Some k, c) # vs, w) (m', g', us @ vs, w')"
| conn_gone: "rc_once c \<Longrightarrow> gw_step ge (m, g, us @ (None, c) # vs, w) (m, g, us @ vs, w)"
| checked: "validLease (ge_sha256 ge) (ge_env ge) u pw m w = (b, m', w') \<Longrightarrow> gw_step ge (m, g, cs, w) (m', g, cs, w')"
| socks_checked: "proxyLeaseCredentials_Valid (ge_sha256 ge) (ge_env ge) u pw m w = (b, m', w') \<Longrightarrow>
    gw_step ge (m, g, cs, w) (m', g, cs, w')"
| gateway_closes: "HTTPProxyGateway_Close ge shutdown order g w = (errs, g', w') \<Longrightarrow>
    gw_step ge (m, g, cs, w) (m, g', cs, w')"
| world: "gw_step ge (m, g, cs, w) (m, g, cs, w')"

definition tunnel_clients :: "('k option \<times> 'c) list \<Rightarrow> 'k list" where
  "tunnel_clients cs = List.map_filter fst cs"

definition gw_inv :: "(string \<Rightarrow> int) \<Rightarrow> ('k, 's, 'c, 'w) gw_state \<Rightarrow> bool" where
  "gw_inv base s = (case s of (m, g, cs, w) \<Rightarrow>
     reserved_by base (map snd cs) m \<and> distinct (tunnel_clients cs) \<and> hg_hijacked g = set (tunnel_clients cs))"

lemma tunnel_clients_simps [simp]:
  "tunnel_clients [] = []" "tunnel_clients (us @ vs) = tunnel_clients us @ tunnel_clients vs"
  "tunnel_clients ((None, c) # cs) = tunnel_clients cs" "tunnel_clients ((Some k, c) # cs) = k # tunnel_clients cs"
  "tunnel_clients ((k', c) # cs) = (case k' of None \<Rightarrow> [] | Some k \<Rightarrow> [k]) @ tunnel_clients cs"
  by (auto simp: tunnel_clients_def List.map_filter_def split: option.splits)

lemma Close_hijacked: "HTTPProxyGateway_Close ge shutdown order g w = (errs, g', w') \<Longrightarrow> hg_hijacked g' = hg_hijacked g"
  by (auto simp: HTTPProxyGateway_Close_def Let_def split: prod.splits option.splits)

lemma Valid_eq: "proxyLeaseCredentials_Valid = validLease"
  by (simp add: fun_eq_iff proxyLeaseCredentials_Valid_def validLease_def)

lemma socks_dial_reserved:
  assumes "reserved_by base cs m" "ProxyGateway_dial sha256 env dl network address auth m w = (r, m', w')"
  shows "reserved_by base (case r of Inl e \<Rightarrow> cs | Inr c \<Rightarrow> cs @ [c]) m'"
proof (cases auth)
  case None
  then show ?thesis using assms by (auto simp: ProxyGateway_dial_def)
next
  case (Some payload)
  show ?thesis
    by (rule reserved_dial [OF assms(1) assms(2) [unfolded ProxyGateway_dial_def Some option.case Let_def]])
qed

lemma gw_step_inv: "gw_step ge s s' \<Longrightarrow> gw_inv base s \<Longrightarrow> gw_inv base s'"
proof (induction rule: gw_step.induct)
  case (socks_dial network address auth m w r m' w' g cs)
  then show ?case
    using socks_dial_reserved [OF _ socks_dial.hyps(1), of base "map snd cs"] by (cases r) (simp_all add: gw_inv_def)
next
  case (transport_dial u pw network address m w r m' w' g cs)
  then show ?case
    using reserved_dial [OF _ transport_dial.hyps(1), of base "map snd cs"] by (cases r) (simp_all add: gw_inv_def)
next
  case (connect r u pw m g w k c m' g' w' cs)
  then show ?case
    using connect_open_reserved [OF _ connect.hyps(1), of base "map snd cs"] by (auto simp: gw_inv_def trackHijacked_def)
next
  case (connect_refused r u pw m g w reply m' g' w' cs)
  then show ?case
    using connect_open_reserved [OF _ connect_refused.hyps(1), of base "map snd cs"] by (auto simp: gw_inv_def)
next
  case (conn_closed c m w err c' m' w' g us k vs)
  then show ?case
    using reserved_close [OF _ conn_closed.hyps(1), of base "map snd us" "map snd vs"] by (auto simp: gw_inv_def)
next
  case (tunnel_ends k c m g w c' m' g' w' us vs)
  then have "reserved_by base (map snd us @ c' # map snd vs) m' \<and> rc_once c' \<and> g' = untrackHijacked k g"
    by (intro closeConnectTunnels_reserved [OF _ tunnel_ends.hyps(1)]) (simp add: gw_inv_def)
  with tunnel_ends show ?case
    using reserved_drop [of base "map snd us" c' "map snd vs" m'] by (auto simp: gw_inv_def untrackHijacked_def)
next
  case (conn_gone c m g us vs w)
  then show ?case using reserved_drop [of base "map snd us" c "map snd vs" m] by (simp add: gw_inv_def)
next
  case (checked u pw m w b m' w' g cs)
  then show ?case using validLease_reserved [OF _ checked.hyps(1), of base "map snd cs"] by (simp add: gw_inv_def)
next
  case (socks_checked u pw m w b m' w' g cs)
  then show ?case
    using validLease_reserved [OF _ socks_checked.hyps(1) [unfolded Valid_eq], of base "map snd cs"]
    by (simp add: gw_inv_def)
next
  case (gateway_closes shutdown order g w errs g' w' m cs)
  then show ?case by (simp add: gw_inv_def Close_hijacked)
next
  case (world m g cs w w')
  then show ?case by (simp add: gw_inv_def)
qed

text \<open>C30: however the connections of both gateways interleave, the in-flight counter of a pool is what
  it was before plus the number of its connections that have not been closed, and the set of hijacked
  connections that a shutdown closes is exactly that of the open tunnels. When all connections are
  gone, nothing is reserved and nothing is tracked any more.\<close>

theorem tunnels_accounted:
  assumes "mgr_wf m0" "hg_hijacked g0 = {}" "(gw_step ge)\<^sup>*\<^sup>* (m0, g0, [], w0) (m, g, cs, w)"
  shows "mgr_wf m
    \<and> inflight m p = inflight m0 p + int (length (filter (\<lambda>c. \<not> rc_once c \<and> acq_Pool (rc_release c) = p) (map snd cs)))
    \<and> hg_hijacked g = {k. \<exists>c. (Some k, c) \<in> set cs}"
proof -
  have "gw_inv (inflight m0) (m, g, cs, w)"
    using assms(3)
  proof (induction rule: rtranclp_induct2 [where ?r = "\<lambda>a b. gw_step ge a b", consumes 1])
    case refl
    show ?case using assms(1,2) reserved_start by (simp add: gw_inv_def)
  qed (use gw_step_inv in blast)
  moreover have "set (tunnel_clients cs) = {k. \<exists>c. (Some k, c) \<in> set cs}"
    by (induction cs) (auto split: option.splits)
  ultimately show ?thesis by (auto simp: gw_inv_def reserved_by_def)
qed

theorem tunnels_accounted_witness:
  "\<exists>m c w. (gw_step demo_gateway_env)\<^sup>*\<^sup>* (demo_leased, demo_gateway, [], 0) (m, demo_gateway, [(None, c)], w)
     \<and> inflight m ''eu'' = 1"
proof -
  obtain c :: "unit releaseConn" and m w where
    d: "dialLease rev demo_env demo_dialer ''id'' ''secret'' ''tcp'' ''example.com:443'' demo_leased 0 = (Inr c, m, w)"
    and p: "acq_Pool (rc_release c) = ''eu''" "\<not> rc_once c"
    by (simp add: dialLease_def AcquireForLease_def Lookup_def demo_leased_def pruneExpiredLocked_def
        demo_env_def demo_dialer_def acquireContainer_def demo_tunnel_def Let_def)
  have "dialLease (ge_sha256 demo_gateway_env) (ge_env demo_gateway_env) (ge_dialer demo_gateway_env)
      ''id'' ''secret'' ''tcp'' ''example.com:443'' demo_leased 0 = (Inr c, m, w)"
    using d by (simp add: demo_gateway_env_def)
  from transport_dial [OF this, of demo_gateway "[]"]
  have s: "(gw_step demo_gateway_env)\<^sup>*\<^sup>* (demo_leased, demo_gateway, [], 0) (m, demo_gateway, [(None, c)], w)"
    by simp
  have "hg_hijacked demo_gateway = {}" by (simp add: demo_gateway_def NewHTTPProxyGateway_def)
  from tunnels_accounted [OF demo_leased_wf this s, of "''eu''"] s p demo_inflight show ?thesis by auto
qed

section \<open>The HTTP URL of a lease\<close>

lemma base64_char_colon: "base64_char n \<noteq> CHR '':''"
proof -
  have "(of_char (base64_char n) :: nat) \<noteq> 58" by (auto simp: base64_char_def)
  then show ?thesis by auto
qed

lemma base64_encode_colon: "CHR '':'' \<notin> set (base64_encode s)"
  by (induction s rule: base64_encode.induct) (simp_all add: Let_def base64_char_colon base64_char_colon [symmetric])

lemma base64_encode_empty: "base64_encode s = [] \<longleftrightarrow> s = []"
  by (cases s rule: base64_encode.cases) (simp_all add: Let_def)

text \<open>A read from the random source that succeeds fills the whole buffer.\<close>

definition full_reads :: "'w Env \<Rightarrow> bool" where
  "full_reads env \<longleftrightarrow>
     (\<forall>n w bytes w'. env_RandRead env n w = (Inr bytes, w') \<longrightarrow> length bytes = n)"

lemma newLeasePart_credential:
  assumes "full_reads env" and "fst (newLeasePart env w) = Inr part"
  shows "part \<noteq> [] \<and> CHR '':'' \<notin> set part"
proof -
  obtain bytes w' where r: "env_RandRead env proxyLeaseSecretBytes w = (Inr bytes, w')" "part = base64_encode bytes"
    using assms(2) by (auto simp: newLeasePart_def split: prod.splits sum.splits)
  then have "length bytes = proxyLeaseSecretBytes" using assms(1) unfolding full_reads_def by blast
  then have "bytes \<noteq> []" by (auto simp: proxyLeaseSecretBytes_def)
  with r(2) show ?thesis by (simp add: base64_encode_empty base64_encode_colon)
qed

text \<open>C31: the HTTP URL of a lease opens the HTTP proxy. It parses to the public address of the proxy with a
  user name and a password, and a request that carries these as Basic credentials before the lease
  expires is admitted: it is handled with credentials that the registry maps to the leased cell, and
  the check itself changes no slot. The random source gives as many bytes as it is asked for.\<close>

theorem http_lease_admitted:
  assumes "IssueLease (ge_sha256 ge) (ge_env ge) acq m w = (Inr lease, m1, w1)" "acq_Tunnel acq = Some t"
    and "host_ok (reg_httpProxyPublicAddr (m_leases m))" "acq_Pool acq \<in> dom (m_pools m)"
    and "full_reads (ge_env ge)" "fst (env_Now (ge_env ge) w2) < pl_ExpiresAt lease"
  shows "\<exists>u leaseID secret rec m2 w3. Parse lit (px_HTTP (pl_Proxies lease)) = Some u
    \<and> url_Host u = reg_httpProxyPublicAddr (m_leases m) \<and> url_User u = Some (leaseID, Some secret)
    \<and> fst (Lookup (ge_sha256 ge) (ge_env ge) leaseID secret (m_leases m1) w2) = Some rec
    \<and> lease_Pool rec = acq_Pool acq \<and> lease_ContainerID rec = tun_ContainerID t \<and> slots m2 = slots m1
    \<and> (\<forall>r. gq_Header r httpProxyAuthHeader = Some [basic_value leaseID secret] \<longrightarrow>
         gateway_handle ge r m1 g w2 =
           (if gq_Method r = ''CONNECT'' then handleConnect ge r leaseID secret m2 g w3
            else (case handleForwardRequest ge r leaseID secret m2 w3 of (response, m3, w4) \<Rightarrow> (Some response, m3, g, w4))))"
proof -
  obtain res reg w1' where s: "Issue (ge_sha256 ge) (ge_env ge) acq (m_leases m) w = (res, reg, w1')" by (metis surj_pair)
  have res: "res = Inr lease" "m_leases m1 = reg"
    using assms(1,2,4) s by (auto simp: IssueLease_def Let_def split: sum.splits option.splits)
  from s [unfolded res(1)] obtain t' leaseID secret where l: "acq_Tunnel acq = Some t'"
    "fst (newLeasePart (ge_env ge) w) = Inr leaseID"
    "fst (newLeasePart (ge_env ge) (snd (newLeasePart (ge_env ge) w))) = Inr secret"
    "px_HTTP (pl_Proxies lease) = url_String (lease_url proxySchemeHTTP (reg_httpProxyPublicAddr (m_leases m)) leaseID secret)"
    "reg_leases reg leaseID = Some (lease_record (ge_sha256 ge) acq t' secret (pl_ExpiresAt lease))"
    by (rule Issue_ok) auto
  let ?u = "lease_url proxySchemeHTTP (reg_httpProxyPublicAddr (m_leases m)) leaseID secret"
  let ?rec = "lease_record (ge_sha256 ge) acq t' secret (pl_ExpiresAt lease)"
  have sch: "scheme_ok proxySchemeHTTP" by code_simp
  have parse: "Parse lit (px_HTTP (pl_Proxies lease)) = Some ?u"
    unfolding l(4) by (rule Parse_String) (simp_all add: lease_url_def sch assms(3))
  have found: "fst (Lookup (ge_sha256 ge) (ge_env ge) leaseID secret (m_leases m1) w2) = Some ?rec"
    using l(5) assms(6) by (simp add: Lookup_result res(2) lease_record_def)
  have creds: "proxyBasicCredentials (ge_fold ge) (gq_Header r) = Some (leaseID, secret)"
    if "gq_Header r httpProxyAuthHeader = Some [basic_value leaseID secret]" for r
    using that newLeasePart_credential [OF assms(5) l(2)] newLeasePart_credential [OF assms(5) l(3)]
    by (intro basic_credentials [of "gq_Header r"]) simp_all
  obtain b m2 w3 where v: "validLease (ge_sha256 ge) (ge_env ge) leaseID secret m1 w2 = (b, m2, w3)" by (metis surj_pair)
  then have b: b "slots m2 = slots m1" using found by (auto simp: validLease_def slots_def split: prod.splits)
  show ?thesis
    by (rule exI [of _ ?u], rule exI [of _ leaseID], rule exI [of _ secret], rule exI [of _ ?rec],
        rule exI [of _ m2], rule exI [of _ w3], intro conjI allI impI)
      (use parse found b v l(1) assms(2) in
        \<open>simp_all add: lease_url_def lease_record_def gateway_handle_def creds Let_def split: prod.splits\<close>)
qed

lemma demo_issue_http:
  "\<exists>lease m1 w1. IssueLease rev demo_env \<lparr> acq_Tunnel = Some demo_tunnel, acq_Pool = ''eu'' \<rparr> demo_leased 0 = (Inr lease, m1, w1)
     \<and> 60 < pl_ExpiresAt lease"
  by (simp add: IssueLease_def Issue_def demo_leased_def demo_mgr_def demo_env_def demo_tunnel_def leasable_def
      newLeasePart_def NewManager_def newLeaseRegistry_def proxyLeaseTTL_def demo_cfg_def Let_def)

theorem http_lease_admitted_witness:
  "\<exists>lease m1 w1 u leaseID secret.
     IssueLease rev demo_env \<lparr> acq_Tunnel = Some demo_tunnel, acq_Pool = ''eu'' \<rparr> demo_leased 0 = (Inr lease, m1, w1)
     \<and> Parse (\<lambda>_. None) (px_HTTP (pl_Proxies lease)) = Some u \<and> url_Host u = ''127.0.0.1:8080''
     \<and> url_User u = Some (leaseID, Some secret)
     \<and> fst (validLease rev demo_env leaseID secret m1 60)"
proof -
  let ?acq = "\<lparr> acq_Tunnel = Some demo_tunnel, acq_Pool = ''eu'' \<rparr>"
  let ?ge = "demo_gateway_env"
  obtain lease m1 w1 where i: "IssueLease rev demo_env ?acq demo_leased 0 = (Inr lease, m1, w1)" "60 < pl_ExpiresAt lease"
    using demo_issue_http by blast
  have ge: "ge_sha256 ?ge = rev" "ge_env ?ge = demo_env" by (simp_all add: demo_gateway_env_def)
  have addr: "reg_httpProxyPublicAddr (m_leases demo_leased) = ''127.0.0.1:8080''"
    by (simp add: demo_leased_def demo_mgr_def NewManager_def newLeaseRegistry_def httpProxyPublicAddr_def demo_cfg_def)
  have "host_ok ''127.0.0.1:8080''" by code_simp
  then have h: "host_ok (reg_httpProxyPublicAddr (m_leases demo_leased))" by (simp add: addr)
  have d: "acq_Pool ?acq \<in> dom (m_pools demo_leased)" by (simp add: demo_leased_def)
  have r: "full_reads (ge_env ?ge)" by (auto simp: full_reads_def ge demo_env_def)
  have e: "fst (env_Now (ge_env ?ge) 60) < pl_ExpiresAt lease" using i(2) by (simp add: ge demo_env_def)
  obtain u leaseID secret rec where
    "Parse (\<lambda>_. None) (px_HTTP (pl_Proxies lease)) = Some u" "url_Host u = ''127.0.0.1:8080''"
    "url_User u = Some (leaseID, Some secret)" "fst (Lookup rev demo_env leaseID secret (m_leases m1) 60) = Some rec"
    using http_lease_admitted [of ?ge ?acq demo_leased 0 lease m1 w1 demo_tunnel 60 "\<lambda>_. None" demo_gateway,
        unfolded ge, OF i(1) _ h d r [unfolded ge] e [unfolded ge]]
    by (auto simp: addr)
  moreover from this(4) have "fst (validLease rev demo_env leaseID secret m1 60)"
    by (auto simp: validLease_def split: prod.splits)
  ultimately show ?thesis using i(1) by blast
qed

end
