(* ===== verification/Service.thy ===== *)
theory Service
  imports Bootstrap Gateway Reaper
begin

text \<open>
  The controller as a whole (\<^verbatim>\<open>service.go\<close>): building it from the configuration, starting its parts in
  order, and stopping them. The HTTP servers of the API and of the metrics, the tickers of the reaper
  and the listeners are parameters.
\<close>

section \<open>Building the service\<close>

record ('l, 'k, 's) ProxyService =
  svc_cfg :: Config
  svc_apiToken :: string
  svc_mgr :: Manager
  svc_gateway :: "'l ProxyGateway"
  svc_httpProxy :: "('k, 's) HTTPProxyGateway"
  svc_apiSrv :: bool
  svc_metricsSrv :: bool

text \<open>\<open>newSpawner\<close> is the error of connecting to the container engine, if any.\<close>

definition service_New ::
  "Loaders \<Rightarrow> (error + Config) \<Rightarrow> (error + string) \<Rightarrow> string \<Rightarrow> (Config \<Rightarrow> error option) \<Rightarrow> Metrics
     \<Rightarrow> error + ('l, 'k, 's) ProxyService" where
  "service_New ld parsed hostname cellImage newSpawner metrics =
     (case LoadConfig parsed hostname cellImage of
        Inl e \<Rightarrow> Inl e
      | Inr cfg \<Rightarrow>
          (case ValidateAPIToken (cfg_APIToken cfg) of
             Inl e \<Rightarrow> Inl e
           | Inr apiToken \<Rightarrow>
               (case LoadPoolSpecs (ld_upper ld) (ld_readFile ld) (ld_pools ld) (ld_readDir ld)
                       (cfg_PoolsFile cfg) (cfg_BundleDir cfg) of
                  Inl e \<Rightarrow> Inl e
                | Inr (specs, known) \<Rightarrow>
                    (case LoadRouter (ld_lower ld) (ld_readFile ld) (ld_routing ld) (cfg_RoutingFile cfg)
                            (cfg_DefaultPool cfg) known of
                       Inl e \<Rightarrow> Inl e
                     | Inr router \<Rightarrow>
                         (case newSpawner cfg of
                            Some e \<Rightarrow> Inl e
                          | None \<Rightarrow>
                              Inr \<lparr> svc_cfg = cfg, svc_apiToken = apiToken,
                                    svc_mgr = NewManager cfg specs router metrics,
                                    svc_gateway = NewProxyGateway (socksListenAddr cfg),
                                    svc_httpProxy = NewHTTPProxyGateway (httpProxyListenAddr cfg),
                                    svc_apiSrv = False, svc_metricsSrv = False \<rparr>)))))"

section \<open>Running and stopping\<close>

text \<open>
  \<open>sv_serve\<close> is the time between the start of the last part and the event that ends \<^verbatim>\<open>Run\<close>: the handlers
  and the reaper change the manager and the gateway, and the result is the error of a server or
  nothing when the context was cancelled.
\<close>

record ('l, 'k, 's, 'w) SvcEnv =
  sv_env :: "'w Env"
  sv_docker :: "'w Docker"
  sv_spawner :: "'w Spawner"
  sv_listenSocks :: "string \<Rightarrow> 'w \<Rightarrow> (error + 'l) \<times> 'w"
  sv_closeSocks :: "'l \<Rightarrow> 'w \<Rightarrow> error option \<times> 'w"
  sv_listenHTTP :: "string \<Rightarrow> 'w \<Rightarrow> (error + 's) \<times> 'w"
  sv_shutdownHTTP :: "'s \<Rightarrow> 'w \<Rightarrow> error option \<times> 'w"
  sv_startReaper :: "'w \<Rightarrow> 'w"
  sv_stopReaper :: "'w \<Rightarrow> 'w"
  sv_startAPI :: "string \<Rightarrow> string \<Rightarrow> 'w \<Rightarrow> error option \<times> 'w"
  sv_stopAPI :: "'w \<Rightarrow> error option \<times> 'w"
  sv_startMetrics :: "string \<Rightarrow> 'w \<Rightarrow> 'w"
  sv_stopMetrics :: "'w \<Rightarrow> error option \<times> 'w"
  sv_serve :: "Manager \<times> ('k, 's) HTTPProxyGateway \<times> 'w
     \<Rightarrow> error option \<times> Manager \<times> ('k, 's) HTTPProxyGateway \<times> 'w"

definition startGateway ::
  "('l, 'k, 's, 'w) SvcEnv \<Rightarrow> ('l, 'k, 's) ProxyService \<Rightarrow> 'w \<Rightarrow> error option \<times> ('l, 'k, 's) ProxyService \<times> 'w" where
  "startGateway sv svc w =
     (case ProxyGateway_Start (sv_listenSocks sv) (svc_gateway svc) w of
        (e, g, w) \<Rightarrow> (e, svc\<lparr> svc_gateway := g \<rparr>, w))"

definition startHTTPProxy ::
  "('l, 'k, 's, 'w) SvcEnv \<Rightarrow> ('l, 'k, 's) ProxyService \<Rightarrow> 'w \<Rightarrow> error option \<times> ('l, 'k, 's) ProxyService \<times> 'w" where
  "startHTTPProxy sv svc w =
     (case HTTPProxyGateway_Start (sv_listenHTTP sv) (svc_httpProxy svc) w of
        (e, g, w) \<Rightarrow> (e, svc\<lparr> svc_httpProxy := g \<rparr>, w))"

text \<open>The token is handed to the API, which keeps its digest, and overwritten.\<close>

definition startAPI ::
  "('l, 'k, 's, 'w) SvcEnv \<Rightarrow> ('l, 'k, 's) ProxyService \<Rightarrow> 'w \<Rightarrow> error option \<times> ('l, 'k, 's) ProxyService \<times> 'w" where
  "startAPI sv svc w =
     (let token = svc_apiToken svc;
          svc = svc\<lparr> svc_apiToken := replicate (length token) CHR 0x00 \<rparr>
      in case sv_startAPI sv (cfg_HTTPAddr (svc_cfg svc)) token w of
           (Some e, w) \<Rightarrow> (Some e, svc, w)
         | (None, w) \<Rightarrow> (None, svc\<lparr> svc_apiSrv := True \<rparr>, w))"

definition startMetrics ::
  "('l, 'k, 's, 'w) SvcEnv \<Rightarrow> ('l, 'k, 's) ProxyService \<Rightarrow> 'w \<Rightarrow> ('l, 'k, 's) ProxyService \<times> 'w" where
  "startMetrics sv svc w = (svc\<lparr> svc_metricsSrv := True \<rparr>, sv_startMetrics sv (cfg_MetricsAddr (svc_cfg svc)) w)"

definition service_Run ::
  "('l, 'k, 's, 'w) SvcEnv \<Rightarrow> ('l, 'k, 's) ProxyService \<Rightarrow> 'w \<Rightarrow> error option \<times> ('l, 'k, 's) ProxyService \<times> 'w" where
  "service_Run sv svc w =
     (let (_, w) = ReapOrphans (sv_env sv) (sv_docker sv) (svc_cfg svc) {} False w;
          w = sv_startReaper sv w
      in case startGateway sv svc w of
           (Some e, svc, w) \<Rightarrow> (Some e, svc, w)
         | (None, svc, w) \<Rightarrow>
             (case startHTTPProxy sv svc w of
                (Some e, svc, w) \<Rightarrow> (Some e, svc, w)
              | (None, svc, w) \<Rightarrow>
                  (case startAPI sv svc w of
                     (Some e, svc, w) \<Rightarrow> (Some e, svc, w)
                   | (None, svc, w) \<Rightarrow>
                       let (svc, w) = startMetrics sv svc w;
                           (e, m, g, w) = sv_serve sv (svc_mgr svc, svc_httpProxy svc, w)
                       in (e, svc\<lparr> svc_mgr := m, svc_httpProxy := g \<rparr>, w))))"

definition stopAPI :: "('l, 'k, 's, 'w) SvcEnv \<Rightarrow> ('l, 'k, 's) ProxyService \<Rightarrow> 'w \<Rightarrow> 'w" where
  "stopAPI sv svc w = (if svc_apiSrv svc then snd (sv_stopAPI sv w) else w)"

definition stopMetrics :: "('l, 'k, 's, 'w) SvcEnv \<Rightarrow> ('l, 'k, 's) ProxyService \<Rightarrow> 'w \<Rightarrow> 'w" where
  "stopMetrics sv svc w = (if svc_metricsSrv svc then snd (sv_stopMetrics sv w) else w)"

definition stopSOCKSGateway ::
  "('l, 'k, 's, 'w) SvcEnv \<Rightarrow> ('l, 'k, 's) ProxyService \<Rightarrow> 'w \<Rightarrow> ('l, 'k, 's) ProxyService \<times> 'w" where
  "stopSOCKSGateway sv svc w =
     (case ProxyGateway_Close (sv_closeSocks sv) (svc_gateway svc) w of (_, g, w) \<Rightarrow> (svc\<lparr> svc_gateway := g \<rparr>, w))"

definition stopHTTPProxy ::
  "('k, 'u, 'c, 'w) GwEnv \<Rightarrow> ('l, 'k, 's, 'w) SvcEnv \<Rightarrow> 'k list \<Rightarrow> ('l, 'k, 's) ProxyService \<Rightarrow> 'w
     \<Rightarrow> ('l, 'k, 's) ProxyService \<times> 'w" where
  "stopHTTPProxy ge sv hijacked svc w =
     (case HTTPProxyGateway_Close ge (sv_shutdownHTTP sv) hijacked (svc_httpProxy svc) w of
        (_, g, w) \<Rightarrow> (svc\<lparr> svc_httpProxy := g \<rparr>, w))"

text \<open>\<open>hijacked\<close> and \<open>order\<close> list the tracked tunnels and the pools as the maps are visited.\<close>

definition service_Stop ::
  "('k, 'u, 'c, 'w) GwEnv \<Rightarrow> ('l, 'k, 's, 'w) SvcEnv \<Rightarrow> 'k list \<Rightarrow> string list \<Rightarrow> ('l, 'k, 's) ProxyService \<Rightarrow> 'w
     \<Rightarrow> ('l, 'k, 's) ProxyService \<times> 'w" where
  "service_Stop ge sv hijacked order svc w =
     (let w = stopAPI sv svc w;
          w = stopMetrics sv svc w;
          (svc, w) = stopSOCKSGateway sv svc w;
          (svc, w) = stopHTTPProxy ge sv hijacked svc w;
          w = sv_stopReaper sv w;
          (m, w) = manager_Close (sv_spawner sv) order (svc_mgr svc) w
      in (svc\<lparr> svc_mgr := m \<rparr>, w))"

section \<open>A service that was built starts well\<close>

lemma loaded_specs_wf:
  assumes "LoadPoolSpecs uu readFile pools readDir path dir = Inr (specs, known)"
    and "LoadRouter ul readFile' routing rpath fd known = Inr router"
  shows "specs_wf specs router" "specs n = Some spec \<Longrightarrow> spec_Name spec = n"
proof -
  from assms(1) obtain parsed :: poolsFile where p: "specs = map_of (rev (map (\<lambda>(n, entry). (n, spec_of uu n entry)) (pf_Pools parsed)))"
    "\<forall>n sp. specs n = Some sp \<longrightarrow> spec_FallbackPool sp = '''' \<or> spec_FallbackPool sp \<in> dom specs"
    unfolding LoadPoolSpecs_Inr by blast
  have known: "known = dom specs" by (rule LoadPoolSpecs_known [OF assms(1)])
  have "pool \<in> dom specs" if "Resolve ul' router country = Inr pool" for ul' country pool
  proof -
    have "defaultPool router = '''' \<or> defaultPool router \<in> known"
      using assms(2) unfolding LoadRouter_Inr by auto
    then show ?thesis
      using that LoadRouter_range [OF assms(2)] unfolding known [symmetric]
      by (auto simp: Resolve_def ran_def split: option.splits if_splits)
  qed
  with p(2) show "specs_wf specs router" by (auto simp: specs_wf_def)
  show "specs n = Some spec \<Longrightarrow> spec_Name spec = n"
    unfolding p(1) by (auto dest!: map_of_SomeD simp: spec_of_def)
qed

lemma service_New_wf:
  assumes "service_New ld parsed hostname cellImage newSpawner metrics = Inr svc" "\<And>n. TunnelHotGauge metrics n = 0"
  shows "mgr_wf (svc_mgr svc) \<and> inflight (svc_mgr svc) p = 0"
proof -
  obtain cfg specs known router where l:
    "LoadPoolSpecs (ld_upper ld) (ld_readFile ld) (ld_pools ld) (ld_readDir ld) (cfg_PoolsFile cfg) (cfg_BundleDir cfg)
       = Inr (specs, known)"
    "LoadRouter (ld_lower ld) (ld_readFile ld) (ld_routing ld) (cfg_RoutingFile cfg) (cfg_DefaultPool cfg) known = Inr router"
    "svc_mgr svc = NewManager cfg specs router metrics"
    using assms(1) by (auto simp: service_New_def split: sum.splits option.splits prod.splits)
  have "mgr_wf (svc_mgr svc)"
    unfolding l(3) using loaded_specs_wf [OF l(1,2)] assms(2) by (intro NewManager_wf)
  moreover have "inflight (svc_mgr svc) p = 0"
    by (auto simp: l(3) inflight_def slots_def NewManager_def NewPoolState_def split: option.splits)
  ultimately show ?thesis by simp
qed

lemma LoadRouter_default:
  assumes "LoadRouter ul readFile routing path '''' known = Inr router" "fd = '''' \<or> fd \<in> known"
  obtains router' where "LoadRouter ul readFile routing path fd known = Inr router'"
proof -
  obtain raw parsed where p: "readFile path = Some raw" "routing raw = Some parsed"
    "\<forall>e \<in> set (rf_CountryToPool parsed). snd e \<in> known"
    "choose_default parsed '''' = '''' \<or> choose_default parsed '''' \<in> known"
    using assms(1) unfolding LoadRouter_Inr by blast
  then have "choose_default parsed fd = '''' \<or> choose_default parsed fd \<in> known"
    using assms(2) by (auto simp: choose_default_def split: if_splits)
  with p(1-3) show thesis using that unfolding LoadRouter_Inr by blast
qed

text \<open>C34: a configuration that passes the check can be served. If the check accepts a directory, the
  settings name the files of that directory, a default pool is one of the pools of the file, and the
  container engine is reached, then building the service succeeds; it has at least one pool, and its
  manager is well-formed and holds no reservation.\<close>

theorem checked_config_boots:
  assumes "CheckConfig ld configDir = None" "checkedAbsolutePath configDir = Inr dir"
    and "LoadConfig parsed hostname cellImage = Inr cfg" "cfg_PoolsFile cfg = Join dir ''secrets/pools.yaml''"
    and "cfg_BundleDir cfg = Join dir ''secrets/wireguard''" "cfg_RoutingFile cfg = Join dir ''config/egress-routing.yaml''"
    and "\<And>specs known. LoadPoolSpecs (ld_upper ld) (ld_readFile ld) (ld_pools ld) (ld_readDir ld) (cfg_PoolsFile cfg)
      (cfg_BundleDir cfg) = Inr (specs, known) \<Longrightarrow> cfg_DefaultPool cfg = '''' \<or> cfg_DefaultPool cfg \<in> known"
    and "newSpawner cfg = None" "\<And>n. TunnelHotGauge metrics n = 0"
  shows "\<exists>svc :: ('l, 'k, 's) ProxyService. service_New ld parsed hostname cellImage newSpawner metrics = Inr svc
    \<and> mgr_wf (svc_mgr svc) \<and> dom (m_pools (svc_mgr svc)) \<noteq> {} \<and> (\<forall>p. inflight (svc_mgr svc) p = 0)"
proof -
  have d: "checkedExistingDirectory (ld_lstat ld) configDir = Inr dir"
    using assms(1,2) by (auto simp: CheckConfig_def checkedExistingDirectory_def split: sum.splits node.splits)
  obtain specs known router where l:
    "LoadPoolSpecs (ld_upper ld) (ld_readFile ld) (ld_pools ld) (ld_readDir ld) (cfg_PoolsFile cfg) (cfg_BundleDir cfg)
       = Inr (specs, known)"
    "known \<noteq> {}"
    "LoadRouter (ld_lower ld) (ld_readFile ld) (ld_routing ld) (cfg_RoutingFile cfg) '''' known = Inr router"
    using assms(1) d unfolding assms(4-6) by (auto simp: CheckConfig_def split: sum.splits prod.splits if_splits)
  obtain router' where r:
    "LoadRouter (ld_lower ld) (ld_readFile ld) (ld_routing ld) (cfg_RoutingFile cfg) (cfg_DefaultPool cfg) known = Inr router'"
    by (rule LoadRouter_default [OF l(3) assms(7) [OF l(1)]])
  obtain token where t: "ValidateAPIToken (cfg_APIToken cfg) = Inr token"
    using assms(3) by (auto simp: LoadConfig_def Let_def split: sum.splits option.splits if_splits)
  obtain svc :: "('l, 'k, 's) ProxyService" where s: "service_New ld parsed hostname cellImage newSpawner metrics = Inr svc"
    "svc_mgr svc = NewManager cfg specs router' metrics"
    by (simp add: service_New_def assms(3,8) t l(1) r)
  have "dom (m_pools (svc_mgr svc)) = known"
    unfolding s(2) LoadPoolSpecs_known [OF l(1)] by (auto simp: NewManager_def)
  then show ?thesis using s(1) service_New_wf [OF s(1) assms(9)] l(2) by blast
qed

section \<open>Stopping\<close>


section \<open>Example\<close>

definition demo_loaders :: Loaders where
  "demo_loaders =
     \<lparr> ld_lower = id, ld_upper = map upper_char, ld_lstat = (\<lambda>_. Inr (Dir 448)),
       ld_readFile = (\<lambda>_. Some ''PR0XTEUS_API_TOKEN=t''), ld_readDir = (\<lambda>_. Some demo_bundle),
       ld_pools = (\<lambda>_. Some demo_pools), ld_routing = (\<lambda>_. Some \<lparr> rf_CountryToPool = [], rf_DefaultPool = ''us'' \<rparr>) \<rparr>"

definition demo_settings :: Config where
  "demo_settings =
     demo_cfg\<lparr> cfg_PoolsFile := Join ''/c'' ''secrets/pools.yaml'', cfg_BundleDir := Join ''/c'' ''secrets/wireguard'',
       cfg_RoutingFile := Join ''/c'' ''config/egress-routing.yaml'', cfg_DefaultPool := '''', cfg_CellImage := ''i'',
       cfg_ParentID := ''p'' \<rparr>"

lemma demo_pools_load:
  "LoadPoolSpecs (map upper_char) (\<lambda>_. Some x) (\<lambda>_. Some demo_pools) (\<lambda>_. Some demo_bundle) path dir = Inr (demo_specs, {''us'', ''eu''})"
proof -
  have "LoadPoolSpecs (map upper_char) (\<lambda>_. Some x) (\<lambda>_. Some demo_pools) (\<lambda>_. Some demo_bundle) path dir =
      LoadPoolSpecs (map upper_char) (\<lambda>_. Some ''yaml'') (\<lambda>_. Some demo_pools) (\<lambda>_. Some demo_bundle) ''pools.yaml'' ''wireguard''"
    by (simp add: LoadPoolSpecs_def readPoolsFile_def readBundle_def)
  then show ?thesis using demo_specs_load by simp
qed

lemma demo_settings_load: "LoadConfig (Inr demo_settings) (Inr ''h'') ''i'' = Inr demo_settings"
  by code_simp

theorem checked_config_boots_witness:
  "\<exists>svc :: (unit, unit, unit) ProxyService.
     service_New demo_loaders (Inr demo_settings) (Inr ''h'') ''i'' (\<lambda>_. None) demo_metrics = Inr svc
     \<and> mgr_wf (svc_mgr svc) \<and> inflight (svc_mgr svc) ''eu'' = 0"
proof -
  have dir: "checkedAbsolutePath ''/c'' = Inr ''/c''" by code_simp
  have token: "loadAPITokenFromDotEnv (Inr ''PR0XTEUS_API_TOKEN=t'') = Inr ''t''"
    using token_line [of "''t''" "[]"]
    by (simp add: loadAPITokenFromDotEnv_def scanner_lines_def apiTokenEnvName_def printable_def char_le_nat)
  have router: "LoadRouter id (\<lambda>_. Some x) (\<lambda>_. Some \<lparr> rf_CountryToPool = [], rf_DefaultPool = ''us'' \<rparr>) path fd {''us'', ''eu''}
      = Inr \<lparr> countryToPool = Map.empty, defaultPool = ''us'' \<rparr>" for x path fd
    by (simp add: LoadRouter_def choose_default_def)
  have check: "CheckConfig demo_loaders ''/c'' = None"
    by (simp add: CheckConfig_def checkedExistingDirectory_def demo_loaders_def dir token demo_pools_load router)
  show ?thesis
    using checked_config_boots [OF check dir demo_settings_load, where newSpawner = "\<lambda>_. None" and metrics = demo_metrics]
    by (auto simp: demo_settings_def demo_metrics_def)
qed

definition demo_svc_env :: "(unit, unit, unit, string list) SvcEnv" where
  "demo_svc_env =
     \<lparr> sv_env = demo_late, sv_docker = demo_listing, sv_spawner = log_spawner, sv_listenSocks = (\<lambda>_ w. (Inr (), w)),
       sv_closeSocks = (\<lambda>_ w. (Some (ErrOther ''busy''), w)), sv_listenHTTP = (\<lambda>_ w. (Inl (ErrOther ''in use''), w)),
       sv_shutdownHTTP = (\<lambda>_ w. (None, w)), sv_startReaper = id, sv_stopReaper = id,
       sv_startAPI = (\<lambda>_ _ w. (None, w)), sv_stopAPI = (\<lambda>w. (None, w)), sv_startMetrics = (\<lambda>_ w. w),
       sv_stopMetrics = (\<lambda>w. (None, w)), sv_serve = (\<lambda>(m, g, w). (None, m, g, w)) \<rparr>"

definition demo_service :: "(unit, unit, unit) ProxyService" where
  "demo_service =
     \<lparr> svc_cfg = demo_cfg, svc_apiToken = ''t'', svc_mgr = demo_leased, svc_gateway = NewProxyGateway '':1080'',
       svc_httpProxy = NewHTTPProxyGateway '':8080'', svc_apiSrv = False, svc_metricsSrv = False \<rparr>"

definition demo_gw_env :: "(unit, unit, unit, string list) GwEnv" where
  "demo_gw_env =
     \<lparr> ge_sha256 = rev, ge_env = demo_late,
       ge_dialer = \<lparr> dl_SOCKS5 = (\<lambda>_ _. Inr ()), dl_hasContext = (\<lambda>_. True), dl_DialContext = (\<lambda>_ _ _ w. (Inr (), w)),
                     dl_Close = (\<lambda>_ w. (None, w)) \<rparr>,
       ge_fold = (=), ge_order = (\<lambda>_. []), ge_Hijack = (\<lambda>w. (None, w)), ge_WriteString = (\<lambda>_ _ w. (None, w)),
       ge_CloseClient = (\<lambda>_ w. (None, w)), ge_CopyDone = (\<lambda>_ _ w. (None, w)), ge_hostport = url_Host,
       ge_Exchange = (\<lambda>_ _ w. (Inl (ErrOther ''reset''), w)), ge_CopyBody = Pair \<rparr>"


end
