(* ===== verification/Step_Invariants.thy ===== *)
theory Step_Invariants
  imports Main
begin

text \<open>
  The interface between a step relation and its invariant: what holds at the start and is kept by
  every step holds in every reachable state. The life cycles of the processes interpret it.
\<close>

locale invariant_steps =
  fixes step :: "'s \<Rightarrow> 's \<Rightarrow> bool" and start :: "'s \<Rightarrow> bool" and inv :: "'s \<Rightarrow> bool"
  assumes start_inv: "start s \<Longrightarrow> inv s"
    and step_inv: "step s s' \<Longrightarrow> inv s \<Longrightarrow> inv s'"
begin

lemma run_inv: "step\<^sup>*\<^sup>* s s' \<Longrightarrow> inv s \<Longrightarrow> inv s'"
  by (induction rule: rtranclp_induct) (blast intro: step_inv)+

lemma reach_inv: "step\<^sup>*\<^sup>* s0 s \<Longrightarrow> start s0 \<Longrightarrow> inv s"
  by (blast intro: run_inv start_inv)

end

end
