(* ===== verification/Cell_Proxy.thy ===== *)
theory Cell_Proxy
  imports Reaper Step_Invariants
begin

text \<open>
  The proxy process inside a cell (\<^verbatim>\<open>internal/pkg/cellproxy\<close>: \<^verbatim>\<open>config.go\<close> and \<^verbatim>\<open>proxy.go\<close>): its
  settings from the environment the spawner gave the container, the control endpoints over the
  recorder, and the life of its two servers. It closes the circle with the controller: what the
  reaper asks a cell is answered here.
\<close>

section \<open>Settings\<close>

record envConfig =
  ev_ParentID :: string
  ev_SOCKSBind :: string
  ev_SOCKSPort :: int
  ev_ControlBind :: string
  ev_ControlPort :: int
  ev_DialTimeout :: duration
  ev_TopDestinations :: int

record CellConfig =
  cp_CellID :: string
  cp_ParentID :: string
  cp_SOCKSNetwork :: string
  cp_SOCKSAddr :: string
  cp_ControlAddr :: string
  cp_DialTimeout :: duration
  cp_TopDestinations :: int

definition errValidationFailed :: error where
  "errValidationFailed = ErrOther ''validation failed''"

definition validatePort :: "int \<Rightarrow> error option" where
  "validatePort port = (if port < 1 \<or> port > 65535 then Some errValidationFailed else None)"

text \<open>\<open>parsed\<close> is what \<^verbatim>\<open>gonfiguration.Parse\<close> made of the environment, \<open>hostname\<close> the result of \<^verbatim>\<open>os.Hostname\<close>.\<close>

definition cell_LoadConfig :: "(error + envConfig) \<Rightarrow> (error + string) \<Rightarrow> error + CellConfig" where
  "cell_LoadConfig parsed hostname =
     (case parsed of
        Inl e \<Rightarrow> Inl e
      | Inr env \<Rightarrow>
          (case validatePort (ev_SOCKSPort env) of
             Some e \<Rightarrow> Inl e
           | None \<Rightarrow>
               (case validatePort (ev_ControlPort env) of
                  Some e \<Rightarrow> Inl e
                | None \<Rightarrow>
                    Inr \<lparr> cp_CellID = (case hostname of Inl _ \<Rightarrow> '''' | Inr h \<Rightarrow> h),
                          cp_ParentID = ev_ParentID env, cp_SOCKSNetwork = ''tcp'',
                          cp_SOCKSAddr = JoinHostPort (ev_SOCKSBind env) (strconvItoa (ev_SOCKSPort env)),
                          cp_ControlAddr = JoinHostPort (ev_ControlBind env) (strconvItoa (ev_ControlPort env)),
                          cp_DialTimeout = ev_DialTimeout env, cp_TopDestinations = ev_TopDestinations env \<rparr>)))"

text \<open>
  The environment of a container: that of the image, with the entries of its configuration set. The
  parser fills every field from its variable, or with its default when the variable is not set.
\<close>

definition container_env :: "(string \<rightharpoonup> string) \<Rightarrow> string list \<Rightarrow> (string \<rightharpoonup> string)" where
  "container_env base entries =
     foldl (\<lambda>env entry. case cut_byte CHR ''='' entry of None \<Rightarrow> env | Some (k, v) \<Rightarrow> env(k \<mapsto> v)) base entries"

definition env_parser :: "((string \<rightharpoonup> string) \<Rightarrow> error + envConfig) \<Rightarrow> bool" where
  "env_parser parse \<longleftrightarrow>
     (\<forall>env socks control. env ''PR0XTEUS_SOCKS5_PORT'' = Some (strconvItoa socks)
        \<and> env ''PR0XTEUS_CELL_CONTROL_PORT'' = Some (strconvItoa control)
        \<and> socks \<in> {0..65535} \<and> control \<in> {0..65535} \<and> env ''PR0XTEUS_PARENT_ID'' \<noteq> Some ''''
        \<and> env ''PR0XTEUS_SOCKS5_BIND'' = None \<and> env ''PR0XTEUS_CELL_CONTROL_BIND'' = None
        \<and> env ''PR0XTEUS_CELL_DIAL_TIMEOUT'' = None \<and> env ''PR0XTEUS_CELL_TOP_DESTINATIONS'' = None
        \<longrightarrow> parse env = Inr
          \<lparr> ev_ParentID = (case env ''PR0XTEUS_PARENT_ID'' of None \<Rightarrow> '''' | Some v \<Rightarrow> v),
            ev_SOCKSBind = ''0.0.0.0'', ev_SOCKSPort = socks, ev_ControlBind = ''0.0.0.0'', ev_ControlPort = control,
            ev_DialTimeout = 30 * second, ev_TopDestinations = 50 \<rparr>)"

section \<open>The server\<close>

record CellServer =
  srv_cfg :: CellConfig
  srv_recorder :: Recorder
  srv_startedAt :: time

definition cell_New :: "CellConfig \<Rightarrow> time \<Rightarrow> CellServer" where
  "cell_New cfg now =
     \<lparr> srv_cfg = cfg, srv_recorder = NewRecorder (cp_TopDestinations cfg), srv_startedAt = now \<rparr>"

text \<open>
  The control endpoints. Without a handler for the method and the path the multiplexer of
  \<^verbatim>\<open>net/http\<close> answers on its own (\<^const>\<open>None\<close>); a handler for GET also gets HEAD. The JSON encoder and the
  format of the time are parameters; an answer that cannot be encoded has an empty body.
\<close>

definition cell_status :: "(time \<Rightarrow> string) \<Rightarrow> string list \<Rightarrow> time \<Rightarrow> CellServer \<Rightarrow> Status" where
  "cell_status fmt order now s =
     \<lparr> cs_CellID = cp_CellID (srv_cfg s), cs_ParentID = cp_ParentID (srv_cfg s),
       cs_StartedAt = fmt (srv_startedAt s), cs_UptimeSeconds = time_sub now (srv_startedAt s),
       cs_Traffic = recorder_Snapshot order (srv_recorder s) \<rparr>"

definition controlMux ::
  "(Status \<Rightarrow> error + string) \<Rightarrow> (time \<Rightarrow> string) \<Rightarrow> string list \<Rightarrow> time \<Rightarrow> CellServer \<Rightarrow> string \<Rightarrow> string
     \<Rightarrow> (nat \<times> string) option" where
  "controlMux encode fmt order now s verb path =
     (if verb \<noteq> ''GET'' \<and> verb \<noteq> ''HEAD'' then None
      else if path = ''/healthz'' then Some (200, ''ok'' @ [CHR 0x0A])
      else if path = ''/status'' then
        (case encode (cell_status fmt order now s) of Inl e \<Rightarrow> Some (200, '''') | Inr body \<Rightarrow> Some (200, body))
      else None)"

subsection \<open>Running the two servers\<close>

text \<open>
  Each server runs in a goroutine of its own, which reports on the error channel unless the server
  ended because it was closed; \<^verbatim>\<open>Run\<close> waits for the context or for the first report and then closes
  the SOCKS5 listener and shuts the control server down, in this order.
\<close>

definition errServerClosed :: error where
  "errServerClosed = ErrOther ''http: Server closed''"

definition errClosed :: error where
  "errClosed = ErrOther ''use of closed network connection''"

datatype server_end = Returns "error option" | Panics string

definition serve_report :: "string \<Rightarrow> server_end \<Rightarrow> error option" where
  "serve_report name r =
     (case r of
        Returns None \<Rightarrow> None
      | Returns (Some e) \<Rightarrow> if e = errServerClosed \<or> e = errClosed then None else Some e
      | Panics v \<Rightarrow> Some (ErrOther (name @ '' server panicked: '' @ v)))"

datatype serve_pc = Serving | Reporting error | ServeDone
datatype run_pc = Selecting | ClosingSocks "error option" | ClosingControl "error option" | RunDone "error option"
datatype server_name = Socks5 | Control

record cell_run =
  cr_cancelled :: bool
  cr_listening :: bool
  cr_controlUp :: bool
  cr_serve :: "server_name \<Rightarrow> serve_pc"
  cr_errCh :: "error list"
  cr_run :: run_pc

definition serverErrorChannelSize :: nat where
  "serverErrorChannelSize = 2"

definition server_label :: "server_name \<Rightarrow> string" where
  "server_label n = (case n of Socks5 \<Rightarrow> ''socks5'' | Control \<Rightarrow> ''control'')"

text \<open>\<^verbatim>\<open>Run\<close> up to the launch of the goroutines; without a listener it returns at once.\<close>

definition run_start :: "error option \<Rightarrow> bool \<Rightarrow> cell_run" where
  "run_start listenErr cancelled =
     (case listenErr of
        Some e \<Rightarrow> \<lparr> cr_cancelled = cancelled, cr_listening = False, cr_controlUp = False, cr_serve = (\<lambda>_. ServeDone),
                    cr_errCh = [], cr_run = RunDone (Some e) \<rparr>
      | None \<Rightarrow> \<lparr> cr_cancelled = cancelled, cr_listening = True, cr_controlUp = True, cr_serve = (\<lambda>_. Serving),
                  cr_errCh = [], cr_run = Selecting \<rparr>)"

inductive cell_run_step :: "cell_run \<Rightarrow> cell_run \<Rightarrow> bool" where
  cancel: "cell_run_step s (s\<lparr> cr_cancelled := True \<rparr>)"
| serve_ends: "cr_serve s n = Serving \<Longrightarrow> serve_report (server_label n) r = rep \<Longrightarrow>
    cell_run_step s (s\<lparr> cr_serve := (cr_serve s)(n := (case rep of None \<Rightarrow> ServeDone | Some e \<Rightarrow> Reporting e)) \<rparr>)"
| serve_sends: "cr_serve s n = Reporting e \<Longrightarrow> length (cr_errCh s) < serverErrorChannelSize \<Longrightarrow>
    cell_run_step s (s\<lparr> cr_serve := (cr_serve s)(n := ServeDone), cr_errCh := cr_errCh s @ [e] \<rparr>)"
| select_done: "cr_run s = Selecting \<Longrightarrow> cr_cancelled s \<Longrightarrow> cell_run_step s (s\<lparr> cr_run := ClosingSocks None \<rparr>)"
| select_error: "cr_run s = Selecting \<Longrightarrow> cr_errCh s = e # es \<Longrightarrow>
    cell_run_step s (s\<lparr> cr_run := ClosingSocks (Some e), cr_errCh := es \<rparr>)"
| close_socks: "cr_run s = ClosingSocks r \<Longrightarrow>
    cell_run_step s (s\<lparr> cr_run := ClosingControl r, cr_listening := False \<rparr>)"
| close_control: "cr_run s = ClosingControl r \<Longrightarrow>
    cell_run_step s (s\<lparr> cr_run := RunDone r, cr_controlUp := False \<rparr>)"

section \<open>A spawned cell boots\<close>

fun dec_value :: "nat \<Rightarrow> string \<Rightarrow> nat" where
  "dec_value acc [] = acc"
| "dec_value acc (c # s) = dec_value (10 * acc + (of_char c - 48)) s"

lemma dec_value_append: "dec_value acc (s @ t) = dec_value (dec_value acc s) t"
  by (induction s arbitrary: acc) auto

lemma digit_value: "k < 10 \<Longrightarrow> of_char (char_of (48 + k :: nat)) - 48 = k"
  by (simp add: of_char_of)

lemma dec_value_digits: "dec_value 0 (dec_digits n) = n"
proof (induction n rule: dec_digits.induct)
  case (1 n)
  show ?case
  proof (cases "n < 10")
    case True
    then show ?thesis unfolding dec_digits.simps [of n] by (simp add: digit_value)
  next
    case False
    have "dec_value 0 (dec_digits n) = 10 * (n div 10) + n mod 10"
      unfolding dec_digits.simps [of n] using False 1 digit_value [of "n mod 10"] by (simp add: dec_value_append)
    then show ?thesis by simp
  qed
qed

lemma strconvItoa_inj:
  assumes "0 \<le> a" "0 \<le> b" "strconvItoa a = strconvItoa b"
  shows "a = b"
proof -
  have "dec_digits (nat a) = dec_digits (nat b)" using assms by (simp add: strconvItoa_def)
  then have "nat a = nat b" by (metis dec_value_digits)
  then show ?thesis using assms by simp
qed

lemma LoadConfig_ports:
  assumes "LoadConfig parsed hostname cellImage = Inr cfg"
  shows "cfg_CellSocksPort cfg \<in> {1..65535}" "cfg_CellControlPort cfg \<in> {1..65535}"
    "cfg_CellSocksPort cfg \<noteq> cfg_CellControlPort cfg"
  using assms unfolding LoadConfig_accepts_iff by auto


section \<open>The servers end together\<close>

definition unreported :: "cell_run \<Rightarrow> nat" where
  "unreported s = length (filter (\<lambda>n. cr_serve s n \<noteq> ServeDone) [Socks5, Control])"

definition run_inv :: "error option \<Rightarrow> cell_run \<Rightarrow> bool" where
  "run_inv listenErr s \<longleftrightarrow>
     length (cr_errCh s) + unreported s \<le> 2
     \<and> (\<forall>e. e \<in> set (cr_errCh s) \<or> (\<exists>n. cr_serve s n = Reporting e) \<longrightarrow> e \<noteq> errServerClosed \<and> e \<noteq> errClosed)
     \<and> (case cr_run s of
          Selecting \<Rightarrow> True
        | ClosingSocks r \<Rightarrow> (case r of None \<Rightarrow> cr_cancelled s | Some e \<Rightarrow> e \<noteq> errServerClosed \<and> e \<noteq> errClosed)
        | ClosingControl r \<Rightarrow> \<not> cr_listening s
            \<and> (case r of None \<Rightarrow> cr_cancelled s | Some e \<Rightarrow> e \<noteq> errServerClosed \<and> e \<noteq> errClosed)
        | RunDone r \<Rightarrow> \<not> cr_listening s \<and> \<not> cr_controlUp s
            \<and> (case r of None \<Rightarrow> cr_cancelled s
               | Some e \<Rightarrow> listenErr = Some e \<or> e \<noteq> errServerClosed \<and> e \<noteq> errClosed))"

lemma serve_report_open: "serve_report (server_label n) r = Some e \<Longrightarrow> e \<noteq> errServerClosed \<and> e \<noteq> errClosed"
  by (cases n)
     (auto simp: serve_report_def server_label_def errServerClosed_def errClosed_def
       split: server_end.splits option.splits if_splits)

lemma run_inv_start: "run_inv listenErr (run_start listenErr cancelled)"
  by (cases listenErr) (simp_all add: run_inv_def run_start_def unreported_def)

lemma run_inv_step:
  assumes "cell_run_step s s'" "run_inv listenErr s"
  shows "run_inv listenErr s'"
  using assms
proof (induction rule: cell_run_step.induct)
  case (serve_ends s n r rep)
  then show ?case using serve_report_open [of n r]
    by (cases n; cases rep) (auto simp: run_inv_def unreported_def split: run_pc.splits option.splits)
next
  case (serve_sends s n e)
  then show ?case by (cases n) (auto simp: run_inv_def unreported_def split: run_pc.splits option.splits)
qed (auto simp: run_inv_def unreported_def split: run_pc.splits option.splits)

interpretation cell_run: invariant_steps cell_run_step "\<lambda>s. \<exists>c. s = run_start listenErr c" "run_inv listenErr" for listenErr
  by unfold_locales (auto simp: run_inv_start intro: run_inv_step)

text \<open>the two servers of a cell end together. However the context, the servers and \<^verbatim>\<open>Run\<close> are
  interleaved, when \<^verbatim>\<open>Run\<close> has returned the SOCKS5 listener is closed and the control server is shut
  down; it returns nil only when the context was cancelled, and otherwise the error of the listen or
  one that is not a server being closed. A goroutine that has an error to report never blocks.\<close>

theorem cell_run_ends_clean:
  assumes "cell_run_step\<^sup>*\<^sup>* (run_start listenErr cancelled) s"
  shows "(cr_run s = RunDone r \<longrightarrow> \<not> cr_listening s \<and> \<not> cr_controlUp s
      \<and> (r = None \<longrightarrow> cr_cancelled s)
      \<and> (\<forall>e. r = Some e \<longrightarrow> listenErr = Some e \<or> e \<noteq> errServerClosed \<and> e \<noteq> errClosed))
    \<and> (\<forall>n e. cr_serve s n = Reporting e \<longrightarrow> length (cr_errCh s) < serverErrorChannelSize)"
proof -
  have inv: "run_inv listenErr s"
    using assms by (rule cell_run.reach_inv) blast
  have "length (cr_errCh s) < serverErrorChannelSize" if "cr_serve s n = Reporting e" for n e
    using inv that by (cases n) (auto simp: run_inv_def unreported_def serverErrorChannelSize_def split: if_splits)
  then show ?thesis using inv by (auto simp: run_inv_def split: option.splits)
qed

section \<open>The reaper and the cell\<close>

text \<open>
  \<open>cell_answers\<close> says that requests to the control address of a cell are answered by its control
  endpoints, and \<open>status_codec\<close> that the controller decodes the number of active connections that
  the cell encoded.
\<close>

definition cell_answers ::
  "(Status \<Rightarrow> error + string) \<Rightarrow> (time \<Rightarrow> string) \<Rightarrow> 'w HTTPDoer \<Rightarrow> url \<Rightarrow> CellServer \<Rightarrow> bool" where
  "cell_answers encode fmt doer u srv \<longleftrightarrow>
     (\<forall>path w. \<exists>order now w'. case controlMux encode fmt order now srv ''GET'' path of
        None \<Rightarrow> True | Some answer \<Rightarrow> doer u path w = (Inr answer, w'))"

definition status_codec :: "(Status \<Rightarrow> error + string) \<Rightarrow> (string \<Rightarrow> error + Status) \<Rightarrow> bool" where
  "status_codec encode decode \<longleftrightarrow>
     (\<forall>st. \<exists>body st'. encode st = Inr body \<and> decode body = Inr st'
        \<and> st_Active (cs_Traffic st') = st_Active (cs_Traffic st))"

lemma live_active:
  assumes "cell_step\<^sup>*\<^sup>* (NewRecorder topN, []) (r, cs)" "length cs < 2 ^ 63"
  shows "0 <s rec_active r \<longleftrightarrow> \<not> list_all cc_closed cs"
proof -
  have a: "rec_active r = of_nat (live_all cs)" using cell_invD(5) cell_reach_inv [OF assms(1)] assms(2) by simp
  have "live_all cs \<le> length cs" by (simp add: live_all_def)
  then have "live_all cs < 2 ^ 63" using assms(2) by linarith
  moreover have "live_all cs = 0 \<longleftrightarrow> list_all cc_closed cs"
    by (auto simp: live_all_def filter_empty_conv list_all_iff)
  ultimately show ?thesis using of_nat_sless [of "live_all cs"] by (cases "live_all cs = 0") (auto simp: a)
qed

lemma hasLive_cell:
  assumes "cell_answers encode fmt doer u srv" "status_codec encode decode"
  shows "fst (hasLiveConnections doer decode (Some u) w) \<longleftrightarrow> 0 <s rec_active (srv_recorder srv)"
proof -
  from assms(1) obtain order now w' where d: "case controlMux encode fmt order now srv ''GET'' ''/status'' of
        None \<Rightarrow> True | Some answer \<Rightarrow> doer u ''/status'' w = (Inr answer, w')"
    unfolding cell_answers_def by blast
  from assms(2) obtain body st where c: "encode (cell_status fmt order now srv) = Inr body" "decode body = Inr st"
      "st_Active (cs_Traffic st) = rec_active (srv_recorder srv)"
    unfolding status_codec_def
    by (metis (no_types, lifting) cell_status_def recorder_Snapshot_def Status.select_convs(5) Stats.select_convs(4))
  show ?thesis using d c by (simp add: controlMux_def hasLiveConnections_def control_Status_def)
qed

text \<open>C36: the reaper and the cell agree on what is in use. When the control address of a cell in a slot is
  answered by that cell, an idle pass clears the slot exactly when the idle timeout has passed, no
  request is in flight, and every connection that the cell has ever dialled is closed: a download
  that outlives its allocation is never cut off by the idle pass.\<close>

theorem busy_cell_survives:
  assumes "mgr_wf m" "range_order order (m_pools m)" "m_pools m name = Some p" "ps_tunnel p = Some t"
    and "env_Now env w = (now, w1)" "childControlURLs sp w1 = (urls, w2)" "urls (tun_ContainerID t) = Some u"
    and "reapIdle env sp doer decode cfg order m w = (m', w')"
    and "cell_answers encode fmt doer u srv" "status_codec encode decode"
    and "cell_step\<^sup>*\<^sup>* (NewRecorder topN, []) (srv_recorder srv, cs)" "length cs < 2 ^ 63"
  shows "slots m' name =
     (if cfg_IdleTimeout cfg \<le> time_sub now (tun_LastUsedAt t) \<and> tun_InFlight t = 0 \<and> list_all cc_closed cs
      then Some None else Some (Some t))"
  using idle_pass_safe [OF assms(1-6,8)] assms(7) hasLive_cell [OF assms(9,10)] live_active [OF assms(11,12)]
  by auto

section \<open>Examples\<close>

definition demo_env_parser :: "(string \<rightharpoonup> string) \<Rightarrow> error + envConfig" where
  "demo_env_parser env =
     (let port = (\<lambda>k. case env k of None \<Rightarrow> 0 | Some v \<Rightarrow> int (dec_value 0 v))
      in Inr \<lparr> ev_ParentID = (case env ''PR0XTEUS_PARENT_ID'' of None \<Rightarrow> '''' | Some v \<Rightarrow> v), ev_SOCKSBind = ''0.0.0.0'',
               ev_SOCKSPort = port ''PR0XTEUS_SOCKS5_PORT'', ev_ControlBind = ''0.0.0.0'',
               ev_ControlPort = port ''PR0XTEUS_CELL_CONTROL_PORT'', ev_DialTimeout = 30 * second,
               ev_TopDestinations = 50 \<rparr>)"

lemma demo_env_parser_ok: "env_parser demo_env_parser"
  by (auto simp: env_parser_def demo_env_parser_def strconvItoa_def dec_value_digits)

definition demo_accepted :: Config where
  "demo_accepted = demo_cfg\<lparr> cfg_SOCKSAddr := '':1080'', cfg_SOCKSPublicAddr := ''h:1080'', cfg_HTTPProxyAddr := '':8080'',
     cfg_HTTPProxyPublicAddr := ''h:8080'', cfg_ProxyLeaseTTL := minute, cfg_CellSocksPort := 1080,
     cfg_CellControlPort := 9090, cfg_APIToken := ''t'', cfg_ManagedScope := ''s'', cfg_ParentID := ''p'' \<rparr>"

lemma demo_accepted_load: "LoadConfig (Inr demo_accepted) (Inr ''h'') ''i'' = Inr (demo_accepted\<lparr> cfg_CellImage := ''i'' \<rparr>)"
  by code_simp


theorem cell_run_ends_clean_witness:
  "\<exists>s. cell_run_step\<^sup>*\<^sup>* (run_start None False) s \<and> cr_run s = RunDone (Some (ErrOther ''reset''))
     \<and> \<not> cr_listening s \<and> \<not> cr_controlUp s"
proof -
  define e where "e = ErrOther ''reset''"
  define s0 where "s0 = run_start None False"
  define s1 where "s1 = s0\<lparr> cr_serve := (cr_serve s0)(Control := Reporting e) \<rparr>"
  define s2 where "s2 = s1\<lparr> cr_serve := (cr_serve s1)(Control := ServeDone), cr_errCh := cr_errCh s1 @ [e] \<rparr>"
  define s3 where "s3 = s2\<lparr> cr_run := ClosingSocks (Some e), cr_errCh := [] \<rparr>"
  define s4 where "s4 = s3\<lparr> cr_run := ClosingControl (Some e), cr_listening := False \<rparr>"
  define s5 where "s5 = s4\<lparr> cr_run := RunDone (Some e), cr_controlUp := False \<rparr>"
  have rep: "serve_report (server_label Control) (Returns (Some e)) = Some e"
    by (simp add: serve_report_def errServerClosed_def errClosed_def e_def)
  have "cell_run_step s0 s1"
    using cell_run_step.serve_ends [OF _ rep, of s0] by (simp add: s0_def s1_def run_start_def)
  moreover have "cell_run_step s1 s2"
    unfolding s2_def by (rule cell_run_step.serve_sends) (simp_all add: s1_def s0_def run_start_def serverErrorChannelSize_def)
  moreover have "cell_run_step s2 s3"
    unfolding s3_def by (rule cell_run_step.select_error) (simp_all add: s2_def s1_def s0_def run_start_def)
  moreover have "cell_run_step s3 s4" unfolding s4_def by (rule cell_run_step.close_socks) (simp add: s3_def)
  moreover have "cell_run_step s4 s5" unfolding s5_def by (rule cell_run_step.close_control) (simp add: s4_def)
  ultimately have run: "cell_run_step\<^sup>*\<^sup>* (run_start None False) s5"
    unfolding s0_def by (meson rtranclp.rtrancl_into_rtrancl rtranclp.rtrancl_refl)
  have "cr_run s5 = RunDone (Some e)" by (simp add: s5_def)
  with cell_run_ends_clean [OF run, of "Some e"] run show ?thesis unfolding e_def by blast
qed

definition demo_encode :: "Status \<Rightarrow> error + string" where
  "demo_encode st = Inr (dec_digits (unat (st_Active (cs_Traffic st))))"

definition demo_decode_status :: "string \<Rightarrow> error + Status" where
  "demo_decode_status body =
     Inr \<lparr> cs_CellID = '''', cs_ParentID = '''', cs_StartedAt = '''', cs_UptimeSeconds = 0,
           cs_Traffic = \<lparr> st_Requests = 0, st_BytesUp = 0, st_BytesDown = 0, st_Active = of_nat (dec_value 0 body),
                          st_DialFailures = 0, st_Destinations = [] \<rparr> \<rparr>"

lemma demo_status_codec: "status_codec demo_encode demo_decode_status"
  by (simp add: status_codec_def demo_encode_def demo_decode_status_def dec_value_digits)

definition demo_server :: "Recorder \<Rightarrow> CellServer" where
  "demo_server r = \<lparr> srv_cfg = \<lparr> cp_CellID = ''c1'', cp_ParentID = '''', cp_SOCKSNetwork = ''tcp'', cp_SOCKSAddr = '''',
     cp_ControlAddr = '''', cp_DialTimeout = second, cp_TopDestinations = 5 \<rparr>, srv_recorder = r, srv_startedAt = 0 \<rparr>"

definition demo_cell_doer :: "Recorder \<Rightarrow> string list HTTPDoer" where
  "demo_cell_doer r u path w =
     (case controlMux demo_encode (\<lambda>_. '''') [] 0 (demo_server r) ''GET'' path of
        None \<Rightarrow> (Inl ErrFetchFailed, w) | Some answer \<Rightarrow> (Inr answer, w))"

lemma demo_cell_answers: "cell_answers demo_encode (\<lambda>_. '''') (demo_cell_doer r) u (demo_server r)"
  unfolding cell_answers_def
proof (intro allI)
  show "\<exists>order now w'. case controlMux demo_encode (\<lambda>_. '''') order now (demo_server r) ''GET'' path of
      None \<Rightarrow> True | Some answer \<Rightarrow> demo_cell_doer r u path w = (Inr answer, w')" for path w
    by (rule exI [of _ "[]"], rule exI [of _ 0], rule exI [of _ w]) (simp add: demo_cell_doer_def split: option.splits)
qed

definition demo_control :: url where
  "demo_control = \<lparr> url_Scheme = ''http'', url_Host = ''c1:9090'', url_User = None \<rparr>"

definition demo_busy_spawner :: "string list Spawner" where
  "demo_busy_spawner = demo_reap_spawner\<lparr> sp_ListChildren := (\<lambda>w. (Inr
     (map (\<lambda>h. h\<lparr> ch_ContainerID := ''c1'', ch_ControlURL := Some demo_control \<rparr>) demo_handles), w)) \<rparr>"

lemma demo_busy_urls: "childControlURLs demo_busy_spawner w = ([''c1'' \<mapsto> demo_control], w)"
  by (simp add: childControlURLs_def demo_busy_spawner_def demo_handles_def)

theorem busy_cell_survives_witness:
  "\<exists>r m' w'. reapIdle demo_late demo_busy_spawner (demo_cell_doer r) demo_decode_status demo_cfg [''eu'', ''us'']
       demo_leased [] = (m', w')
     \<and> slots m' ''eu'' = Some (Some demo_tunnel)"
proof -
  obtain r where run: "cell_step\<^sup>*\<^sup>* (NewRecorder 5, []) (r, [\<lparr> cc_key = ''a:1'', cc_closed = False \<rparr>])"
    using demo_cell_run by blast
  then have run': "cell_step\<^sup>*\<^sup>* (NewRecorder 5, []) (srv_recorder (demo_server r), [\<lparr> cc_key = ''a:1'', cc_closed = False \<rparr>])"
    by (simp add: demo_server_def)
  obtain m' w' where p: "reapIdle demo_late demo_busy_spawner (demo_cell_doer r) demo_decode_status demo_cfg [''eu'', ''us'']
      demo_leased [] = (m', w')" by (metis surj_pair)
  have now: "env_Now demo_late [] = (1000 * second, [])" by (simp add: demo_late_def)
  have "slots m' ''eu'' = Some (Some demo_tunnel)"
    using busy_cell_survives [OF demo_leased_wf demo_leased_order demo_leased_pool _ now demo_busy_urls _ p demo_cell_answers
        demo_status_codec run', of demo_tunnel]
    by (simp add: demo_tunnel_def)
  then show ?thesis using p by blast
qed

end
