(* ===== verification/Lifecycle.thy ===== *)
theory Lifecycle
  imports Go_Prelude Step_Invariants
begin

text \<open>
  The life of the process: the runner (\<^verbatim>\<open>pkg/runner/runner.go\<close>), which waits for a signal or for the
  end of the application and then stops it within a deadline, and the application
  (\<^verbatim>\<open>internal/app/app.go\<close>), which runs the service manager between its hooks. Both are step relations
  over their goroutines; every blocking operation of the code is a guard.
\<close>

section \<open>The application\<close>

text \<open>
  \<open>Stop\<close> may be called by several goroutines; caller 0 is the deferred call in \<open>Run\<close>. The log records
  the hooks and the life of the service manager in the order in which they happen.
\<close>

datatype app_event = PreRun nat | ServicesStarted | ServicesEnded | ServicesStopping | PostStop nat
datatype once = OnceNew | OnceBusy | OnceDone
datatype stop_pc = StopIdle | StopCancel | StopOnce | StopServices | StopWait | StopHooks nat | StopReturned
datatype svc_pc = SvcIdle | SvcRunning | SvcSending error | SvcDone
datatype app_pc = RunIdle | RunHooks nat | RunSelect | RunStop "error option" | RunWait "error option"
  | RunClose "error option" | RunReturned "error option"

record App =
  ap_preRunHooks :: nat
  ap_postStopHooks :: nat
  ap_parentDone :: bool
  ap_hasCancel :: bool
  ap_cancelled :: bool
  ap_stopOnce :: once
  ap_stop :: "nat \<Rightarrow> stop_pc"
  ap_svc :: svc_pc
  ap_errCh :: "error list"
  ap_closed :: bool
  ap_panicked :: bool
  ap_run :: app_pc
  ap_log :: "app_event list"

definition newApp :: "nat \<Rightarrow> nat \<Rightarrow> App" where
  "newApp pre post =
     \<lparr> ap_preRunHooks = pre, ap_postStopHooks = post, ap_parentDone = False, ap_hasCancel = False,
       ap_cancelled = False, ap_stopOnce = OnceNew, ap_stop = (\<lambda>_. StopIdle), ap_svc = SvcIdle, ap_errCh = [],
       ap_closed = False, ap_panicked = False, ap_run = RunIdle, ap_log = [] \<rparr>"

abbreviation ctx_done :: "App \<Rightarrow> bool" where
  "ctx_done s \<equiv> ap_parentDone s \<or> ap_cancelled s"

abbreviation wg_zero :: "App \<Rightarrow> bool" where
  "wg_zero s \<equiv> ap_svc s = SvcIdle \<or> ap_svc s = SvcDone"

abbreviation set_stop :: "nat \<Rightarrow> stop_pc \<Rightarrow> App \<Rightarrow> App" where
  "set_stop i pc s \<equiv> s\<lparr> ap_stop := (ap_stop s)(i := pc) \<rparr>"

abbreviation logged :: "app_event \<Rightarrow> App \<Rightarrow> App" where
  "logged e s \<equiv> s\<lparr> ap_log := ap_log s @ [e] \<rparr>"

text \<open>The steps of \<open>Run\<close>: the hooks, the launch, the wait, and the deferred calls in their order.\<close>

inductive app_run_step :: "App \<Rightarrow> App \<Rightarrow> bool" where
  run_begin: "ap_run s = RunIdle \<Longrightarrow> app_run_step s (s\<lparr> ap_run := RunHooks 0, ap_hasCancel := True \<rparr>)"
| run_hook: "ap_run s = RunHooks k \<Longrightarrow> k < ap_preRunHooks s \<Longrightarrow>
    app_run_step s (logged (PreRun k) (s\<lparr> ap_run := RunHooks (Suc k) \<rparr>))"
| run_launch: "ap_run s = RunHooks k \<Longrightarrow> k = ap_preRunHooks s \<Longrightarrow>
    app_run_step s (logged ServicesStarted (s\<lparr> ap_run := RunSelect, ap_svc := SvcRunning \<rparr>))"
| select_done: "ap_run s = RunSelect \<Longrightarrow> ctx_done s \<Longrightarrow>
    app_run_step s (set_stop 0 StopCancel (s\<lparr> ap_run := RunStop None \<rparr>))"
| select_error: "ap_run s = RunSelect \<Longrightarrow> ap_errCh s = e # es \<Longrightarrow>
    app_run_step s (set_stop 0 StopCancel (s\<lparr> ap_run := RunStop (Some e), ap_errCh := es \<rparr>))"
| run_stopped: "ap_run s = RunStop r \<Longrightarrow> ap_stop s 0 = StopReturned \<Longrightarrow> app_run_step s (s\<lparr> ap_run := RunWait r \<rparr>)"
| run_waited: "ap_run s = RunWait r \<Longrightarrow> wg_zero s \<Longrightarrow> app_run_step s (s\<lparr> ap_run := RunClose r \<rparr>)"
| run_returns: "ap_run s = RunClose r \<Longrightarrow>
    app_run_step s (s\<lparr> ap_run := RunReturned r, ap_closed := True, ap_cancelled := True \<rparr>)"

text \<open>The goroutine of the service manager; a send on the closed channel panics.\<close>

inductive app_svc_step :: "App \<Rightarrow> App \<Rightarrow> bool" where
  svc_ends: "ap_svc s = SvcRunning \<Longrightarrow> app_svc_step s (logged ServicesEnded (s\<lparr> ap_svc := SvcDone \<rparr>))"
| svc_fails: "ap_svc s = SvcRunning \<Longrightarrow> app_svc_step s (s\<lparr> ap_svc := SvcSending e \<rparr>)"
| svc_sends: "ap_svc s = SvcSending e \<Longrightarrow> \<not> ap_closed s \<Longrightarrow> ap_errCh s = [] \<Longrightarrow>
    app_svc_step s (logged ServicesEnded (s\<lparr> ap_svc := SvcDone, ap_errCh := [e] \<rparr>))"
| svc_panics: "ap_svc s = SvcSending e \<Longrightarrow> ap_closed s \<Longrightarrow> app_svc_step s (s\<lparr> ap_panicked := True \<rparr>)"

text \<open>A call of \<open>Stop\<close>; its body runs at most once, and later callers wait for it to end.\<close>

inductive app_stop_step :: "nat \<Rightarrow> App \<Rightarrow> App \<Rightarrow> bool" where
  stop_call: "i \<noteq> 0 \<Longrightarrow> ap_stop s i = StopIdle \<Longrightarrow> app_stop_step i s (set_stop i StopCancel s)"
| stop_cancel: "ap_stop s i = StopCancel \<Longrightarrow>
    app_stop_step i s (set_stop i StopOnce (s\<lparr> ap_cancelled := ap_cancelled s \<or> ap_hasCancel s \<rparr>))"
| stop_skip: "ap_stop s i = StopOnce \<Longrightarrow> ap_stopOnce s = OnceDone \<Longrightarrow> app_stop_step i s (set_stop i StopReturned s)"
| stop_enter: "ap_stop s i = StopOnce \<Longrightarrow> ap_stopOnce s = OnceNew \<Longrightarrow>
    app_stop_step i s (logged ServicesStopping (set_stop i StopServices (s\<lparr> ap_stopOnce := OnceBusy \<rparr>)))"
| stop_services: "ap_stop s i = StopServices \<Longrightarrow> app_stop_step i s (set_stop i StopWait s)"
| stop_wait: "ap_stop s i = StopWait \<Longrightarrow> wg_zero s \<Longrightarrow> app_stop_step i s (set_stop i (StopHooks 0) s)"
| stop_hook: "ap_stop s i = StopHooks k \<Longrightarrow> k < ap_postStopHooks s \<Longrightarrow>
    app_stop_step i s (logged (PostStop k) (set_stop i (StopHooks (Suc k)) s))"
| stop_ends: "ap_stop s i = StopHooks k \<Longrightarrow> k = ap_postStopHooks s \<Longrightarrow>
    app_stop_step i s (set_stop i StopReturned (s\<lparr> ap_stopOnce := OnceDone \<rparr>))"

inductive app_step :: "App \<Rightarrow> App \<Rightarrow> bool" where
  parent_cancels: "app_step s (s\<lparr> ap_parentDone := True \<rparr>)"
| run: "app_run_step s s' \<Longrightarrow> app_step s s'"
| services: "app_svc_step s s' \<Longrightarrow> app_step s s'"
| stop: "app_stop_step i s s' \<Longrightarrow> app_step s s'"

subsection \<open>Channels\<close>

definition chan_inv :: "App \<Rightarrow> bool" where
  "chan_inv s \<longleftrightarrow>
     \<not> ap_panicked s \<and> (ap_closed s \<longrightarrow> (\<exists>r. ap_run s = RunReturned r)) \<and> (ap_svc s \<noteq> SvcDone \<longrightarrow> ap_errCh s = [])
     \<and> (case ap_run s of
          RunIdle \<Rightarrow> ap_svc s = SvcIdle
        | RunHooks _ \<Rightarrow> ap_svc s = SvcIdle
        | RunClose _ \<Rightarrow> ap_svc s = SvcDone
        | RunReturned _ \<Rightarrow> ap_svc s = SvcDone
        | _ \<Rightarrow> ap_svc s \<noteq> SvcIdle)
     \<and> (case ap_run s of
          RunStop None \<Rightarrow> ctx_done s | RunWait None \<Rightarrow> ctx_done s | RunClose None \<Rightarrow> ctx_done s
        | RunReturned None \<Rightarrow> ctx_done s | _ \<Rightarrow> True)"

lemma chan_inv_run: "app_run_step s s' \<Longrightarrow> chan_inv s \<Longrightarrow> chan_inv s'"
  by (induction rule: app_run_step.induct) (auto simp: chan_inv_def split: option.splits)

lemma chan_inv_svc: "app_svc_step s s' \<Longrightarrow> chan_inv s \<Longrightarrow> chan_inv s'"
  by (induction rule: app_svc_step.induct) (auto simp: chan_inv_def split: app_pc.splits option.splits)

lemma chan_inv_stop: "app_stop_step i s s' \<Longrightarrow> chan_inv s \<Longrightarrow> chan_inv s'"
  by (induction rule: app_stop_step.induct) (auto simp: chan_inv_def split: app_pc.splits option.splits)

lemma chan_inv_step: "app_step s s' \<Longrightarrow> chan_inv s \<Longrightarrow> chan_inv s'"
proof (induction rule: app_step.induct)
  case (parent_cancels s)
  then show ?case by (auto simp: chan_inv_def split: app_pc.splits option.splits)
qed (auto intro: chan_inv_run chan_inv_svc chan_inv_stop)

subsection \<open>Hooks\<close>

definition pres :: "app_event list \<Rightarrow> nat list" where
  "pres = List.map_filter (\<lambda>e. case e of PreRun k \<Rightarrow> Some k | _ \<Rightarrow> None)"

definition posts :: "app_event list \<Rightarrow> nat list" where
  "posts = List.map_filter (\<lambda>e. case e of PostStop k \<Rightarrow> Some k | _ \<Rightarrow> None)"

lemma hook_simps [simp]:
  "pres [] = []" "posts [] = []"
  "pres (log @ [e]) = pres log @ (case e of PreRun k \<Rightarrow> [k] | _ \<Rightarrow> [])"
  "posts (log @ [e]) = posts log @ (case e of PostStop k \<Rightarrow> [k] | _ \<Rightarrow> [])"
  by (simp_all add: pres_def posts_def map_filter_def split: app_event.splits)

text \<open>\<open>inside\<close>: a caller of \<open>Stop\<close> executes the body; it has run the given number of hooks.\<close>

definition inside :: "stop_pc \<Rightarrow> nat option" where
  "inside pc = (case pc of StopServices \<Rightarrow> Some 0 | StopWait \<Rightarrow> Some 0 | StopHooks k \<Rightarrow> Some k | _ \<Rightarrow> None)"

lemma inside_simps [simp]:
  "inside StopIdle = None" "inside StopCancel = None" "inside StopOnce = None" "inside StopReturned = None"
  "inside StopServices = Some 0" "inside StopWait = Some 0" "inside (StopHooks k) = Some k"
  by (simp_all add: inside_def)

definition once_inv :: "App \<Rightarrow> bool" where
  "once_inv s \<longleftrightarrow>
     (case ap_stopOnce s of
        OnceNew \<Rightarrow> (\<forall>i. inside (ap_stop s i) = None) \<and> posts (ap_log s) = []
      | OnceBusy \<Rightarrow> (\<exists>i k. inside (ap_stop s i) = Some k \<and> (\<forall>j. j \<noteq> i \<longrightarrow> inside (ap_stop s j) = None)
          \<and> k \<le> ap_postStopHooks s \<and> posts (ap_log s) = [0..<k])
      | OnceDone \<Rightarrow> (\<forall>i. inside (ap_stop s i) = None) \<and> posts (ap_log s) = [0..<ap_postStopHooks s])
     \<and> (\<forall>i. ap_stop s i = StopReturned \<longrightarrow> ap_stopOnce s = OnceDone)"

lemma once_inv_busy:
  assumes "once_inv s" "inside (ap_stop s i) = Some k"
  shows "ap_stopOnce s = OnceBusy" "\<And>j. j \<noteq> i \<Longrightarrow> inside (ap_stop s j) = None" "k \<le> ap_postStopHooks s"
    "posts (ap_log s) = [0..<k]" "\<And>j. ap_stop s j \<noteq> StopReturned"
proof -
  show b: "ap_stopOnce s = OnceBusy" using assms by (auto simp: once_inv_def split: once.splits)
  then obtain i' k' where i: "inside (ap_stop s i') = Some k'" "\<forall>j. j \<noteq> i' \<longrightarrow> inside (ap_stop s j) = None"
      "k' \<le> ap_postStopHooks s" "posts (ap_log s) = [0..<k']"
    using assms(1) by (auto simp: once_inv_def)
  have "i' = i" using i(2) assms(2) by (metis option.distinct(1))
  then show "\<And>j. j \<noteq> i \<Longrightarrow> inside (ap_stop s j) = None" "k \<le> ap_postStopHooks s" "posts (ap_log s) = [0..<k]"
    using i assms(2) by auto
  show "\<And>j. ap_stop s j \<noteq> StopReturned" using assms(1) b by (auto simp: once_inv_def)
qed

lemma once_inv_BusyI:
  assumes "ap_stopOnce s = OnceBusy" "inside (ap_stop s i) = Some k" "\<And>j. j \<noteq> i \<Longrightarrow> inside (ap_stop s j) = None"
    and "k \<le> ap_postStopHooks s" "posts (ap_log s) = [0..<k]" "\<And>j. ap_stop s j \<noteq> StopReturned"
  shows "once_inv s"
proof -
  have "\<exists>i k. inside (ap_stop s i) = Some k \<and> (\<forall>j. j \<noteq> i \<longrightarrow> inside (ap_stop s j) = None)
      \<and> k \<le> ap_postStopHooks s \<and> posts (ap_log s) = [0..<k]"
    by (rule exI [of _ i], rule exI [of _ k]) (use assms in auto)
  then show ?thesis using assms(1,6) by (simp add: once_inv_def)
qed

text \<open>Steps outside the body of \<open>Stop\<close> do not touch what the invariant is about.\<close>

definition same_once :: "App \<Rightarrow> App \<Rightarrow> bool" where
  "same_once s s' \<longleftrightarrow>
     ap_stopOnce s' = ap_stopOnce s \<and> ap_postStopHooks s' = ap_postStopHooks s \<and> posts (ap_log s') = posts (ap_log s)
     \<and> (\<forall>i. inside (ap_stop s' i) = inside (ap_stop s i)) \<and> (\<forall>i. ap_stop s' i = StopReturned \<longrightarrow>
          ap_stop s i = StopReturned \<or> ap_stopOnce s = OnceDone)"

lemma once_inv_same: "once_inv s \<Longrightarrow> same_once s s' \<Longrightarrow> once_inv s'"
  by (auto simp: once_inv_def same_once_def split: once.splits)

lemma run_same_once:
  "app_run_step s s' \<Longrightarrow> (ap_run s = RunSelect \<Longrightarrow> ap_stop s 0 = StopIdle) \<Longrightarrow> same_once s s'"
  by (induction rule: app_run_step.induct) (auto simp: same_once_def)

lemma svc_same_once: "app_svc_step s s' \<Longrightarrow> same_once s s'"
  by (induction rule: app_svc_step.induct) (auto simp: same_once_def)

lemma once_inv_stop:
  assumes "app_stop_step i s s'" "once_inv s"
  shows "once_inv s'"
  using assms
proof (induction rule: app_stop_step.induct)
  case (stop_call i s)
  then show ?case by (auto simp: same_once_def elim!: once_inv_same)
next
  case (stop_cancel s i)
  then show ?case by (auto simp: same_once_def elim!: once_inv_same)
next
  case (stop_skip s i)
  then show ?case by (auto simp: same_once_def elim!: once_inv_same)
next
  case (stop_enter s i)
  then show ?case by (intro once_inv_BusyI [where i = i and k = 0]) (auto simp: once_inv_def)
next
  case (stop_services s i)
  then show ?case using once_inv_busy [of s i 0] by (intro once_inv_BusyI [where i = i and k = 0]) auto
next
  case (stop_wait s i)
  then show ?case using once_inv_busy [of s i 0] by (intro once_inv_BusyI [where i = i and k = 0]) auto
next
  case (stop_hook s i k)
  then show ?case using once_inv_busy [of s i k] by (intro once_inv_BusyI [where i = i and k = "Suc k"]) auto
next
  case (stop_ends s i k)
  have "inside (ap_stop s i) = Some k" using stop_ends by simp
  note b = once_inv_busy [OF stop_ends(3) this]
  show ?case using b(2,4) stop_ends(2) by (simp add: once_inv_def)
qed

lemma once_inv_step:
  assumes "app_step s s'" "once_inv s" "ap_run s = RunSelect \<Longrightarrow> ap_stop s 0 = StopIdle"
  shows "once_inv s'"
  using assms
proof (induction rule: app_step.induct)
  case (parent_cancels s)
  then show ?case by (auto simp: same_once_def intro: once_inv_same)
next
  case (run s s')
  then show ?case by (blast intro: once_inv_same run_same_once)
next
  case (services s s')
  then show ?case by (blast intro: once_inv_same svc_same_once)
next
  case (stop i s s')
  then show ?case by (blast intro: once_inv_stop)
qed

text \<open>The deferred call of \<open>Stop\<close> is made once, after the wait, and \<open>Run\<close> goes on only when it has returned.\<close>

definition defer_inv :: "App \<Rightarrow> bool" where
  "defer_inv s \<longleftrightarrow>
     (case ap_run s of
        RunIdle \<Rightarrow> ap_stop s 0 = StopIdle \<and> pres (ap_log s) = []
      | RunHooks k \<Rightarrow> ap_stop s 0 = StopIdle \<and> k \<le> ap_preRunHooks s \<and> pres (ap_log s) = [0..<k]
      | RunSelect \<Rightarrow> ap_stop s 0 = StopIdle \<and> pres (ap_log s) = [0..<ap_preRunHooks s]
      | RunStop _ \<Rightarrow> ap_stop s 0 \<noteq> StopIdle \<and> pres (ap_log s) = [0..<ap_preRunHooks s]
      | _ \<Rightarrow> ap_stop s 0 = StopReturned \<and> pres (ap_log s) = [0..<ap_preRunHooks s])"

lemma stop_frame:
  assumes "app_stop_step i s s'"
  shows "ap_run s' = ap_run s" "ap_preRunHooks s' = ap_preRunHooks s" "pres (ap_log s') = pres (ap_log s)"
    "ap_stop s 0 = StopIdle \<Longrightarrow> ap_stop s' 0 = StopIdle" "ap_stop s 0 = StopReturned \<Longrightarrow> ap_stop s' 0 = StopReturned"
    "ap_stop s 0 \<noteq> StopIdle \<Longrightarrow> ap_stop s' 0 \<noteq> StopIdle"
  using assms by (induction rule: app_stop_step.induct) (auto intro!: gr0I)

lemma defer_inv_step: "app_step s s' \<Longrightarrow> defer_inv s \<Longrightarrow> defer_inv s'"
proof (induction rule: app_step.induct)
  case (run s s')
  then show ?case by (induction rule: app_run_step.induct) (auto simp: defer_inv_def)
next
  case (services s s')
  then show ?case by (induction rule: app_svc_step.induct) (auto simp: defer_inv_def split: app_pc.splits)
next
  case (stop i s s')
  then show ?case using stop_frame [of i s s'] by (simp add: defer_inv_def split: app_pc.splits)
qed (auto simp: defer_inv_def split: app_pc.splits)

text \<open>
  The order of the log: \<open>hooked\<close> says that no post-stop hook ran before the services had ended,
  \<open>early\<close> that the body of \<open>Stop\<close> was entered before they were started.
\<close>

definition hooked :: "app_event list \<Rightarrow> bool" where
  "hooked log \<longleftrightarrow> (\<forall>xs k ys. log = xs @ PostStop k # ys \<longrightarrow> ServicesEnded \<in> set xs)"

definition early :: "app_event list \<Rightarrow> bool" where
  "early log \<longleftrightarrow> (\<exists>xs ys. log = xs @ ServicesStopping # ys \<and> ServicesStarted \<notin> set xs)"

lemma hooked_snoc: "hooked (log @ [e]) \<longleftrightarrow> hooked log \<and> (\<forall>k. e = PostStop k \<longrightarrow> ServicesEnded \<in> set log)"
proof
  assume h: "hooked (log @ [e])"
  have "ServicesEnded \<in> set xs" if "log = xs @ PostStop k # ys" for xs k ys
    using h that by (auto simp: hooked_def)
  moreover have "ServicesEnded \<in> set log" if "e = PostStop k" for k using h that by (auto simp: hooked_def)
  ultimately show "hooked log \<and> (\<forall>k. e = PostStop k \<longrightarrow> ServicesEnded \<in> set log)" by (simp add: hooked_def)
next
  assume h: "hooked log \<and> (\<forall>k. e = PostStop k \<longrightarrow> ServicesEnded \<in> set log)"
  show "hooked (log @ [e])"
    unfolding hooked_def
  proof (intro allI impI)
    fix xs k ys assume l: "log @ [e] = xs @ PostStop k # ys"
    show "ServicesEnded \<in> set xs"
    proof (cases ys rule: rev_cases)
      case Nil
      then show ?thesis using l h by simp
    next
      case (snoc zs z)
      then have "log = xs @ PostStop k # zs" using l by simp
      then show ?thesis using h by (auto simp: hooked_def)
    qed
  qed
qed

lemma early_snoc: "early log \<Longrightarrow> early (log @ [e])"
  unfolding early_def by fastforce

lemma early_enter: "ServicesStarted \<notin> set log \<Longrightarrow> early (log @ [ServicesStopping])"
  by (auto simp: early_def)

definition order_inv :: "App \<Rightarrow> bool" where
  "order_inv s \<longleftrightarrow>
     (ap_svc s = SvcIdle \<longrightarrow> ServicesStarted \<notin> set (ap_log s)) \<and> (ap_svc s = SvcDone \<longrightarrow> ServicesEnded \<in> set (ap_log s))
     \<and> (early (ap_log s) \<or>
        (ap_stopOnce s \<noteq> OnceNew \<longrightarrow> ap_svc s \<noteq> SvcIdle) \<and> (\<forall>i k. ap_stop s i = StopHooks k \<longrightarrow> ap_svc s = SvcDone)
        \<and> hooked (ap_log s))"

lemma order_inv_run: "app_run_step s s' \<Longrightarrow> order_inv s \<Longrightarrow> chan_inv s \<Longrightarrow> order_inv s'"
  by (induction rule: app_run_step.induct) (auto simp: order_inv_def chan_inv_def hooked_snoc intro: early_snoc)

lemma order_inv_svc: "app_svc_step s s' \<Longrightarrow> order_inv s \<Longrightarrow> order_inv s'"
  by (induction rule: app_svc_step.induct) (auto simp: order_inv_def hooked_snoc intro: early_snoc)

lemma order_inv_stop:
  assumes "app_stop_step i s s'" "order_inv s" "once_inv s"
  shows "order_inv s'"
  using assms
proof (induction rule: app_stop_step.induct)
  case (stop_enter s i)
  then show ?case by (auto simp: order_inv_def hooked_snoc intro: early_snoc early_enter)
next
  case (stop_wait s i)
  then have "ap_stopOnce s = OnceBusy" using once_inv_busy(1) [of s i 0] by simp
  with stop_wait show ?case by (auto simp: order_inv_def)
next
  case (stop_hook s i k)
  then show ?case by (auto simp: order_inv_def hooked_snoc intro: early_snoc)
next
  case (stop_ends s i k)
  have "inside (ap_stop s i) = Some k" using stop_ends by simp
  then have "ap_stopOnce s = OnceBusy" by (rule once_inv_busy(1) [OF stop_ends(4)])
  with stop_ends show ?case by (auto simp: order_inv_def)
qed (auto simp: order_inv_def)

definition app_inv :: "nat \<Rightarrow> nat \<Rightarrow> App \<Rightarrow> bool" where
  "app_inv pre post s \<longleftrightarrow>
     chan_inv s \<and> once_inv s \<and> defer_inv s \<and> order_inv s \<and> ap_preRunHooks s = pre \<and> ap_postStopHooks s = post"

lemma hooks_const:
  "app_step s s' \<Longrightarrow> ap_preRunHooks s' = ap_preRunHooks s \<and> ap_postStopHooks s' = ap_postStopHooks s"
  by (induction rule: app_step.induct) (auto elim!: app_run_step.cases app_svc_step.cases app_stop_step.cases)

lemma order_inv_step: "app_step s s' \<Longrightarrow> order_inv s \<Longrightarrow> chan_inv s \<Longrightarrow> once_inv s \<Longrightarrow> order_inv s'"
proof (induction rule: app_step.induct)
  case (parent_cancels s)
  then show ?case by (simp add: order_inv_def)
qed (auto intro: order_inv_run order_inv_svc order_inv_stop)

interpretation app: invariant_steps app_step "\<lambda>s. s = newApp pre post" "app_inv pre post" for pre post
proof
  show "app_inv pre post s" if "s = newApp pre post" for s
    using that by (simp add: app_inv_def newApp_def chan_inv_def once_inv_def defer_inv_def order_inv_def hooked_def)
next
  fix s s' assume step: "app_step s s'" and inv: "app_inv pre post s"
  have "ap_stop s 0 = StopIdle" if "ap_run s = RunSelect" using inv that by (simp add: app_inv_def defer_inv_def)
  then show "app_inv pre post s'"
    using inv chan_inv_step [OF step] once_inv_step [OF step] defer_inv_step [OF step] order_inv_step [OF step]
      hooks_const [OF step]
    by (simp add: app_inv_def)
qed

lemmas app_reach_inv = app.reach_inv [OF _ refl]

text \<open>C38: the application stops cleanly, whoever calls \<open>Stop\<close> and however often. The service manager never
  sends on the closed channel. When \<open>Run\<close> has returned, the services have ended, every hook has run
  exactly once and in order, and nil was returned only after the context was done. No post-stop hook
  ran before the services had ended, unless \<open>Stop\<close> was called before they were started.\<close>

theorem app_stops_clean:
  assumes "app_step\<^sup>*\<^sup>* (newApp pre post) s"
  shows "\<not> ap_panicked s
    \<and> (ap_run s = RunReturned r \<longrightarrow>
         ap_svc s = SvcDone \<and> pres (ap_log s) = [0..<pre] \<and> posts (ap_log s) = [0..<post]
         \<and> (r = None \<longrightarrow> ap_parentDone s \<or> ap_cancelled s))
    \<and> (hooked (ap_log s) \<or> early (ap_log s))"
proof -
  note inv = app_reach_inv [OF assms, unfolded app_inv_def]
  have "posts (ap_log s) = [0..<post]" if "ap_run s = RunReturned r"
  proof -
    have "ap_stop s 0 = StopReturned" using inv that by (simp add: defer_inv_def)
    then have "ap_stopOnce s = OnceDone" using inv by (auto simp: once_inv_def)
    then show ?thesis using inv by (simp add: once_inv_def)
  qed
  then show ?thesis using inv by (auto simp: chan_inv_def defer_inv_def order_inv_def)
qed

subsection \<open>Progress\<close>

lemma svc_progress:
  assumes "chan_inv s" "\<not> wg_zero s"
  shows "\<exists>s'. app_svc_step s s'"
proof (cases "ap_svc s")
  case SvcRunning
  then show ?thesis by (blast intro: app_svc_step.intros)
next
  case (SvcSending e)
  then have "\<not> ap_closed s" "ap_errCh s = []" using assms(1) by (auto simp: chan_inv_def split: app_pc.splits)
  with SvcSending show ?thesis by (blast intro: app_svc_step.intros)
qed (use assms in auto)

lemma inside_progress:
  assumes "inside (ap_stop s i) = Some k" "k \<le> ap_postStopHooks s" "chan_inv s"
  shows "(\<exists>s'. app_stop_step i s s') \<or> (\<exists>s'. app_svc_step s s')"
proof (cases "ap_stop s i")
  case StopServices
  then show ?thesis by (blast intro: app_stop_step.intros)
next
  case StopWait
  then show ?thesis using svc_progress [OF assms(3)] by (blast intro: app_stop_step.intros)
next
  case (StopHooks k')
  then have "k' < ap_postStopHooks s \<or> k' = ap_postStopHooks s" using assms(1,2) by auto
  with StopHooks show ?thesis by (blast intro: app_stop_step.intros)
qed (use assms in auto)

lemma stop_progress:
  assumes "ap_stop s i \<noteq> StopIdle" "ap_stop s i \<noteq> StopReturned" "once_inv s" "chan_inv s"
  shows "\<exists>j s'. ap_stop s j \<noteq> StopIdle \<and> app_stop_step j s s' \<or> app_svc_step s s'"
proof (cases "inside (ap_stop s i)")
  case (Some k)
  then show ?thesis using inside_progress [OF Some _ assms(4)] once_inv_busy(3) [OF assms(3) Some] assms(1) by blast
next
  case None
  then have i: "ap_stop s i = StopCancel \<or> ap_stop s i = StopOnce" using assms(1,2) by (cases "ap_stop s i") auto
  show ?thesis
  proof (cases "ap_stop s i = StopOnce \<and> ap_stopOnce s = OnceBusy")
    case True
    then obtain j k where j: "inside (ap_stop s j) = Some k" "k \<le> ap_postStopHooks s"
      using assms(3) by (auto simp: once_inv_def)
    moreover have "ap_stop s j \<noteq> StopIdle" using j(1) by auto
    ultimately show ?thesis using inside_progress [OF j assms(4)] by blast
  next
    case False
    then have "\<exists>s'. app_stop_step i s s'"
      using i by (cases "ap_stopOnce s") (blast intro: app_stop_step.intros)+
    then show ?thesis using assms(1) by blast
  qed
qed


text \<open>
  A call of \<open>Stop\<close> that overtakes \<open>Run\<close> uses up the once while there is nothing to cancel: the services
  are started afterwards, nothing is cancelled, and the post-stop hooks have run before them.
\<close>

lemma early_stop:
  "\<exists>s. app_step\<^sup>*\<^sup>* (newApp 0 1) s \<and> ap_stop s 1 = StopReturned \<and> ap_svc s = SvcRunning \<and> \<not> ap_cancelled s
     \<and> ap_log s = [ServicesStopping, PostStop 0, ServicesStarted]"
proof -
  define s0 where "s0 = newApp 0 1"
  define s1 where "s1 = set_stop 1 StopCancel s0"
  define s2 where "s2 = set_stop 1 StopOnce (s1\<lparr> ap_cancelled := ap_cancelled s1 \<or> ap_hasCancel s1 \<rparr>)"
  define s3 where "s3 = logged ServicesStopping (set_stop 1 StopServices (s2\<lparr> ap_stopOnce := OnceBusy \<rparr>))"
  define s4 where "s4 = set_stop 1 StopWait s3"
  define s5 where "s5 = set_stop 1 (StopHooks 0) s4"
  define s6 where "s6 = logged (PostStop 0) (set_stop 1 (StopHooks (Suc 0)) s5)"
  define s7 where "s7 = set_stop 1 StopReturned (s6\<lparr> ap_stopOnce := OnceDone \<rparr>)"
  define s8 where "s8 = s7\<lparr> ap_run := RunHooks 0, ap_hasCancel := True \<rparr>"
  define s9 where "s9 = logged ServicesStarted (s8\<lparr> ap_run := RunSelect, ap_svc := SvcRunning \<rparr>)"
  note ds = s0_def s1_def s2_def s3_def s4_def s5_def s6_def s7_def s8_def s9_def newApp_def
  have "app_step s0 s1" unfolding s1_def by (rule app_step.stop, rule app_stop_step.stop_call) (simp_all add: ds)
  moreover have "app_step s1 s2" unfolding s2_def by (rule app_step.stop, rule app_stop_step.stop_cancel) (simp add: ds)
  moreover have "app_step s2 s3" unfolding s3_def by (rule app_step.stop, rule app_stop_step.stop_enter) (simp_all add: ds)
  moreover have "app_step s3 s4" unfolding s4_def by (rule app_step.stop, rule app_stop_step.stop_services) (simp add: ds)
  moreover have "app_step s4 s5" unfolding s5_def by (rule app_step.stop, rule app_stop_step.stop_wait) (simp_all add: ds)
  moreover have "app_step s5 s6" unfolding s6_def by (rule app_step.stop, rule app_stop_step.stop_hook) (simp_all add: ds)
  moreover have "app_step s6 s7" unfolding s7_def by (rule app_step.stop, rule app_stop_step.stop_ends) (simp_all add: ds)
  moreover have "app_step s7 s8" unfolding s8_def by (rule app_step.run, rule app_run_step.run_begin) (simp add: ds)
  moreover have "app_step s8 s9" unfolding s9_def by (rule app_step.run, rule app_run_step.run_launch) (simp_all add: ds)
  ultimately have "app_step\<^sup>*\<^sup>* s0 s9" by (meson rtranclp.rtrancl_into_rtrancl rtranclp.rtrancl_refl)
  moreover have "ap_stop s9 1 = StopReturned" "ap_svc s9 = SvcRunning" "\<not> ap_cancelled s9"
    "ap_log s9 = [ServicesStopping, PostStop 0, ServicesStarted]" by (simp_all add: ds)
  ultimately show ?thesis unfolding s0_def by blast
qed

subsection \<open>Example\<close>

text \<open>The services fail, and \<open>Run\<close> stops itself.\<close>

lemma demo_app_run:
  "\<exists>s. app_step\<^sup>*\<^sup>* (newApp 0 1) s \<and> ap_run s = RunReturned (Some ErrConfigInvalid)"
proof -
  let ?e = ErrConfigInvalid
  define s0 where "s0 = newApp 0 1"
  define s1 where "s1 = s0\<lparr> ap_run := RunHooks 0, ap_hasCancel := True \<rparr>"
  define s2 where "s2 = logged ServicesStarted (s1\<lparr> ap_run := RunSelect, ap_svc := SvcRunning \<rparr>)"
  define s3 where "s3 = s2\<lparr> ap_svc := SvcSending ?e \<rparr>"
  define s4 where "s4 = logged ServicesEnded (s3\<lparr> ap_svc := SvcDone, ap_errCh := [?e] \<rparr>)"
  define s5 where "s5 = set_stop 0 StopCancel (s4\<lparr> ap_run := RunStop (Some ?e), ap_errCh := [] \<rparr>)"
  define s6 where "s6 = set_stop 0 StopOnce (s5\<lparr> ap_cancelled := ap_cancelled s5 \<or> ap_hasCancel s5 \<rparr>)"
  define s7 where "s7 = logged ServicesStopping (set_stop 0 StopServices (s6\<lparr> ap_stopOnce := OnceBusy \<rparr>))"
  define s8 where "s8 = set_stop 0 (StopHooks 0) (set_stop 0 StopWait s7)"
  define s9 where "s9 = logged (PostStop 0) (set_stop 0 (StopHooks (Suc 0)) s8)"
  define s10 where "s10 = set_stop 0 StopReturned (s9\<lparr> ap_stopOnce := OnceDone \<rparr>)"
  define s11 where "s11 = s10\<lparr> ap_run := RunWait (Some ?e) \<rparr>\<lparr> ap_run := RunClose (Some ?e) \<rparr>"
  define s12 where "s12 = s11\<lparr> ap_run := RunReturned (Some ?e), ap_closed := True, ap_cancelled := True \<rparr>"
  note ds = s0_def s1_def s2_def s3_def s4_def s5_def s6_def s7_def s8_def s9_def s10_def s11_def s12_def newApp_def
  have "app_step s0 s1" unfolding s1_def by (rule app_step.run, rule app_run_step.run_begin) (simp add: ds)
  moreover have "app_step s1 s2" unfolding s2_def by (rule app_step.run, rule app_run_step.run_launch) (simp_all add: ds)
  moreover have "app_step s2 s3" unfolding s3_def by (rule app_step.services, rule app_svc_step.svc_fails) (simp add: ds)
  moreover have "app_step s3 s4" unfolding s4_def by (rule app_step.services, rule app_svc_step.svc_sends) (simp_all add: ds)
  moreover have "app_step s4 s5" unfolding s5_def by (rule app_step.run, rule app_run_step.select_error) (simp_all add: ds)
  moreover have "app_step s5 s6" unfolding s6_def by (rule app_step.stop, rule app_stop_step.stop_cancel) (simp add: ds)
  moreover have "app_step s6 s7" unfolding s7_def by (rule app_step.stop, rule app_stop_step.stop_enter) (simp_all add: ds)
  moreover have "app_step s7 (set_stop 0 StopWait s7)" by (rule app_step.stop, rule app_stop_step.stop_services) (simp add: ds)
  moreover have "app_step (set_stop 0 StopWait s7) s8"
    unfolding s8_def by (rule app_step.stop, rule app_stop_step.stop_wait) (simp_all add: ds)
  moreover have "app_step s8 s9" unfolding s9_def by (rule app_step.stop, rule app_stop_step.stop_hook) (simp_all add: ds)
  moreover have "app_step s9 s10" unfolding s10_def by (rule app_step.stop, rule app_stop_step.stop_ends) (simp_all add: ds)
  moreover have "app_step s10 (s10\<lparr> ap_run := RunWait (Some ?e) \<rparr>)"
    by (rule app_step.run, rule app_run_step.run_stopped) (simp_all add: ds)
  moreover have "app_step (s10\<lparr> ap_run := RunWait (Some ?e) \<rparr>) s11"
    unfolding s11_def by (rule app_step.run, rule app_run_step.run_waited) (simp_all add: ds)
  moreover have "app_step s11 s12" unfolding s12_def by (rule app_step.run, rule app_run_step.run_returns) (simp add: ds)
  ultimately have "app_step\<^sup>*\<^sup>* s0 s12" by (meson rtranclp.rtrancl_into_rtrancl rtranclp.rtrancl_refl)
  moreover have "ap_run s12 = RunReturned (Some ?e)" by (simp add: s12_def)
  ultimately show ?thesis unfolding s0_def by blast
qed

theorem app_stops_clean_witness:
  "\<exists>s. app_step\<^sup>*\<^sup>* (newApp 0 1) s \<and> ap_run s = RunReturned (Some ErrConfigInvalid) \<and> ap_svc s = SvcDone
     \<and> posts (ap_log s) = [0]"
proof -
  obtain s where s: "app_step\<^sup>*\<^sup>* (newApp 0 1) s" "ap_run s = RunReturned (Some ErrConfigInvalid)"
    using demo_app_run by blast
  then have "ap_svc s = SvcDone \<and> posts (ap_log s) = [0..<1]" using app_stops_clean [OF s(1)] by blast
  then show ?thesis using s by auto
qed


section \<open>The runner\<close>

text \<open>
  The runner starts the application, waits for a cancelled context, a signal or the end of the
  application, then calls \<open>Stop\<close> in a goroutine and waits for its error, for the deadline, or for both
  goroutines to end. The application is whatever returns from \<open>Run\<close> and \<open>Stop\<close> at some time. An error
  that is joined from several is the list of them; nil is the empty list.
\<close>

datatype ctxErr = Canceled | DeadlineExceeded
datatype runApp_pc = AppRunning | AppSending "error option" | AppClosing | AppDone
datatype stopApp_pc = NotStopping | Stopping | StopSending error | StopDone
datatype runner_pc = WaitForShutdown | GracefulShutdown "error option" | RunnerReturned "error list"

record appRunner =
  rn_ctxDone :: bool
  rn_sigCh :: bool
  rn_app :: runApp_pc
  rn_errCh :: "error option list"
  rn_errClosed :: bool
  rn_stop :: stopApp_pc
  rn_stopErrCh :: "error list"
  rn_deadline :: bool
  rn_doneCh :: bool
  rn_main :: runner_pc

definition runner_start :: "bool \<Rightarrow> appRunner" where
  "runner_start done =
     \<lparr> rn_ctxDone = done, rn_sigCh = False, rn_app = AppRunning, rn_errCh = [], rn_errClosed = False,
       rn_stop = NotStopping, rn_stopErrCh = [], rn_deadline = False, rn_doneCh = False, rn_main = WaitForShutdown \<rparr>"

definition errShutdownTimeout :: error where
  "errShutdownTimeout = ErrOther ''shutdown timeout''"

definition err_list :: "error option \<Rightarrow> error list" where
  "err_list e = (case e of None \<Rightarrow> [] | Some e \<Rightarrow> [e])"

definition handleShutdownTimeout :: "ctxErr option \<Rightarrow> error option \<Rightarrow> error list" where
  "handleShutdownTimeout ctxErr shutdownErr =
     (case ctxErr of
        None \<Rightarrow> err_list shutdownErr
      | Some DeadlineExceeded \<Rightarrow> [errShutdownTimeout]
      | Some Canceled \<Rightarrow> (case shutdownErr of Some e \<Rightarrow> [e] | None \<Rightarrow> [ErrOther ''context canceled'']))"

text \<open>
  The context of the shutdown is detached from its parent and cancelled only on return, so that while
  the runner waits it can only end by its deadline.
\<close>

inductive runner_step :: "appRunner \<Rightarrow> appRunner \<Rightarrow> bool" where
  ctx_cancelled: "runner_step s (s\<lparr> rn_ctxDone := True \<rparr>)"
| signal_arrives: "runner_step s (s\<lparr> rn_sigCh := True \<rparr>)"
| app_returns: "rn_app s = AppRunning \<Longrightarrow> runner_step s (s\<lparr> rn_app := AppSending r \<rparr>)"
| app_sends: "rn_app s = AppSending r \<Longrightarrow> rn_errCh s = [] \<Longrightarrow>
    runner_step s (s\<lparr> rn_app := AppClosing, rn_errCh := [r] \<rparr>)"
| app_closes: "rn_app s = AppClosing \<Longrightarrow> runner_step s (s\<lparr> rn_app := AppDone, rn_errClosed := True \<rparr>)"
| wait_ctx: "rn_main s = WaitForShutdown \<Longrightarrow> rn_ctxDone s \<Longrightarrow>
    runner_step s (s\<lparr> rn_main := GracefulShutdown None, rn_stop := Stopping \<rparr>)"
| wait_signal: "rn_main s = WaitForShutdown \<Longrightarrow> rn_sigCh s \<Longrightarrow>
    runner_step s (s\<lparr> rn_main := GracefulShutdown None, rn_stop := Stopping, rn_sigCh := False \<rparr>)"
| wait_app: "rn_main s = WaitForShutdown \<Longrightarrow> rn_errCh s = r # rs \<Longrightarrow>
    runner_step s (s\<lparr> rn_main := GracefulShutdown r, rn_stop := Stopping, rn_errCh := rs \<rparr>)"
| wait_closed: "rn_main s = WaitForShutdown \<Longrightarrow> rn_errCh s = [] \<Longrightarrow> rn_errClosed s \<Longrightarrow>
    runner_step s (s\<lparr> rn_main := GracefulShutdown None, rn_stop := Stopping \<rparr>)"
| stop_returns: "rn_stop s = Stopping \<Longrightarrow>
    runner_step s (s\<lparr> rn_stop := (case r of None \<Rightarrow> StopDone | Some e \<Rightarrow> StopSending e) \<rparr>)"
| stop_sends: "rn_stop s = StopSending e \<Longrightarrow> rn_stopErrCh s = [] \<Longrightarrow>
    runner_step s (s\<lparr> rn_stop := StopDone, rn_stopErrCh := [e] \<rparr>)"
| all_done: "rn_app s = AppDone \<Longrightarrow> rn_stop s = StopDone \<Longrightarrow> runner_step s (s\<lparr> rn_doneCh := True \<rparr>)"
| deadline: "rn_main s = GracefulShutdown r \<Longrightarrow> runner_step s (s\<lparr> rn_deadline := True \<rparr>)"
| shutdown_failed: "rn_main s = GracefulShutdown r \<Longrightarrow> rn_stopErrCh s = e # es \<Longrightarrow>
    runner_step s (s\<lparr> rn_main := RunnerReturned (err_list r @ [e]), rn_stopErrCh := es \<rparr>)"
| shutdown_timeout: "rn_main s = GracefulShutdown r \<Longrightarrow> rn_deadline s \<Longrightarrow>
    runner_step s (s\<lparr> rn_main := RunnerReturned (handleShutdownTimeout (Some DeadlineExceeded) r) \<rparr>)"
| shutdown_done: "rn_main s = GracefulShutdown r \<Longrightarrow> rn_doneCh s \<Longrightarrow>
    runner_step s (s\<lparr> rn_main := RunnerReturned (err_list r) \<rparr>)"

definition runner_inv :: "appRunner \<Rightarrow> bool" where
  "runner_inv s \<longleftrightarrow>
     (rn_errCh s \<noteq> [] \<longrightarrow> rn_app s = AppClosing \<or> rn_app s = AppDone)
     \<and> (rn_errClosed s \<longrightarrow> rn_app s = AppDone)
     \<and> (rn_stopErrCh s \<noteq> [] \<longrightarrow> rn_stop s = StopDone)
     \<and> (rn_stop s = NotStopping \<longleftrightarrow> rn_main s = WaitForShutdown)
     \<and> (rn_main s = WaitForShutdown \<longrightarrow> (rn_app s = AppClosing \<or> rn_app s = AppDone \<longrightarrow> rn_errCh s \<noteq> []))
     \<and> (rn_doneCh s \<longrightarrow> rn_app s = AppDone \<and> rn_stop s = StopDone)
     \<and> (\<forall>res. rn_main s = RunnerReturned res \<longrightarrow>
          (res = [] \<longrightarrow> rn_app s = AppDone \<and> rn_stop s = StopDone)
          \<and> (errShutdownTimeout \<in> set res \<or> rn_stop s = StopDone))"

lemma runner_inv_step:
  assumes "runner_step s s'" "runner_inv s"
  shows "runner_inv s'"
  using assms by cases (auto simp: runner_inv_def handleShutdownTimeout_def split: option.splits)

interpretation runner: invariant_steps runner_step "\<lambda>s. \<exists>d. s = runner_start d" runner_inv
proof
  show "runner_inv s" if "\<exists>d. s = runner_start d" for s using that by (auto simp: runner_inv_def runner_start_def)
qed (rule runner_inv_step)

lemma runner_reach_inv: "runner_step\<^sup>*\<^sup>* (runner_start d) s \<Longrightarrow> runner_inv s"
  by (rule runner.reach_inv) blast+

lemma graceful_keeps:
  assumes "runner_step\<^sup>*\<^sup>* t s" "rn_main t = GracefulShutdown r"
  shows "rn_main s = GracefulShutdown r
    \<or> (\<exists>res. rn_main s = RunnerReturned res \<and> (set (err_list r) \<subseteq> set res \<or> res = [errShutdownTimeout]))"
  using assms
proof (induction rule: rtranclp_induct)
  case (step s s')
  from step(2) step.IH [OF step.prems] show ?case
    by cases (auto simp: handleShutdownTimeout_def)
qed simp


text \<open>
  The error of \<open>Stop\<close> can get lost: it is sent before the goroutine is counted as done, so that both
  channels may be ready, and the choice between them is arbitrary.
\<close>

lemma demo_runner:
  "\<exists>t s. runner_step\<^sup>*\<^sup>* (runner_start False) t \<and> rn_main t = GracefulShutdown None \<and> runner_step\<^sup>*\<^sup>* t s
     \<and> rn_stopErrCh s = [ErrConfigInvalid] \<and> rn_main s = RunnerReturned []"
proof -
  let ?e = ErrConfigInvalid
  define s0 where "s0 = runner_start False"
  define s1 where "s1 = s0\<lparr> rn_app := AppSending None \<rparr>"
  define s2 where "s2 = s1\<lparr> rn_app := AppClosing, rn_errCh := [None] \<rparr>"
  define s3 where "s3 = s2\<lparr> rn_app := AppDone, rn_errClosed := True \<rparr>"
  define s4 where "s4 = s3\<lparr> rn_main := GracefulShutdown None, rn_stop := Stopping, rn_errCh := [] \<rparr>"
  define s5 where "s5 = s4\<lparr> rn_stop := StopSending ?e \<rparr>"
  define s6 where "s6 = s5\<lparr> rn_stop := StopDone, rn_stopErrCh := [?e] \<rparr>"
  define s7 where "s7 = s6\<lparr> rn_doneCh := True \<rparr>"
  define s8 where "s8 = s7\<lparr> rn_main := RunnerReturned (err_list None) \<rparr>"
  note ds = s0_def s1_def s2_def s3_def s4_def s5_def s6_def s7_def s8_def runner_start_def
  have "runner_step s0 s1" unfolding s1_def by (rule runner_step.app_returns) (simp add: ds)
  moreover have "runner_step s1 s2" unfolding s2_def by (rule runner_step.app_sends) (simp_all add: ds)
  moreover have "runner_step s2 s3" unfolding s3_def by (rule runner_step.app_closes) (simp add: ds)
  moreover have "runner_step s3 s4" unfolding s4_def by (rule runner_step.wait_app) (simp_all add: ds)
  ultimately have a: "runner_step\<^sup>*\<^sup>* s0 s4" by (meson rtranclp.rtrancl_into_rtrancl rtranclp.rtrancl_refl)
  have "runner_step s4 s5" using runner_step.stop_returns [of s4 "Some ?e"] by (simp add: s5_def s4_def)
  moreover have "runner_step s5 s6" unfolding s6_def by (rule runner_step.stop_sends) (simp_all add: ds)
  moreover have "runner_step s6 s7" unfolding s7_def by (rule runner_step.all_done) (simp_all add: ds)
  moreover have "runner_step s7 s8" unfolding s8_def by (rule runner_step.shutdown_done) (simp_all add: ds)
  ultimately have b: "runner_step\<^sup>*\<^sup>* s4 s8" by (meson rtranclp.rtrancl_into_rtrancl rtranclp.rtrancl_refl)
  have "rn_main s4 = GracefulShutdown None" "rn_stopErrCh s8 = [?e]" "rn_main s8 = RunnerReturned []"
    by (simp_all add: ds err_list_def)
  with a b show ?thesis unfolding s0_def by blast
qed


end
