(* ===== verification/Spec2Isabelle.thy ===== *)
theory Spec2Isabelle
  imports Api Service_Manager Tunnel_Client Service Cell_Proxy Lifecycle
begin

text \<open>
  A verification of pr0xteus, a controller that hands out proxies. Each proxy is a cell: a container
  with a WireGuard tunnel and a SOCKS5 server. The paths below are relative to \<^verbatim>\<open>src/\<close>.

  The parts and how they interact. The process (\<^verbatim>\<open>pkg/runner\<close>, \<^verbatim>\<open>internal/app\<close>,
  \<^verbatim>\<open>internal/pkg/service-manager\<close>) starts and stops the service of
  \<^verbatim>\<open>internal/pkg/services/pr0xteus\<close>. A request to the control API names a country; the router gives its
  pool, and the manager returns the hot tunnel in the slot of the pool, or spawns a cell, or falls
  back to another pool. The caller gets URLs with the credentials of a lease. Through the SOCKS5 or
  the HTTP gateway the lease opens connections to exactly that cell. The reaper removes idle,
  unhealthy and orphaned cells, asking the proxy in the cell (\<^verbatim>\<open>internal/pkg/cellproxy\<close>) whether it is
  in use. The library \<^verbatim>\<open>pkg/client\<close> retries requests over proxies it gets from the API.

  Theories and code (file names without a directory are in \<^verbatim>\<open>internal/pkg/services/pr0xteus\<close>):
  \<^item> \<open>Go_Prelude\<close>, \<open>Url\<close>, \<open>Types\<close>: strings, time, errors, \<^verbatim>\<open>net/url\<close>, the shared records (\<^verbatim>\<open>types.go\<close>,
    \<^verbatim>\<open>errors.go\<close>, \<^verbatim>\<open>metrics.go\<close>); \<open>Step_Invariants\<close>: the interface of step relations.
  \<^item> \<open>Routing\<close> (\<^verbatim>\<open>routing.go\<close>), \<open>Pool_Specs\<close> and \<open>Pool\<close> and \<open>Manager\<close> (the three parts of \<^verbatim>\<open>pool.go\<close>), \<open>Lease\<close>
    (\<^verbatim>\<open>lease.go\<close>), \<open>Config\<close> (\<^verbatim>\<open>config.go\<close>); \<open>Acquisition\<close> holds the properties of the manager and
    \<open>Interleaving\<close> the concurrent requests on one pool.
  \<^item> \<open>Cell_Spawner\<close> (\<^verbatim>\<open>spawner.go\<close>, \<^verbatim>\<open>cellstatus.go\<close>) and its properties in \<open>Cell_Lifecycle\<close>; \<open>Reaper\<close>
    (\<^verbatim>\<open>reaper.go\<close> and the manager part of \<^verbatim>\<open>cells.go\<close>); \<open>Api\<close> (\<^verbatim>\<open>api.go\<close> and the handlers of \<^verbatim>\<open>cells.go\<close>).
  \<^item> \<open>Http_Headers\<close> and \<open>Gateway\<close> (\<^verbatim>\<open>proxy_gateway.go\<close>, \<^verbatim>\<open>http_proxy_gateway.go\<close>).
  \<^item> \<open>Dot_Env\<close> and \<open>Bootstrap\<close> (\<^verbatim>\<open>bootstrap.go\<close>), \<open>Service\<close> (\<^verbatim>\<open>service.go\<close>).
  \<^item> \<open>Recorder\<close> and \<open>Cell_Proxy\<close> (\<^verbatim>\<open>internal/pkg/cellproxy\<close>).
  \<^item> \<open>Service_Order\<close> and \<open>Service_Manager\<close> (\<^verbatim>\<open>internal/pkg/service-manager\<close>), \<open>Lifecycle\<close>
    (\<^verbatim>\<open>internal/app/app.go\<close>, \<^verbatim>\<open>pkg/runner/runner.go\<close>).
  \<^item> \<open>Client_Retry\<close>, \<open>Client_Preflight\<close>, \<open>Tunnel_Client\<close> (\<^verbatim>\<open>pkg/client\<close>). This theory connects the client with
    the API.

  How the model corresponds to the code. A struct is a record with a prefix for its fields, a function
  or method is a definition of the same name (with the receiver in front where two methods share a
  name), an error is a value of a sum or an option. State is passed explicitly; everything outside
  the process, such as the clock, the Docker daemon or the network, acts on a world that is passed
  along. Strings are lists of bytes; a map that is iterated comes with the order in which it is
  visited, and the theorems hold for every order. Traffic counters are 64-bit words that wrap
  around. The file system maps paths to nodes, and an oracle decides which calls fail. Goroutines are
  step relations with one rule per atomic action. Third-party code and decoders are parameters; what is
  relied on is a named predicate, such as \<open>docker_laws\<close>, \<open>json_codec\<close>, \<open>env_parser\<close> and \<open>status_codec\<close>.

  What the lemmas show.
  \<^item> Pools and leases: which tunnel an acquisition returns and what a refusal leaves behind, that
    counters count holders, that a lease opens only its cell until it expires, and that the registry
    refines one that never forgets. The invariant holds in every reachable state.
  \<^item> Concurrency of a pool: one spawn at a time, one spawn for a herd of requests, progress.
  \<^item> Cells: a spawn leaves no container behind, orphans are exactly those reaped, names are valid; a
    cell boots with the ports of the controller, its counters are exact, and a cell with an open
    connection survives the idle pass.
  \<^item> API and gateways: nothing happens without credentials, every answer accounts for its
    reservation, forwarded requests carry exactly the end-to-end fields.
  \<^item> Setup and service: setup preserves the files of the operator whatever fails, a checked
    configuration builds, and \<open>Stop\<close> leaves no listener and no tracked cell.
  \<^item> Process: start order and shutdown order of services, hooks, channels and deadlock freedom of the
    application, the result of the runner.
  \<^item> Client: the steps of the retries, the preflight check that fails closed, and that a proxy URL from
    the API is dialled with credentials the controller maps to the assigned cell.

  Contracts between components are locales, interpreted on the definitions of the model: \<open>reservation\<close>
  (the two ways to reserve a tunnel), \<open>spawner\<close>, \<open>pool_pass\<close> (the passes of the reaper), \<open>lease_dialer\<close>
  (the manager as the gateways see it), \<open>invariant_steps\<close> (the step relations of the processes).

  Bounds and termination. No definition uses fuel. The preflight loop may depend on its environment
  for ever and is a partial function with values in the option type; it is proved to return after at
  most 22 attempts, since the waits double up to a cap within the deadline. The rounds of the
  topological sort terminate because each leaves fewer services waiting. The number of connections of
  a cell is assumed to stay below 2^63, so that the signed counter of active ones is exact.

  Not modelled. The commands in \<^verbatim>\<open>cmd/\<close> only wire flags and loggers to the operations above.
  \<^verbatim>\<open>services.gen.go\<close> is generated, \<^verbatim>\<open>mocks.go\<close> and \<^verbatim>\<open>tests/\<close> are for tests. The settings of \<^verbatim>\<open>net/http\<close>
  transports and servers, JSON, YAML and Prometheus, the Docker daemon, the SOCKS5 protocol and the
  copying of bytes are library code. The tickers that trigger the passes of the reaper and the
  goroutines that serve the listeners of the controller are not modelled: a pass or a request is one
  call, and the time while the service serves is a parameter. The scripts in \<^verbatim>\<open>cell/\<close> configure the
  kernel through external programs. Log output is left out.
\<close>

section \<open>The client library and the controller\<close>

text \<open>
  The pool client of the library talks to the control API of the controller. \<open>controller_Do\<close> is the
  HTTP exchange between them: it hands the call to the route for allocations and encodes the answer.
  The JSON codecs of the two sides are parameters, with what the code relies on: a marshalled
  request is decoded to its fields, an allocation is decoded to its fields unless it was cut off,
  and the error for an unavailable service carries its code.
\<close>

definition controller_Do ::
  "'w ApiEnv \<Rightarrow> string \<Rightarrow> string list \<Rightarrow> (body \<Rightarrow> string) \<Rightarrow> ApiCall \<Rightarrow> Manager \<times> 'w
     \<Rightarrow> (cerror + int \<times> (cerror + string)) \<times> Manager \<times> 'w" where
  "controller_Do d tokenDigest order encode call s =
     (case api_serve d tokenDigest order PostProxies
             \<lparr> rq_Authorization = ac_Authorization call, rq_ContentType = ac_ContentType call,
               rq_Body = ac_Body call, rq_Query = (\<lambda>_. []), rq_PathValue = [] \<rparr> (fst s) (snd s) of
        (resp, m, w) \<Rightarrow> (Inr (int (rs_Status resp), Inr (encode (rs_Body resp))), m, w))"

definition json_codec :: "'w ApiEnv \<Rightarrow> 'x TunnelEnv \<Rightarrow> (body \<Rightarrow> string) \<Rightarrow> bool" where
  "json_codec d te encode \<longleftrightarrow>
     (\<forall>q payload. te_marshal te q = Some payload \<longrightarrow>
        ae_json d payload = Some (\<lparr> pq_Country = wq_Country q, pq_Pool = wq_Pool q,
          pq_ExcludeProxy = wq_ExcludeProxy q, pq_FallbackOK = wq_FallbackOK q \<rparr>, True))
     \<and> (\<forall>r. te_decode te (take 65536 (encode (BodyProxy r))) \<in>
          {None, Some \<lparr> wr_SOCKS5 = px_SOCKS5 (pr_Proxies r), wr_HTTP = px_HTTP (pr_Proxies r),
             wr_Pool = pr_Pool r, wr_ExitCountry = pr_ExitCountry r, wr_ExitIP = pr_ExitIP r \<rparr>})
     \<and> te_errorCode te (take 65536 (encode (BodyError ErrorServiceUnavailable))) = Some ''SERVICE_UNAVAILABLE''"

text \<open>A pool client that gets a proxy got it from a successful allocation.\<close>

lemma ProxyForCountry_allocation:
  assumes "te_Do te = controller_Do d tokenDigest order encode" "json_codec d te encode" "mgr_wf m"
    and "ProxyForCountry te c q (m, w) = (Inr pr, m', w')"
  obtains r payload resp where "handleProxy d r m w = (\<lparr> rs_Status = 200, rs_Body = BodyProxy resp \<rparr>, m', w')"
    "rq_Body r = payload"
    "te_marshal te \<lparr> wq_Country = (if tp_poolID c \<noteq> [] then [] else po_Country q), wq_Pool = tp_poolID c,
       wq_ExcludeProxy = (case po_ExcludeProxy q of None \<Rightarrow> [] | Some u \<Rightarrow> url_String u),
       wq_FallbackOK = po_FallbackOK q \<rparr> = Some payload"
    "pp_Pool pr = pr_Pool resp" "pp_ProxyURL pr = Parse (te_lit te) (px_SOCKS5 (pr_Proxies resp))"
proof -
  let ?q = "\<lparr> wq_Country = (if tp_poolID c \<noteq> [] then [] else po_Country q), wq_Pool = tp_poolID c,
       wq_ExcludeProxy = (case po_ExcludeProxy q of None \<Rightarrow> [] | Some u \<Rightarrow> url_String u),
       wq_FallbackOK = po_FallbackOK q \<rparr>"
  obtain body where b: "doProxyRequest te c q (m, w) = (Inr body, m', w')" "parseTunnelPoolResponse te body = Inr pr"
    using assms(4) by (auto simp: ProxyForCountry_def split: prod.splits sum.splits)
  then obtain call where call: "newProxyRequest te c q = Inr call" "executeProxyRequest te call (m, w) = (Inr body, m', w')"
    by (auto simp: doProxyRequest_def split: sum.splits)
  from call(1) obtain payload where p: "te_marshal te ?q = Some payload" "ac_Body call = payload"
    by (auto simp: newProxyRequest_def Let_def split: option.splits if_splits)
  define r where "r = \<lparr> rq_Authorization = ac_Authorization call, rq_ContentType = ac_ContentType call,
     rq_Body = ac_Body call, rq_Query = (\<lambda>_. []), rq_PathValue = [] \<rparr>"
  obtain rs m1 w1 where s: "api_serve d tokenDigest order PostProxies r m w = (rs, m1, w1)" by (metis surj_pair)
  have e: "m1 = m'" "w1 = w'" "200 \<le> int (rs_Status rs)" "int (rs_Status rs) < 300"
    "body = take 65536 (encode (rs_Body rs))"
    using call(2) s by (auto simp: executeProxyRequest_def assms(1) controller_Do_def r_def [symmetric] Let_def split: if_splits)
  have h: "handleProxy d r m w = (rs, m', w')"
    using s e by (auto simp: api_serve_def authenticate_def writeError_def split: option.splits if_splits)
  obtain resp where resp: "rs = \<lparr> rs_Status = 200, rs_Body = BodyProxy resp \<rparr>"
    using assms(3) h
    by (cases rule: handleProxy_cases) (use e in \<open>auto simp: writeError_def writeAcquireError_def split: if_splits\<close>)
  obtain raw where raw: "te_decode te body = Some raw" "Parse (te_lit te) (wr_SOCKS5 raw) = pp_ProxyURL pr"
    "pp_Pool pr = wr_Pool raw"
    using b(2) by (auto simp: parseTunnelPoolResponse_def split: option.splits if_splits)
  have "te_decode te (take 65536 (encode (BodyProxy resp))) \<in>
      {None, Some \<lparr> wr_SOCKS5 = px_SOCKS5 (pr_Proxies resp), wr_HTTP = px_HTTP (pr_Proxies resp),
      wr_Pool = pr_Pool resp, wr_ExitCountry = pr_ExitCountry resp, wr_ExitIP = pr_ExitIP resp \<rparr>}"
    using assms(2) unfolding json_codec_def by blast
  then have "raw = \<lparr> wr_SOCKS5 = px_SOCKS5 (pr_Proxies resp), wr_HTTP = px_HTTP (pr_Proxies resp),
      wr_Pool = pr_Pool resp, wr_ExitCountry = pr_ExitCountry resp, wr_ExitIP = pr_ExitIP resp \<rparr>"
    using raw(1) e(5) resp by simp
  then show thesis
    using that [of r resp payload] h resp raw p by (simp add: r_def)
qed

lemma lease_excluded:
  assumes "host_ok addr"
    and "fst (Lookup (ae_sha256 d) (ae_env d) leaseID secret (m_leases m) w) = Some lease"
  shows "fst (parseExcludedProxy d (url_String (lease_url proxySchemeSOCKS5 addr leaseID secret)) m w) =
     Inr (lease_InternalURL lease)"
proof -
  let ?u = "lease_url proxySchemeSOCKS5 addr leaseID secret"
  have s: "scheme_ok proxySchemeSOCKS5" by code_simp
  have p: "ParseRequestURI (ae_lit d) (url_String ?u) = Some ?u"
    by (rule ParseRequestURI_String) (simp_all add: lease_url_def s assms(1))
  have ne: "url_String ?u \<noteq> []" "url_Port ?u \<noteq> []" "addr \<noteq> []"
    using url_Port_ok [of ?u] assms(1) by (simp_all add: lease_url_def url_String_def)
  obtain r w1 where l: "Lookup (ae_sha256 d) (ae_env d) leaseID secret (m_leases m) w = (Some lease, r, w1)"
    using assms(2) by (cases "Lookup (ae_sha256 d) (ae_env d) leaseID secret (m_leases m) w") auto
  show ?thesis
    using ne p by (simp add: parseExcludedProxy_def ResolveExcludedProxy_def lease_url_def l)
qed


definition demo_codec :: "ProxyResponse \<Rightarrow> body \<Rightarrow> string" where
  "demo_codec resp b = (if b = BodyProxy resp then ''ok'' else ''err'')"

definition demo_tunnel_env :: "bool \<Rightarrow> ProxyResponse \<Rightarrow> (Manager \<times> nat) TunnelEnv" where
  "demo_tunnel_env ok resp =
     \<lparr> te_marshal = (\<lambda>q. if wq_Country q = [] \<and> wq_ExcludeProxy q = [] \<and> \<not> wq_FallbackOK q then Some (wq_Pool q) else None),
       te_validURL = (\<lambda>_. True), te_Do = controller_Do (demo_api ok) ''t'' [] (demo_codec resp),
       te_errorCode = (\<lambda>s. if s = ''err'' then Some ''SERVICE_UNAVAILABLE'' else None),
       te_decode = (\<lambda>s. if s = ''ok'' then Some \<lparr> wr_SOCKS5 = px_SOCKS5 (pr_Proxies resp),
         wr_HTTP = px_HTTP (pr_Proxies resp), wr_Pool = pr_Pool resp, wr_ExitCountry = pr_ExitCountry resp,
         wr_ExitIP = pr_ExitIP resp \<rparr> else None), te_lit = (\<lambda>_. None) \<rparr>"

definition demo_pool_client :: TunnelPoolClient where
  "demo_pool_client = NewTunnelPoolClient ''http://c'' 5 [WithPool ''eu'', WithBearerToken ''t'']"

lemma demo_json_codec: "json_codec (demo_api ok) (demo_tunnel_env ok resp) (demo_codec resp)"
  by (auto simp: json_codec_def demo_api_def demo_tunnel_env_def demo_codec_def)

lemma demo_call:
  "newProxyRequest (demo_tunnel_env ok resp) demo_pool_client \<lparr> po_Country = ''FR'', po_ExcludeProxy = None, po_FallbackOK = False \<rparr> =
     Inr \<lparr> ac_URL = ''http://c/v1/proxies'', ac_ContentType = ''application/json'', ac_Authorization = ''Bearer t'', ac_Body = ''eu'' \<rparr>"
  by (simp add: newProxyRequest_def demo_tunnel_env_def demo_pool_client_def NewTunnelPoolClient_def
      WithPool_def WithBearerToken_def)

lemma demo_serve:
  "api_serve (demo_api ok) ''t'' [] PostProxies
     \<lparr> rq_Authorization = ''Bearer t'', rq_ContentType = ''application/json'', rq_Body = ''eu'',
       rq_Query = (\<lambda>_. []), rq_PathValue = [] \<rparr> m w = handleProxy (demo_api ok) demo_request m w"
proof -
  have c: "cut_prefix ''Bearer t'' ''Bearer '' = Some ''t''" by code_simp
  let ?r = "\<lparr> rq_Authorization = ''Bearer t'', rq_ContentType = ''application/json'', rq_Body = ''eu'',
       rq_Query = (\<lambda>_. []), rq_PathValue = [] \<rparr>"
  have "decodeProxyRequest (demo_api ok) ?r = decodeProxyRequest (demo_api ok) demo_request"
    by (simp add: decodeProxyRequest_def hasJSONContentType_def demo_request_def)
  then show ?thesis
    by (simp add: api_serve_def authenticate_def c handleProxy_def)
qed

lemma demo_addr_ok: "host_ok (reg_socksPublicAddr (m_leases demo_mgr))"
proof -
  have "reg_socksPublicAddr (m_leases demo_mgr) = ''127.0.0.1:1080''"
    by (simp add: demo_defs socksPublicAddr_def)
  moreover have "host_ok ''127.0.0.1:1080''" by code_simp
  ultimately show ?thesis by simp
qed

lemma demo_exchange:
  assumes "handleProxy (demo_api ok) demo_request m w = (resp', m', w')"
  shows "te_Do (demo_tunnel_env ok resp) \<lparr> ac_URL = ''http://c/v1/proxies'', ac_ContentType = ''application/json'',
      ac_Authorization = ''Bearer t'', ac_Body = ''eu'' \<rparr> (m, w) =
    (Inr (int (rs_Status resp'), Inr (demo_codec resp (rs_Body resp'))), m', w')"
  by (simp add: demo_tunnel_env_def controller_Do_def demo_serve assms)

lemma demo_lease_url:
  "\<exists>resp m' w' u. handleProxy (demo_api True) demo_request demo_mgr 0 =
     (\<lparr> rs_Status = 200, rs_Body = BodyProxy resp \<rparr>, m', w')
   \<and> px_SOCKS5 (pr_Proxies resp) = url_String u \<and> Parse (\<lambda>_. None) (url_String u) = Some u"
proof -
  obtain resp m' w' where h: "handleProxy (demo_api True) demo_request demo_mgr 0 =
      (\<lparr> rs_Status = 200, rs_Body = BodyProxy resp \<rparr>, m', w')" using demo_proxy_assigned by blast
  have "\<exists>u. px_SOCKS5 (pr_Proxies resp) = url_String u \<and> Parse (\<lambda>_. None) (url_String u) = Some u"
    using demo_mgr_wf h
  proof (cases rule: handleProxy_cases)
    case (assigned q pool p target tp ex t lease leaseID secret)
    have "scheme_ok proxySchemeSOCKS5" by code_simp
    then have "Parse (\<lambda>_. None) (url_String (lease_url proxySchemeSOCKS5 (reg_socksPublicAddr (m_leases demo_mgr)) leaseID secret)) =
        Some (lease_url proxySchemeSOCKS5 (reg_socksPublicAddr (m_leases demo_mgr)) leaseID secret)"
      by (intro Parse_String) (simp_all add: lease_url_def demo_addr_ok)
    with assigned(7,10) show ?thesis by auto
  qed (auto simp: writeError_def writeAcquireError_def)
  with h show ?thesis by blast
qed



definition demo_response :: ProxyResponse where
  "demo_response =
     \<lparr> pr_Proxies = \<lparr> px_SOCKS5 = [], px_HTTP = [] \<rparr>, pr_Pool = ''eu'', pr_ExitCountry = ''FR'', pr_ExitIP = [],
       pr_ExpiresAt = 0 \<rparr>"

definition demo_controller_preflight :: "(Manager \<times> nat) PreflightEnv" where
  "demo_controller_preflight =
     \<lparr> pe_Pool = ProxyForCountry (demo_tunnel_env False demo_response) demo_pool_client,
       pe_Direct = (\<lambda>target s. (Inr \<lparr> er_StatusCode = 200, er_Body = Inr ''1.1.1.1'' \<rparr>, s)),
       pe_Proxied = (\<lambda>u target s. (Inl [ErrEgressUnavailable], s)),
       pe_json = (\<lambda>_. None), pe_arrive = id, pe_visit = id \<rparr>"


end
